(* ===== verification/Ltp_Prelude.thy ===== *)
theory Ltp_Prelude
  imports Main "HOL-Library.Word" "HOL-Library.Sublist"
begin

section \<open>Shared definitions: C outcomes, C strings, C integers\<close>

text \<open>
  The pieces of C and of the C library that the modelled components share.
  A C string is the list of its characters up to, and without, the terminating NUL.
  A C function that may exit, abort or run into undefined behaviour returns an
  \<open>outcome\<close>.  Signed integers of 32 and 64 bits are HOL integers with the width written
  out where a conversion or an overflow matters.
\<close>

named_theorems cstr \<open>rewrite rules for the C string functions\<close>
named_theorems outcome_simps \<open>rewrite rules for the sequencing of outcomes\<close>

type_synonym errno = int
type_synonym pid = int
type_synonym signo = int

text \<open>The errno values of Linux that the code tests for.\<close>

definition EEXIST :: errno where "EEXIST = 17"
definition ENOTDIR :: errno where "ENOTDIR = 20"
definition EINVAL :: errno where "EINVAL = 22"
definition EINTR :: errno where "EINTR = 4"
definition ENOENT :: errno where "ENOENT = 2"
definition ESRCH :: errno where "ESRCH = 3"
definition EPERM :: errno where "EPERM = 1"

definition SIGKILL :: signo where "SIGKILL = 9"
definition PATH_MAX :: nat where "PATH_MAX = 4096"

subsection \<open>Outcomes\<close>

text \<open>
  \<open>Exits n\<close>: the process ends with \<open>exit (n)\<close>; \<open>Aborts\<close>: it ends through
  \<open>abort ()\<close> or a failed \<open>assert\<close>; \<open>Undefined why\<close>: the C code has undefined
  behaviour there (a NULL dereference, an invalid free, an out-of-bounds access).
\<close>

datatype 'a outcome = Ret 'a | Exits int | Aborts | Undefined string

fun bind_outcome :: "'a outcome \<Rightarrow> ('a \<Rightarrow> 'b outcome) \<Rightarrow> 'b outcome" where
  "bind_outcome (Ret x) f = f x"
| "bind_outcome (Exits n) f = Exits n"
| "bind_outcome Aborts f = Aborts"
| "bind_outcome (Undefined w) f = Undefined w"

declare bind_outcome.simps [outcome_simps]

lemma bind_outcome_Ret_conv [outcome_simps]:
  "(bind_outcome m f = Ret y) = (\<exists>x. m = Ret x \<and> f x = Ret y)"
  by (cases m) auto

lemma bind_outcome_assoc:
  "bind_outcome (bind_outcome m f) g = bind_outcome m (\<lambda>x. bind_outcome (f x) g)"
  by (cases m) auto

fun is_ret :: "'a outcome \<Rightarrow> bool" where
  "is_ret (Ret x) = True"
| "is_ret _ = False"

lemma is_ret_conv: "is_ret m = (\<exists>x. m = Ret x)"
  by (cases m) auto

text \<open>A call that may also still be waiting (for a lock, for a child): \<open>None\<close> then.\<close>

type_synonym 'a run = "'a outcome option"

fun bind_run :: "'a run \<Rightarrow> ('a \<Rightarrow> 'b run) \<Rightarrow> 'b run" where
  "bind_run None f = None"
| "bind_run (Some (Ret x)) f = f x"
| "bind_run (Some (Exits n)) f = Some (Exits n)"
| "bind_run (Some Aborts) f = Some Aborts"
| "bind_run (Some (Undefined w)) f = Some (Undefined w)"

declare bind_run.simps [outcome_simps]

lemma bind_run_Ret_conv [outcome_simps]:
  "(bind_run m f = Some (Ret y)) = (\<exists>x. m = Some (Ret x) \<and> f x = Some (Ret y))"
  by (cases "(m, f)" rule: bind_run.cases) auto

definition returns :: "'a run \<Rightarrow> ('a \<Rightarrow> bool) \<Rightarrow> bool" where
  "returns m P \<longleftrightarrow> (case m of Some (Ret x) \<Rightarrow> P x | _ \<Rightarrow> False)"

lemma returns_conv: "returns m P \<longleftrightarrow> (\<exists>x. m = Some (Ret x) \<and> P x)"
  by (simp add: returns_def split: option.split outcome.split)

subsection \<open>Characters\<close>

abbreviation NUL :: char where "NUL \<equiv> CHR 0x00"
abbreviation NL :: char where "NL \<equiv> CHR 0x0A"
abbreviation TAB :: char where "TAB \<equiv> CHR 0x09"
abbreviation SPACE :: char where "SPACE \<equiv> CHR '' ''"
abbreviation HASH :: char where "HASH \<equiv> CHR ''#''"
abbreviation COMMA :: char where "COMMA \<equiv> CHR '',''"

text \<open>\<open>isspace ()\<close> and \<open>isdigit ()\<close> of the C locale.\<close>

definition is_space :: "char \<Rightarrow> bool" where
  "is_space c \<longleftrightarrow> c \<in> {CHR '' '', CHR 0x09, CHR 0x0A, CHR 0x0B, CHR 0x0C, CHR 0x0D}"

definition is_digit :: "char \<Rightarrow> bool" where
  "is_digit c \<longleftrightarrow> 48 \<le> (of_char c :: nat) \<and> (of_char c :: nat) \<le> 57"

definition digit_val :: "char \<Rightarrow> nat" where
  "digit_val c = of_char c - 48"

definition digit_char :: "nat \<Rightarrow> char" where
  "digit_char d = char_of (48 + d)"

text \<open>The digits that \<open>%x\<close> writes.\<close>

definition hex_digit :: "nat \<Rightarrow> char" where
  "hex_digit d = (if d < 10 then char_of (48 + d) else char_of (87 + d))"

lemma of_char_digit_char: "d < 10 \<Longrightarrow> (of_char (digit_char d) :: nat) = 48 + d"
  by (simp add: digit_char_def)

lemma is_digit_digit_char [simp, cstr]: "d < 10 \<Longrightarrow> is_digit (digit_char d)"
  by (simp add: is_digit_def of_char_digit_char)

lemma digit_val_digit_char [simp, cstr]: "d < 10 \<Longrightarrow> digit_val (digit_char d) = d"
  by (simp add: digit_val_def of_char_digit_char)

lemma digit_not_space: "is_digit c \<Longrightarrow> \<not> is_space c"
  by (auto simp: is_digit_def is_space_def)

lemma digit_neq [simp]:
  "is_digit c \<Longrightarrow> c \<noteq> CHR ''-''" "is_digit c \<Longrightarrow> c \<noteq> CHR ''+''"
  "is_digit c \<Longrightarrow> c \<noteq> COMMA" "is_digit c \<Longrightarrow> c \<noteq> HASH"
  "is_digit c \<Longrightarrow> c \<noteq> NL" "is_digit c \<Longrightarrow> c \<noteq> NUL" "is_digit c \<Longrightarrow> c \<noteq> CHR ''.''"
  by (auto simp: is_digit_def)

subsection \<open>Integers of a fixed width\<close>

definition INT_MAX :: int where "INT_MAX = 2 ^ 31 - 1"
definition INT_MIN :: int where "INT_MIN = - (2 ^ 31)"
definition LONG_MAX :: int where "LONG_MAX = 2 ^ 63 - 1"
definition LONG_MIN :: int where "LONG_MIN = - (2 ^ 63)"
definition ULONG_MAX :: int where "ULONG_MAX = 2 ^ 64 - 1"

lemmas int_limits = INT_MAX_def INT_MIN_def LONG_MAX_def LONG_MIN_def ULONG_MAX_def

text \<open>Conversion to \<open>int\<close> keeps the low 32 bits, read as two's complement.\<close>

definition wrap32 :: "int \<Rightarrow> int" where
  "wrap32 x = (x + 2 ^ 31) mod 2 ^ 32 - 2 ^ 31"

definition wrap64 :: "int \<Rightarrow> int" where
  "wrap64 x = (x + 2 ^ 63) mod 2 ^ 64 - 2 ^ 63"

lemma wrap32_id: "INT_MIN \<le> x \<Longrightarrow> x \<le> INT_MAX \<Longrightarrow> wrap32 x = x"
  by (simp add: wrap32_def int_limits)

lemma wrap32_range: "INT_MIN \<le> wrap32 x \<and> wrap32 x \<le> INT_MAX"
proof -
  have "(x + 2 ^ 31) mod 2 ^ 32 < (2 ^ 32 :: int)" "(0 :: int) \<le> (x + 2 ^ 31) mod 2 ^ 32"
    by simp_all
  then show ?thesis by (simp add: wrap32_def int_limits)
qed

lemma wrap64_id: "LONG_MIN \<le> x \<Longrightarrow> x \<le> LONG_MAX \<Longrightarrow> wrap64 x = x"
  by (simp add: wrap64_def int_limits)

text \<open>The result of signed arithmetic of 32 and of 64 bits; outside its range the behaviour is
  undefined.  C's \<open>/\<close> and \<open>%\<close> truncate towards zero.\<close>

definition int_of_expr :: "int \<Rightarrow> int outcome" where
  "int_of_expr x = (if INT_MIN \<le> x \<and> x \<le> INT_MAX then Ret x else Undefined ''signed overflow'')"

definition long_of :: "int \<Rightarrow> int outcome" where
  "long_of x = (if LONG_MIN \<le> x \<and> x \<le> LONG_MAX then Ret x else Undefined ''signed overflow'')"

definition tdiv :: "int \<Rightarrow> int \<Rightarrow> int" where
  "tdiv a b = (if a < 0 then - (- a div b) else a div b)"

definition tmod :: "int \<Rightarrow> int \<Rightarrow> int" where
  "tmod a b = a - tdiv a b * b"

lemma tdiv_pos: "0 \<le> a \<Longrightarrow> tdiv a b = a div b"
  by (simp add: tdiv_def)

lemma tmod_pos: "0 \<le> a \<Longrightarrow> tmod a b = a mod b"
  by (simp add: tmod_def tdiv_pos minus_div_mult_eq_mod)

subsection \<open>Reading and printing decimal numbers\<close>

definition dec_val :: "string \<Rightarrow> nat" where
  "dec_val ds = foldl (\<lambda>a c. 10 * a + digit_val c) 0 ds"

fun show_nat :: "nat \<Rightarrow> string" where
  "show_nat n = (if n < 10 then [digit_char n] else show_nat (n div 10) @ [digit_char (n mod 10)])"

declare show_nat.simps [simp del]

text \<open>What \<open>printf\<close> writes for \<open>%d\<close>.\<close>

definition show_int :: "int \<Rightarrow> string" where
  "show_int i = (if i < 0 then CHR ''-'' # show_nat (nat (- i)) else show_nat (nat i))"

lemma dec_val_snoc [cstr]: "dec_val (ds @ [c]) = 10 * dec_val ds + digit_val c"
  by (simp add: dec_val_def)

lemma show_nat_digits: "\<forall>c \<in> set (show_nat n). is_digit c"
proof (induction n rule: show_nat.induct)
  case (1 n)
  then show ?case by (subst show_nat.simps) auto
qed

lemma show_nat_nonempty [simp]: "show_nat n \<noteq> []"
  by (subst show_nat.simps) simp

lemma dec_val_show_nat [simp, cstr]: "dec_val (show_nat n) = n"
proof (induction n rule: show_nat.induct)
  case (1 n)
  show ?case
  proof (cases "n < 10")
    case True
    then show ?thesis by (subst show_nat.simps) (simp add: dec_val_def)
  next
    case False
    with 1 have "dec_val (show_nat (n div 10)) = n div 10" by simp
    with False show ?thesis by (subst show_nat.simps) (simp add: dec_val_snoc)
  qed
qed

text \<open>
  \<open>strtol (s, &end, 10)\<close> and \<open>strtoul (s, &end, 10)\<close> with 64-bit \<open>long\<close>: the value, the
  rest of the string at \<open>end\<close>, and whether \<open>errno\<close> was set to \<open>ERANGE\<close>.
  With no digit the value is 0 and \<open>end\<close> is the start of the string.
\<close>

definition read_sign :: "string \<Rightarrow> bool \<times> string" where
  "read_sign t = (case t of [] \<Rightarrow> (False, [])
     | c # r \<Rightarrow> if c = CHR ''-'' then (True, r) else if c = CHR ''+'' then (False, r) else (False, t))"

definition strtol10 :: "string \<Rightarrow> int \<times> string \<times> bool" where
  "strtol10 s =
     (let (neg, u) = read_sign (dropWhile is_space s); ds = takeWhile is_digit u; r = dropWhile is_digit u
      in if ds = [] then (0, s, False)
         else let v = (if neg then - int (dec_val ds) else int (dec_val ds))
              in if v > LONG_MAX then (LONG_MAX, r, True)
                 else if v < LONG_MIN then (LONG_MIN, r, True) else (v, r, False))"

definition strtoul10 :: "string \<Rightarrow> int \<times> string \<times> bool" where
  "strtoul10 s =
     (let (neg, u) = read_sign (dropWhile is_space s); ds = takeWhile is_digit u; r = dropWhile is_digit u
      in if ds = [] then (0, s, False)
         else let v = int (dec_val ds)
              in if v > ULONG_MAX then (ULONG_MAX, r, True)
                 else if neg then ((- v) mod 2 ^ 64, r, False) else (v, r, False))"

text \<open>\<open>atoi (s)\<close> is \<open>(int) strtol (s, NULL, 10)\<close>.\<close>

definition atoi :: "string \<Rightarrow> int" where
  "atoi s = wrap32 (fst (strtol10 s))"

definition nondigit_head :: "string \<Rightarrow> bool" where
  "nondigit_head r \<longleftrightarrow> r = [] \<or> \<not> is_digit (hd r)"

lemma takeWhile_digits_append:
  assumes "\<forall>c \<in> set ds. is_digit c" and "nondigit_head r"
  shows "takeWhile is_digit (ds @ r) = ds \<and> dropWhile is_digit (ds @ r) = r"
proof -
  have "takeWhile is_digit r = [] \<and> dropWhile is_digit r = r"
    using assms(2) by (cases r) (auto simp: nondigit_head_def)
  with assms(1) show ?thesis by (induction ds) auto
qed

lemma show_nat_Cons: "\<exists>c cs. show_nat n = c # cs \<and> is_digit c"
  using show_nat_digits [of n] show_nat_nonempty [of n] by (cases "show_nat n") auto

lemma read_sign_show_nat [cstr]:
  "read_sign (dropWhile is_space (show_nat n @ r)) = (False, show_nat n @ r)"
proof -
  obtain c cs where "show_nat n = c # cs" "is_digit c" using show_nat_Cons by blast
  then show ?thesis by (simp add: read_sign_def digit_not_space)
qed

lemma show_int_chars: "c \<in> set (show_int i) \<Longrightarrow> is_digit c \<or> c = CHR ''-''"
  using show_nat_digits by (auto simp: show_int_def split: if_splits)

lemma show_int_nonempty [simp]: "show_int i \<noteq> []"
  by (simp add: show_int_def)

lemma length_show_nat: "n < 10 ^ Suc k \<Longrightarrow> length (show_nat n) \<le> Suc k"
proof (induction k arbitrary: n)
  case 0
  then show ?case by (simp add: show_nat.simps)
next
  case (Suc k)
  show ?case
  proof (cases "n < 10")
    case True
    then show ?thesis by (simp add: show_nat.simps)
  next
    case False
    with Suc have "length (show_nat (n div 10)) \<le> Suc k" by simp
    with False show ?thesis by (subst show_nat.simps) simp
  qed
qed

lemma length_show_int: "INT_MIN \<le> p \<Longrightarrow> p \<le> INT_MAX \<Longrightarrow> length (show_int p) \<le> 11"
  using length_show_nat [of "nat p" 9] length_show_nat [of "nat (- p)" 9]
  by (cases "p < 0") (simp_all add: show_int_def int_limits nat_less_iff)

lemma strtol10_show_int [cstr]:
  assumes "nondigit_head r" and "LONG_MIN \<le> i" and "i \<le> LONG_MAX"
  shows "strtol10 (show_int i @ r) = (i, r, False)"
proof -
  note d = takeWhile_digits_append [OF show_nat_digits assms(1)]
  show ?thesis
  proof (cases "i < 0")
    case True
    have "read_sign (dropWhile is_space (show_int i @ r)) = (True, show_nat (nat (- i)) @ r)"
      using True by (simp add: show_int_def read_sign_def is_space_def)
    with True assms show ?thesis
      by (simp add: strtol10_def d int_limits Let_def)
  next
    case False
    have "read_sign (dropWhile is_space (show_int i @ r)) = (False, show_nat (nat i) @ r)"
      using False by (simp add: show_int_def read_sign_show_nat)
    with False assms show ?thesis
      by (simp add: strtol10_def d int_limits Let_def)
  qed
qed

lemma strtoul10_show_nat:
  assumes "nondigit_head r" and "int n \<le> ULONG_MAX"
  shows "strtoul10 (show_nat n @ r) = (int n, r, False)"
  using takeWhile_digits_append [OF show_nat_digits assms(1), of n] assms(2)
  by (simp add: strtoul10_def read_sign_show_nat)

lemma atoi_show_int [cstr]:
  assumes "nondigit_head r" and "INT_MIN \<le> i" and "i \<le> INT_MAX"
  shows "atoi (show_int i @ r) = i"
proof -
  have "LONG_MIN \<le> i" "i \<le> LONG_MAX" using assms by (simp_all add: int_limits)
  then show ?thesis using assms by (simp add: atoi_def strtol10_show_int wrap32_id)
qed

subsection \<open>String functions\<close>

text \<open>\<open>strncmp (a, b, n) == 0\<close>; \<open>strstr\<close> and \<open>strchr\<close> give the rest of the
  string at the match.\<close>

definition strncmp_eq :: "string \<Rightarrow> string \<Rightarrow> nat \<Rightarrow> bool" where
  "strncmp_eq a b n \<longleftrightarrow> take n a = take n b"

fun strstr :: "string \<Rightarrow> string \<Rightarrow> string option" where
  "strstr [] n = (if n = [] then Some [] else None)"
| "strstr (c # s) n = (if prefix n (c # s) then Some (c # s) else strstr s n)"

fun strchr :: "string \<Rightarrow> char \<Rightarrow> string option" where
  "strchr [] x = None"
| "strchr (c # s) x = (if c = x then Some (c # s) else strchr s x)"

lemma strncmp_eq_prefix: "strncmp_eq p s (length p) \<longleftrightarrow> prefix p s"
proof
  assume "strncmp_eq p s (length p)"
  then have "p = take (length p) s" by (simp add: strncmp_eq_def)
  then show "prefix p s" by (metis take_is_prefix)
qed (auto simp: strncmp_eq_def prefix_def)

lemma strstr_None_iff: "strstr s n = None \<longleftrightarrow> \<not> sublist n s"
  by (induction s) (auto simp: sublist_Cons_right split: if_splits)

lemma strstr_Some_prefix: "strstr s n = Some t \<Longrightarrow> prefix n t \<and> suffix t s"
  by (induction s) (auto split: if_splits intro: suffix_ConsI)

lemma strchr_append: "x \<notin> set p \<Longrightarrow> strchr (p @ t) x = strchr t x"
  by (induction p) auto

lemma strchr_None_iff: "strchr s x = None \<longleftrightarrow> x \<notin> set s"
  by (induction s) auto

lemma strchr_Some: "strchr s x = Some t \<Longrightarrow> (\<exists>p r. s = p @ t \<and> t = x # r \<and> x \<notin> set p)"
proof (induction s)
  case Nil
  then show ?case by simp
next
  case (Cons c s)
  show ?case
  proof (cases "c = x")
    case True
    with Cons.prems show ?thesis by (intro exI [of _ "[]"] exI [of _ s]) simp
  next
    case False
    with Cons obtain p r where "s = p @ t" "t = x # r" "x \<notin> set p" by auto
    with False show ?thesis by (intro exI [of _ "c # p"] exI [of _ r]) simp
  qed
qed

text \<open>\<open>printf ("%-*.*s", w, w, s)\<close>: truncated and padded with blanks to \<open>w\<close>
  characters.  \<open>snprintf (buf, n, \<dots>)\<close> keeps the first \<open>n - 1\<close> characters.\<close>

definition pad_trunc :: "nat \<Rightarrow> string \<Rightarrow> string" where
  "pad_trunc w s = take w s @ replicate (w - length s) SPACE"

definition snprintf :: "nat \<Rightarrow> string \<Rightarrow> string" where
  "snprintf n s = take (n - 1) s"

text \<open>\<open>%-ws\<close>: padded on the right to at least \<open>w\<close>; \<open>%wd\<close> padded on the left.\<close>

definition ljust :: "nat \<Rightarrow> string \<Rightarrow> string" where
  "ljust w s = s @ replicate (w - length s) SPACE"

definition rjust :: "nat \<Rightarrow> string \<Rightarrow> string" where
  "rjust w s = replicate (w - length s) SPACE @ s"

lemma length_pad_trunc [simp, cstr]: "length (pad_trunc w s) = w"
  by (simp add: pad_trunc_def)

lemma set_pad_trunc: "set (pad_trunc w s) \<subseteq> insert SPACE (set s)"
  by (auto simp: pad_trunc_def dest: in_set_takeD)

lemma hd_pad_trunc: "s \<noteq> [] \<Longrightarrow> 0 < w \<Longrightarrow> hd (pad_trunc w s) = hd s"
  by (cases s; cases w) (auto simp: pad_trunc_def)

lemma length_snprintf: "0 < n \<Longrightarrow> length (snprintf n s) < n"
  by (auto simp: snprintf_def)

subsection \<open>Reading lines\<close>

text \<open>\<open>fgets (buf, n, fp)\<close> with \<open>rest\<close> the bytes from the file position on (\<open>NULL\<close> exactly
  when there are none): at most \<open>n - 1\<close> bytes, up to and with the first newline.\<close>

definition fgets :: "nat \<Rightarrow> string \<Rightarrow> string" where
  "fgets n rest =
     (let chunk = take (n - 1) rest
      in if NL \<in> set chunk then takeWhile (\<lambda>c. c \<noteq> NL) chunk @ [NL] else chunk)"

text \<open>What the string functions see of a buffer.\<close>

definition cstring :: "string \<Rightarrow> string" where
  "cstring buf = takeWhile (\<lambda>c. c \<noteq> NUL) buf"

definition strlen :: "string \<Rightarrow> nat" where
  "strlen buf = length (takeWhile (\<lambda>c. c \<noteq> NUL) buf)"

lemma fgets_nonempty: "rest \<noteq> [] \<Longrightarrow> 1 < n \<Longrightarrow> fgets n rest \<noteq> []"
  by (cases rest) (auto simp: fgets_def Let_def)

lemma length_fgets_le: "length (fgets n rest) \<le> length rest"
proof -
  let ?c = "take (n - 1) rest"
  have "length (takeWhile (\<lambda>c. c \<noteq> NL) ?c @ [NL]) \<le> length ?c" if "NL \<in> set ?c"
  proof -
    have "takeWhile (\<lambda>c. c \<noteq> NL) ?c \<noteq> ?c" using that by (auto simp: takeWhile_eq_all_conv)
    then have "length (takeWhile (\<lambda>c. c \<noteq> NL) ?c) < length ?c"
      by (metis length_takeWhile_le le_neq_implies_less takeWhile_eq_take take_all_iff)
    then show ?thesis by simp
  qed
  then show ?thesis by (auto simp: fgets_def Let_def)
qed

lemma fgets_line:
  assumes "length l + 1 < n" and "NL \<notin> set l"
  shows "fgets n (l @ NL # rest) = l @ [NL]"
proof -
  obtain k where k: "n = length l + k + 2"
    using less_imp_Suc_add [OF assms(1)] by auto
  have tk: "take (n - 1) (l @ NL # rest) = l @ NL # take k rest" by (simp add: k)
  have "takeWhile (\<lambda>c. c \<noteq> NL) (l @ NL # take k rest) = l"
    using assms(2) by (subst takeWhile_append2) auto
  then show ?thesis unfolding fgets_def Let_def tk by simp
qed

subsection \<open>Lists\<close>

lemma take_Suc_nth_update: "i < length xs \<Longrightarrow> take i (xs[i := v]) = take i xs"
  by simp

lemma filter_eq_length_conv: "length (filter P xs) = length xs \<longleftrightarrow> (\<forall>x \<in> set xs. P x)"
  by (metis filter_True length_filter_less less_irrefl)

text \<open>First-match replacement: the shape of the searches that stop at the first hit.\<close>

fun update_first :: "('a \<Rightarrow> bool) \<Rightarrow> ('a \<Rightarrow> 'a) \<Rightarrow> 'a list \<Rightarrow> 'a list" where
  "update_first P f [] = []"
| "update_first P f (x # xs) = (if P x then f x # xs else x # update_first P f xs)"

lemma length_update_first [simp]: "length (update_first P f xs) = length xs"
  by (induction xs) auto

lemma update_first_none: "\<forall>x \<in> set xs. \<not> P x \<Longrightarrow> update_first P f xs = xs"
  by (induction xs) auto

lemma update_first_split:
  assumes "\<forall>x \<in> set pre. \<not> P x" and "P x"
  shows "update_first P f (pre @ x # post) = pre @ f x # post"
  using assms by (induction pre) auto

lemma split_firstE:
  assumes "\<exists>x \<in> set xs. P x"
  obtains pre x post where "xs = pre @ x # post" "P x" "\<forall>y \<in> set pre. \<not> P y"
  using split_list_first_prop [OF assms] by blast

text \<open>The index at which a search from the front stops.\<close>

fun first_index :: "('a \<Rightarrow> bool) \<Rightarrow> 'a list \<Rightarrow> nat option" where
  "first_index P [] = None"
| "first_index P (x # xs) = (if P x then Some 0 else map_option Suc (first_index P xs))"

lemma first_index_None: "first_index P xs = None \<longleftrightarrow> (\<forall>x \<in> set xs. \<not> P x)"
  by (induction xs) auto

lemma first_index_Some:
  "first_index P xs = Some i \<Longrightarrow> i < length xs \<and> P (xs ! i)"
  by (induction xs arbitrary: i) (auto split: if_splits simp: less_Suc_eq_0_disj)

lemma first_index_append:
  "\<forall>x \<in> set pre. \<not> P x \<Longrightarrow> P x \<Longrightarrow> first_index P (pre @ x # post) = Some (length pre)"
  by (induction pre) auto

end
