(* ===== verification/Zoolib.thy ===== *)
theory Zoolib
  imports Ltp_Prelude "HOL-Library.Multiset"
begin

section \<open>pan/zoolib.c: the file of active test tags\<close>

text \<open>
  The zoo is a text file of 80-character lines; a line that starts with \<open>#\<close> is free, any
  other line records \<open>pid,tag,cmdline\<close>.  The file is modelled byte by byte: the operations
  read it with \<open>fgets\<close> into an 81-byte buffer and overwrite bytes at a remembered position.
  The results of the system calls (\<open>fcntl\<close>, \<open>fseek\<close>, \<open>fopen\<close>) are arguments.  An operation
  that is still waiting for the lock has no result (\<open>None\<close>).
\<close>


definition SIGHUP :: signo where "SIGHUP = 1"
definition SIGINT :: signo where "SIGINT = 2"
definition SIGUSR1 :: signo where "SIGUSR1 = 10"
definition SIGUSR2 :: signo where "SIGUSR2 = 12"
definition SIGALRM :: signo where "SIGALRM = 14"
definition SIGTERM :: signo where "SIGTERM = 15"

lemmas signal_numbers =
  SIGHUP_def SIGINT_def SIGKILL_def SIGUSR1_def SIGUSR2_def SIGALRM_def SIGTERM_def

abbreviation BUFLEN :: nat where "BUFLEN \<equiv> 81"

text \<open>The messages left in \<open>zoo_error\<close>, by the place that writes them.\<close>

datatype zoo_message = No_message
  | Could_not_open errno | Closing_caused_error errno
  | Seek_error errno | Seek_end_error errno | Pid_not_found pid
  | Lock_failed errno | Unlock_failed errno

record zoo =
  zopen :: bool
  zfile :: string
  zlocked :: bool
  zmask :: "signo set"
  zmsg :: zoo_message

record zoo_env =
  lock_rets :: "errno list"
  unlock_rets :: "errno list"
  seek_err :: errno
  seek_end_err :: errno

subsection \<open>Naming, opening and closing\<close>

definition zoo_getname :: "string option \<Rightarrow> string option" where
  "zoo_getname env_ZOO = map_option (\<lambda>z. snprintf 1024 (z @ ''/'' @ ''active'')) env_ZOO"

text \<open>The arguments are the errno values (0 for success) of the three \<open>fopen\<close> calls and the
  file's contents; the result is the handle (\<open>None\<close> for NULL) and the message.\<close>

definition zoo_open :: "errno \<Rightarrow> errno \<Rightarrow> errno \<Rightarrow> string \<Rightarrow> zoo option \<times> zoo_message" where
  "zoo_open rplus1 aplus rplus2 contents =
     (let h = \<lparr>zopen = True, zfile = contents, zlocked = False, zmask = {}, zmsg = No_message\<rparr>
      in if rplus1 = 0 then (Some h, No_message)
         else if rplus1 = ENOENT
              then if aplus \<noteq> 0 then (None, Could_not_open aplus)
                   else if rplus2 = 0 then (Some (h\<lparr>zfile := []\<rparr>), No_message) else (None, No_message)
              else (None, Could_not_open rplus1))"

definition zoo_close :: "errno \<Rightarrow> zoo \<Rightarrow> int \<times> zoo" where
  "zoo_close fclose_err z =
     (if fclose_err \<noteq> 0 then (-1, z\<lparr>zopen := False, zmsg := Closing_caused_error fclose_err\<rparr>)
      else (0, z\<lparr>zopen := False\<rparr>))"

subsection \<open>Locking\<close>

text \<open>\<open>do ret = fcntl (F_SETLKW) while (ret == -1 && errno == EINTR)\<close>: the list holds the errno
  values of the successive calls (0 for success).\<close>

fun fcntl_setlkw :: "errno list \<Rightarrow> errno option" where
  "fcntl_setlkw [] = None"
| "fcntl_setlkw (e # es) = (if e = EINTR then fcntl_setlkw es else Some e)"

definition block_these :: "signo set" where
  "block_these = {SIGINT, SIGTERM, SIGHUP, SIGUSR1, SIGUSR2}"

definition zoo_lock :: "errno list \<Rightarrow> zoo \<Rightarrow> (int \<times> zoo) option" where
  "zoo_lock rets z =
     (if \<not> zopen z then Some (-1, z)
      else case fcntl_setlkw rets of
        None \<Rightarrow> None
      | Some e \<Rightarrow>
          let z1 = z\<lparr>zmask := (zmask z \<union> block_these) - block_these\<rparr>
          in if e \<noteq> 0 then Some (-1, z1\<lparr>zmsg := Unlock_failed e\<rparr>)
             else Some (0, z1\<lparr>zlocked := True\<rparr>))"

definition zoo_unlock :: "errno list \<Rightarrow> zoo \<Rightarrow> (int \<times> zoo) option" where
  "zoo_unlock rets z =
     (if \<not> zopen z then Some (-1, z)
      else case fcntl_setlkw rets of
        None \<Rightarrow> None
      | Some e \<Rightarrow>
          let z1 = z\<lparr>zmask := (zmask z \<union> block_these) - block_these\<rparr>
          in if e \<noteq> 0 then Some (-1, z1\<lparr>zmsg := Lock_failed e\<rparr>)
             else Some (0, z1\<lparr>zlocked := False\<rparr>))"

subsection \<open>Reading and writing the file\<close>

definition write_at :: "nat \<Rightarrow> string \<Rightarrow> string \<Rightarrow> string" where
  "write_at pos bytes f = take pos f @ bytes @ drop (pos + length bytes) f"

text \<open>The scanning loop the operations share: from position \<open>pos\<close>, with \<open>rest\<close> still unread,
  the first line buffer that satisfies \<open>P\<close> and the position it was read from.\<close>

function scan :: "(string \<Rightarrow> bool) \<Rightarrow> nat \<Rightarrow> string \<Rightarrow> (nat \<times> string) option" where
  "scan P pos rest =
     (if rest = [] then None
      else let buf = fgets BUFLEN rest
           in if P buf then Some (pos, buf)
              else scan P (pos + length buf) (drop (length buf) rest))"
  by pat_completeness auto
termination
proof (relation "measure (\<lambda>(P, pos, rest). length rest)", goal_cases)
  case (2 P pos rest buf)
  then have "buf \<noteq> []" using fgets_nonempty [of rest BUFLEN] by simp
  with 2 show ?case by simp
qed simp

declare scan.simps [simp del]

subsection \<open>Marking\<close>

text \<open>\<open>zoo_mark\<close>: first fit over the free lines, else a new line at the end of the file.\<close>

definition zoo_mark :: "zoo_env \<Rightarrow> zoo \<Rightarrow> string \<Rightarrow> (int \<times> zoo) option" where
  "zoo_mark env z entry =
     (if \<not> zopen z then Some (-1, z)
      else case zoo_lock (lock_rets env) z of
        None \<Rightarrow> None
      | Some (r, z1) \<Rightarrow>
        if r \<noteq> 0 then Some (-1, z1)
        else
          case scan (\<lambda>buf. hd buf = HASH) 0 (zfile z1) of
            Some (pos, buf) \<Rightarrow>
              if seek_err env \<noteq> 0 then Some (-1, z1\<lparr>zmsg := Seek_error (seek_err env)\<rparr>)
              else
                (case zoo_unlock (unlock_rets env)
                        (z1\<lparr>zfile := write_at pos (pad_trunc (strlen buf - 1) entry @ [NL]) (zfile z1)\<rparr>) of
                   None \<Rightarrow> None
                 | Some (u, z2) \<Rightarrow> if u \<noteq> 0 then Some (-1, z2) else Some (0, z2))
          | None \<Rightarrow>
              if seek_end_err env \<noteq> 0 then Some (-1, z1\<lparr>zmsg := Seek_end_error (seek_end_err env)\<rparr>)
              else
                (case zoo_unlock (unlock_rets env) (z1\<lparr>zfile := zfile z1 @ pad_trunc 79 entry @ [NL]\<rparr>) of
                   None \<Rightarrow> None
                 | Some (u, z2) \<Rightarrow> if u \<noteq> 0 then Some (-1, z2) else Some (0, z2)))"

definition zoo_mark_cmdline :: "zoo_env \<Rightarrow> zoo \<Rightarrow> pid \<Rightarrow> string \<Rightarrow> string \<Rightarrow> (int \<times> zoo) option" where
  "zoo_mark_cmdline env z p tag cmdline =
     zoo_mark env z (snprintf 80 (show_int p @ '','' @ tag @ '','' @ cmdline))"

text \<open>\<open>cat_args\<close>: the buffer has \<open>size\<close> bytes, and the terminating NUL has to fit.\<close>

definition cat_args_size :: "string list \<Rightarrow> nat" where
  "cat_args_size argv = sum_list (map (\<lambda>a. length a + 1) argv)"

fun cat_args_text :: "string list \<Rightarrow> string" where
  "cat_args_text [] = []"
| "cat_args_text [a] = a"
| "cat_args_text (a # as) = a @ [SPACE] @ cat_args_text as"

definition cat_args :: "bool \<Rightarrow> string list \<Rightarrow> string option outcome" where
  "cat_args malloc_ok argv =
     (if \<not> malloc_ok then Ret None
      else if cat_args_size argv < length (cat_args_text argv) + 1 then Undefined ''write past cmd''
      else Ret (Some (cat_args_text argv)))"

definition zoo_mark_args ::
  "bool \<Rightarrow> zoo_env \<Rightarrow> zoo \<Rightarrow> pid \<Rightarrow> string \<Rightarrow> string list \<Rightarrow> (int \<times> zoo) option outcome" where
  "zoo_mark_args malloc_ok env z p tag av =
     bind_outcome (cat_args malloc_ok av)
       (\<lambda>r. case r of None \<Rightarrow> Undefined ''NULL for %s'' | Some cmdline \<Rightarrow> Ret (zoo_mark_cmdline env z p tag cmdline))"

subsection \<open>Clearing and looking up\<close>

definition zoo_clear :: "zoo_env \<Rightarrow> zoo \<Rightarrow> pid \<Rightarrow> (int \<times> zoo) option" where
  "zoo_clear env z p =
     (if \<not> zopen z then Some (-1, z)
      else case zoo_lock (lock_rets env) z of
        None \<Rightarrow> None
      | Some (r, z1) \<Rightarrow>
        if r \<noteq> 0 then Some (-1, z1)
        else
          case scan (\<lambda>buf. hd buf \<noteq> HASH \<and> atoi buf = p) 0 (zfile z1) of
            Some (pos, buf) \<Rightarrow>
              if seek_err env \<noteq> 0 then Some (-1, z1\<lparr>zmsg := Seek_error (seek_err env)\<rparr>)
              else
                (case zoo_unlock (unlock_rets env) (z1\<lparr>zfile := write_at pos ''#'' (zfile z1)\<rparr>) of
                   None \<Rightarrow> None
                 | Some (u, z2) \<Rightarrow> if u \<noteq> 0 then Some (-1, z2) else Some (0, z2))
          | None \<Rightarrow>
                (case zoo_unlock (unlock_rets env) z1 of
                   None \<Rightarrow> None
                 | Some (u, z2) \<Rightarrow>
                     if u \<noteq> 0 then Some (-1, z2) else Some (1, z2\<lparr>zmsg := Pid_not_found p\<rparr>)))"

text \<open>The test of \<open>zoo_getpid\<close>: a line in use whose text after the first comma agrees with the tag on
  the tag's length.\<close>

definition tag_line :: "string \<Rightarrow> string \<Rightarrow> bool" where
  "tag_line tag buf \<longleftrightarrow> hd buf \<noteq> HASH \<and>
     (case strchr (takeWhile (\<lambda>c. c \<noteq> NUL) buf) COMMA of
        None \<Rightarrow> False
      | Some s \<Rightarrow> strncmp_eq (tl s) tag (length tag))"

definition zoo_getpid :: "zoo_env \<Rightarrow> zoo \<Rightarrow> string \<Rightarrow> (pid \<times> zoo) option" where
  "zoo_getpid env z tag =
     (if \<not> zopen z then Some (-1, z)
      else case zoo_lock (lock_rets env) z of
        None \<Rightarrow> None
      | Some (r, z1) \<Rightarrow>
        if r \<noteq> 0 then Some (-1, z1)
        else
          let this_pid = (case scan (tag_line tag) 0 (zfile z1) of Some (_, buf) \<Rightarrow> atoi buf | None \<Rightarrow> -1)
          in case zoo_unlock (unlock_rets env) z1 of
               None \<Rightarrow> None
             | Some (u, z2) \<Rightarrow> if u \<noteq> 0 then Some (-1, z2) else Some (this_pid, z2))"

end
