(* ===== verification/Zoo_Spec.thy ===== *)
theory Zoo_Spec
  imports Zoolib
begin

section \<open>What the zoo file promises\<close>

text \<open>
  The abstract view of a zoo file: a list of lines of 79 characters.  The byte-level operations of
  \<open>Zoolib\<close> are shown to refine operations on that list, and these in turn to implement a multiset
  of active process ids.  The locale \<open>zoo_store\<close> is the contract the test driver relies on; the
  file is its instance.
\<close>

subsection \<open>The lines of a well-formed file\<close>

definition zline :: "string \<Rightarrow> bool" where
  "zline l \<longleftrightarrow> length l = 79 \<and> NL \<notin> set l \<and> NUL \<notin> set l"

definition unlines :: "string list \<Rightarrow> string" where
  "unlines ls = concat (map (\<lambda>l. l @ [NL]) ls)"

text \<open>Text that may go into a line: what a C string read from one line of a file can hold.\<close>

definition clean :: "string \<Rightarrow> bool" where
  "clean s \<longleftrightarrow> NL \<notin> set s \<and> NUL \<notin> set s"

definition free_line :: "string \<Rightarrow> bool" where
  "free_line l \<longleftrightarrow> hd l = HASH"

text \<open>The operations on the list of lines.\<close>

definition mark_lines :: "string \<Rightarrow> string list \<Rightarrow> string list" where
  "mark_lines entry ls =
     (if \<exists>l \<in> set ls. free_line l then update_first free_line (\<lambda>_. pad_trunc 79 entry) ls
      else ls @ [pad_trunc 79 entry])"

definition pid_line :: "pid \<Rightarrow> string \<Rightarrow> bool" where
  "pid_line p l \<longleftrightarrow> \<not> free_line l \<and> atoi l = p"

definition clear_lines :: "pid \<Rightarrow> string list \<Rightarrow> string list" where
  "clear_lines p ls = update_first (pid_line p) (\<lambda>l. HASH # tl l) ls"

text \<open>The active process ids.\<close>

definition active_pids :: "string list \<Rightarrow> pid multiset" where
  "active_pids ls = image_mset atoi (filter_mset (\<lambda>l. \<not> free_line l) (mset ls))"

subsection \<open>Scanning the lines of a file\<close>

lemma unlines_simps [simp]:
  "unlines [] = []" "unlines (l # ls) = l @ NL # unlines ls" "unlines (ls @ ms) = unlines ls @ unlines ms"
  by (simp_all add: unlines_def)

lemma fgets_zline: "zline l \<Longrightarrow> fgets BUFLEN (l @ NL # rest) = l @ [NL]"
  by (rule fgets_line) (auto simp: zline_def)

lemma scan_step:
  assumes "zline l"
  shows "scan P pos (l @ NL # rest) =
           (if P (l @ [NL]) then Some (pos, l @ [NL]) else scan P (pos + 80) rest)"
proof -
  have "drop 80 (l @ NL # rest) = rest" "length l + 1 = 80" using assms by (simp_all add: zline_def)
  then show ?thesis
    by (subst scan.simps) (simp add: fgets_zline [OF assms] Let_def)
qed

lemma scan_none:
  assumes "\<forall>l \<in> set ls. zline l" and "\<forall>l \<in> set ls. \<not> P (l @ [NL])"
  shows "scan P pos (unlines ls) = None"
  using assms by (induction ls arbitrary: pos) (auto simp: scan_step scan.simps [of P _ "[]"])

lemma scan_found:
  assumes "\<forall>l \<in> set pre. zline l" and "\<forall>l \<in> set pre. \<not> P (l @ [NL])" and "zline l" and "P (l @ [NL])"
  shows "scan P pos (unlines (pre @ l # post)) = Some (pos + length (unlines pre), l @ [NL])"
  using assms by (induction pre arbitrary: pos) (auto simp: scan_step zline_def)

lemma write_at_line:
  assumes "length l' = length l"
  shows "write_at (length (unlines pre)) (l' @ [NL]) (unlines (pre @ l # post)) = unlines (pre @ l' # post)"
  using assms by (simp add: write_at_def)

lemma write_at_head:
  assumes "l \<noteq> []"
  shows "write_at (length (unlines pre)) [x] (unlines (pre @ l # post)) = unlines (pre @ (x # tl l) # post)"
  using assms by (cases l) (simp_all add: write_at_def)

lemma zline_nonempty [simp]: "zline l \<Longrightarrow> l \<noteq> []"
  by (auto simp: zline_def)

lemma hd_line [simp]: "zline l \<Longrightarrow> hd (l @ [NL]) = hd l"
  by (auto simp: zline_def)

lemma strlen_line: "zline l \<Longrightarrow> strlen (l @ [NL]) = 80"
  unfolding strlen_def by (subst takeWhile_append2) (auto simp: zline_def)

lemma zline_pad_trunc: "clean entry \<Longrightarrow> zline (pad_trunc 79 entry)"
  using set_pad_trunc [of 79 entry] by (auto simp: zline_def clean_def)

text \<open>A newline after a line does not change the number \<open>atoi\<close> reads.\<close>

lemma takeWhile_digit_NL: "takeWhile is_digit (u @ [NL]) = takeWhile is_digit u"
proof (cases "\<forall>c \<in> set u. is_digit c")
  case True
  then have "takeWhile is_digit (u @ [NL]) = u"
    using takeWhile_digits_append [of u "[NL]"] by (simp add: nondigit_head_def is_digit_def [of NL])
  moreover have "takeWhile is_digit u = u" using True by simp
  ultimately show ?thesis by (simp only:)
next
  case False
  then show ?thesis by (auto simp: takeWhile_append1)
qed

lemma read_sign_snoc:
  "snd (read_sign (t @ [NL])) = snd (read_sign t) @ [NL] \<and> fst (read_sign (t @ [NL])) = fst (read_sign t)"
  by (cases t) (auto simp: read_sign_def)

lemma fst_strtol10:
  "fst (strtol10 s) =
     (let u = read_sign (dropWhile is_space s); ds = takeWhile is_digit (snd u);
          v = (if fst u then - int (dec_val ds) else int (dec_val ds))
      in if ds = [] then 0 else if v > LONG_MAX then LONG_MAX else if v < LONG_MIN then LONG_MIN else v)"
  by (cases "read_sign (dropWhile is_space s)") (auto simp: strtol10_def Let_def)

lemma atoi_NL: "atoi (l @ [NL]) = atoi l"
proof (cases "\<forall>c \<in> set l. is_space c")
  case True
  then have d: "dropWhile is_space (l @ [NL]) = []" "dropWhile is_space l = []"
    by (auto simp: is_space_def)
  show ?thesis unfolding atoi_def fst_strtol10 d by simp
next
  case False
  then have "dropWhile is_space (l @ [NL]) = dropWhile is_space l @ [NL]"
    by (auto simp: dropWhile_append1)
  then show ?thesis
    using read_sign_snoc [of "dropWhile is_space l"]
    by (simp add: atoi_def fst_strtol10 takeWhile_digit_NL Let_def)
qed

subsection \<open>Refinement: the file operations act on the lines\<close>

definition zoo_ok :: "zoo_env \<Rightarrow> bool" where
  "zoo_ok env \<longleftrightarrow> fcntl_setlkw (lock_rets env) = Some 0 \<and> fcntl_setlkw (unlock_rets env) = Some 0
     \<and> seek_err env = 0 \<and> seek_end_err env = 0"

definition good_env :: zoo_env where
  "good_env = \<lparr>lock_rets = [0], unlock_rets = [0], seek_err = 0, seek_end_err = 0\<rparr>"

lemma zoo_ok_good_env [simp]: "zoo_ok good_env"
  by (simp add: zoo_ok_def good_env_def EINTR_def)

text \<open>The handle after a complete operation: unlocked, the five signals unblocked.\<close>

definition settled :: "zoo \<Rightarrow> zoo" where
  "settled z = z\<lparr>zlocked := False, zmask := zmask z - block_these\<rparr>"

definition zoo_wf :: "zoo \<Rightarrow> string list \<Rightarrow> bool" where
  "zoo_wf z ls \<longleftrightarrow> zopen z \<and> zfile z = unlines ls \<and> (\<forall>l \<in> set ls. zline l)"

lemma zoo_lock_ok:
  assumes "zopen z" and "fcntl_setlkw rets = Some 0"
  shows "zoo_lock rets z = Some (0, z\<lparr>zmask := zmask z - block_these, zlocked := True\<rparr>)"
proof -
  have "(zmask z \<union> block_these) - block_these = zmask z - block_these" by blast
  with assms show ?thesis by (simp add: zoo_lock_def)
qed

lemma zoo_unlock_ok:
  assumes "zopen z" and "fcntl_setlkw rets = Some 0"
  shows "zoo_unlock rets z = Some (0, z\<lparr>zmask := zmask z - block_these, zlocked := False\<rparr>)"
proof -
  have "(zmask z \<union> block_these) - block_these = zmask z - block_these" by blast
  with assms show ?thesis by (simp add: zoo_unlock_def)
qed

lemma zoo_mark_refines:
  assumes "zoo_ok env" and wf: "zoo_wf z ls"
  shows "zoo_mark env z entry = Some (0, settled (z\<lparr>zfile := unlines (mark_lines entry ls)\<rparr>))"
proof -
  have ok: "zopen z" "fcntl_setlkw (lock_rets env) = Some 0" "fcntl_setlkw (unlock_rets env) = Some 0"
    "seek_err env = 0" "seek_end_err env = 0" and f: "zfile z = unlines ls" and zl: "\<forall>l \<in> set ls. zline l"
    using assms by (simp_all add: zoo_ok_def zoo_wf_def)
  show ?thesis
  proof (cases "\<exists>l \<in> set ls. free_line l")
    case True
    obtain pre l post where ls: "ls = pre @ l # post" and l: "free_line l" and pre: "\<forall>m \<in> set pre. \<not> free_line m"
      by (rule split_firstE [OF True])
    have "scan (\<lambda>buf. hd buf = HASH) 0 (zfile z) = Some (length (unlines pre), l @ [NL])"
      using scan_found [of pre "\<lambda>buf. hd buf = HASH" l 0 post] zl l pre
      by (auto simp: f ls free_line_def)
    moreover have "mark_lines entry ls = pre @ pad_trunc 79 entry # post"
      using l pre by (simp add: mark_lines_def ls update_first_split)
    moreover have "strlen (l @ [NL]) = 80" "length l = 79"
      using zl ls by (simp_all add: strlen_line) (simp add: zline_def)
    ultimately show ?thesis
      using write_at_line [of "pad_trunc 79 entry" l pre post]
      by (simp add: zoo_mark_def ok zoo_lock_ok zoo_unlock_ok f ls settled_def)
  next
    case False
    then have "scan (\<lambda>buf. hd buf = HASH) 0 (zfile z) = None"
      using scan_none [of ls "\<lambda>buf. hd buf = HASH" 0] zl by (auto simp: f free_line_def)
    with False show ?thesis
      by (simp add: zoo_mark_def ok zoo_lock_ok zoo_unlock_ok f mark_lines_def settled_def)
  qed
qed

lemma zoo_clear_refines:
  assumes "zoo_ok env" and wf: "zoo_wf z ls"
  shows "zoo_clear env z p =
    (if \<exists>l \<in> set ls. pid_line p l then Some (0, settled (z\<lparr>zfile := unlines (clear_lines p ls)\<rparr>))
     else Some (1, settled (z\<lparr>zmsg := Pid_not_found p\<rparr>)))"
proof -
  let ?P = "\<lambda>buf. hd buf \<noteq> HASH \<and> atoi buf = p"
  have ok: "zopen z" "fcntl_setlkw (lock_rets env) = Some 0" "fcntl_setlkw (unlock_rets env) = Some 0"
    "seek_err env = 0" and f: "zfile z = unlines ls" and zl: "\<forall>l \<in> set ls. zline l"
    using assms by (simp_all add: zoo_ok_def zoo_wf_def)
  have P: "?P (l @ [NL]) = pid_line p l" if "zline l" for l
    using that by (simp add: pid_line_def free_line_def atoi_NL)
  show ?thesis
  proof (cases "\<exists>l \<in> set ls. pid_line p l")
    case True
    obtain pre l post where ls: "ls = pre @ l # post" and l: "pid_line p l" and pre: "\<forall>m \<in> set pre. \<not> pid_line p m"
      by (rule split_firstE [OF True])
    have "scan ?P 0 (zfile z) = Some (0 + length (unlines pre), l @ [NL])"
      unfolding f ls by (rule scan_found) (use zl l pre P in \<open>auto simp: ls\<close>)
    moreover have "clear_lines p ls = pre @ (HASH # tl l) # post"
      using l pre by (simp add: clear_lines_def ls update_first_split)
    moreover have "l \<noteq> []" using zl ls by auto
    ultimately show ?thesis
      using True write_at_head [of l pre HASH post]
      by (simp add: zoo_clear_def ok zoo_lock_ok zoo_unlock_ok f ls settled_def)
  next
    case False
    then have "scan ?P 0 (zfile z) = None"
      unfolding f by (intro scan_none) (use zl P in auto)
    with False show ?thesis
      by (simp add: zoo_clear_def ok zoo_lock_ok zoo_unlock_ok settled_def)
  qed
qed

subsection \<open>Refinement: the lines are a multiset of active pids\<close>

definition int_range :: "int \<Rightarrow> bool" where
  "int_range p \<longleftrightarrow> INT_MIN \<le> p \<and> p \<le> INT_MAX"

lemma clean_show_int: "clean (show_int p)"
  using show_int_chars [of NL p] show_int_chars [of NUL p] by (auto simp: clean_def is_digit_def)

lemma hd_show_int: "show_int p \<noteq> [] \<and> hd (show_int p) \<noteq> HASH"
  using show_nat_Cons [of "nat p"] by (auto simp: show_int_def)

text \<open>The line \<open>zoo_mark_cmdline\<close> writes: in use, and \<open>atoi\<close> reads the pid back from it.\<close>

definition zoo_entry :: "pid \<Rightarrow> string \<Rightarrow> string \<Rightarrow> string" where
  "zoo_entry p tag cmdline = snprintf 80 (show_int p @ '','' @ tag @ '','' @ cmdline)"

lemma zoo_entry_split:
  assumes "int_range p"
  shows "\<exists>r. zoo_entry p tag cmdline = show_int p @ COMMA # r \<and> set r \<subseteq> insert COMMA (set tag \<union> set cmdline)"
proof -
  have "length (show_int p) \<le> 11" using assms length_show_int by (simp add: int_range_def)
  then obtain k where "79 - length (show_int p) = Suc k" by (cases "79 - length (show_int p)") auto
  then have "zoo_entry p tag cmdline = show_int p @ COMMA # take k (tag @ '','' @ cmdline)"
    using \<open>length (show_int p) \<le> 11\<close> by (simp add: zoo_entry_def snprintf_def)
  then show ?thesis using set_take_subset [of k "tag @ '','' @ cmdline"] by auto
qed

lemma clean_zoo_entry: "int_range p \<Longrightarrow> clean tag \<Longrightarrow> clean cmdline \<Longrightarrow> clean (zoo_entry p tag cmdline)"
  using zoo_entry_split [of p tag cmdline] clean_show_int [of p] by (auto simp: clean_def)

lemma pid_line_zoo_entry:
  assumes "int_range p"
  shows "pid_line p (pad_trunc 79 (zoo_entry p tag cmdline))"
proof -
  obtain r where r: "zoo_entry p tag cmdline = show_int p @ COMMA # r"
    using zoo_entry_split [OF assms] by blast
  have "length (show_int p) \<le> 11" using assms length_show_int by (simp add: int_range_def)
  then have "\<exists>q. pad_trunc 79 (zoo_entry p tag cmdline) = show_int p @ COMMA # q"
    by (simp add: pad_trunc_def r) (simp add: take_Cons')
  then obtain q where q: "pad_trunc 79 (zoo_entry p tag cmdline) = show_int p @ COMMA # q" by blast
  have "atoi (show_int p @ COMMA # q) = p"
    using assms by (intro atoi_show_int) (auto simp: int_range_def nondigit_head_def is_digit_def)
  then show ?thesis using hd_show_int [of p] by (simp add: q pid_line_def free_line_def)
qed

lemma active_pids_simps:
  "active_pids [] = {#}"
  "active_pids (l # ls) = (if free_line l then active_pids ls else add_mset (atoi l) (active_pids ls))"
  "active_pids (ls @ ms) = active_pids ls + active_pids ms"
  by (simp_all add: active_pids_def)

lemma active_pids_mark:
  assumes "int_range p"
  shows "active_pids (mark_lines (zoo_entry p tag cmdline) ls) = add_mset p (active_pids ls)"
proof -
  let ?l = "pad_trunc 79 (zoo_entry p tag cmdline)"
  have new: "\<not> free_line ?l" "atoi ?l = p" using pid_line_zoo_entry [OF assms] by (auto simp: pid_line_def)
  show ?thesis
  proof (cases "\<exists>l \<in> set ls. free_line l")
    case True
    obtain pre l post where "ls = pre @ l # post" "free_line l" "\<forall>m \<in> set pre. \<not> free_line m"
      by (rule split_firstE [OF True])
    with new True show ?thesis
      by (simp add: mark_lines_def update_first_split active_pids_simps)
  next
    case False
    with new show ?thesis by (simp add: mark_lines_def active_pids_simps)
  qed
qed

lemma active_pids_clear:
  assumes "\<exists>l \<in> set ls. pid_line p l"
  shows "active_pids (clear_lines p ls) = active_pids ls - {#p#}"
proof -
  obtain pre l post where "ls = pre @ l # post" "pid_line p l" "\<forall>m \<in> set pre. \<not> pid_line p m"
    by (rule split_firstE [OF assms])
  then show ?thesis
    by (simp add: clear_lines_def update_first_split active_pids_simps pid_line_def free_line_def)
qed

lemma pid_line_ex: "(\<exists>l \<in> set ls. pid_line p l) \<longleftrightarrow> p \<in># active_pids ls"
  by (auto simp: active_pids_def pid_line_def)

lemma zline_mark: "\<forall>l \<in> set ls. zline l \<Longrightarrow> clean entry \<Longrightarrow> \<forall>l \<in> set (mark_lines entry ls). zline l"
proof (cases "\<exists>l \<in> set ls. free_line l")
  case True
  obtain pre l post where "ls = pre @ l # post" "free_line l" "\<forall>m \<in> set pre. \<not> free_line m"
    by (rule split_firstE [OF True])
  moreover assume "\<forall>l \<in> set ls. zline l" "clean entry"
  ultimately show ?thesis using True by (auto simp: mark_lines_def update_first_split zline_pad_trunc)
next
  case False
  moreover assume "\<forall>l \<in> set ls. zline l" "clean entry"
  ultimately show ?thesis by (auto simp: mark_lines_def zline_pad_trunc)
qed

lemma zline_clear: "\<forall>l \<in> set ls. zline l \<Longrightarrow> \<forall>l \<in> set (clear_lines p ls). zline l"
proof -
  assume zl: "\<forall>l \<in> set ls. zline l"
  have "zline (HASH # tl l)" if "zline l" for l
    using that by (cases l) (auto simp: zline_def)
  with zl show ?thesis
    by (induction ls) (auto simp: clear_lines_def)
qed

subsection \<open>The contract of the test driver\<close>

text \<open>
  What a store of active tags promises: \<open>mark\<close> adds a pid, \<open>clear\<close> removes one occurrence and
  reports a missing one with the warning value 1, and every operation keeps the invariant.
\<close>

locale zoo_store =
  fixes mark :: "'e \<Rightarrow> 'z \<Rightarrow> pid \<Rightarrow> string \<Rightarrow> string \<Rightarrow> (int \<times> 'z) option"
    and clear :: "'e \<Rightarrow> 'z \<Rightarrow> pid \<Rightarrow> (int \<times> 'z) option"
    and pids :: "'z \<Rightarrow> pid multiset"
    and inv :: "'z \<Rightarrow> bool"
    and env_ok :: "'e \<Rightarrow> bool"
  assumes mark_law: "inv z \<Longrightarrow> env_ok e \<Longrightarrow> int_range p \<Longrightarrow> clean tag \<Longrightarrow> clean cmd \<Longrightarrow>
      \<exists>z'. mark e z p tag cmd = Some (0, z') \<and> inv z' \<and> pids z' = add_mset p (pids z)"
    and clear_law: "inv z \<Longrightarrow> env_ok e \<Longrightarrow> p \<in># pids z \<Longrightarrow>
      \<exists>z'. clear e z p = Some (0, z') \<and> inv z' \<and> pids z' = pids z - {#p#}"
    and clear_missing_law: "inv z \<Longrightarrow> env_ok e \<Longrightarrow> p \<notin># pids z \<Longrightarrow>
      \<exists>z'. clear e z p = Some (1, z') \<and> inv z' \<and> pids z' = pids z"
begin

text \<open>Marking and clearing the same pid leaves the active pids as they were.\<close>

lemma mark_clear:
  assumes "inv z" "env_ok e" "env_ok e'" "int_range p" "clean tag" "clean cmd"
  shows "\<exists>z1 z2. mark e z p tag cmd = Some (0, z1) \<and> clear e' z1 p = Some (0, z2)
           \<and> inv z2 \<and> pids z2 = pids z"
proof -
  obtain z1 where "mark e z p tag cmd = Some (0, z1)" "inv z1" "pids z1 = add_mset p (pids z)"
    using mark_law assms by blast
  moreover then obtain z2 where "clear e' z1 p = Some (0, z2)" "inv z2" "pids z2 = pids z"
    using clear_law [of z1 e' p] assms(3) by auto
  ultimately show ?thesis by blast
qed

text \<open>Marking a list of pids one after the other, as the driver does to reserve lines.\<close>

fun mark_all :: "'e \<Rightarrow> 'z \<Rightarrow> pid list \<Rightarrow> string \<Rightarrow> string \<Rightarrow> 'z option" where
  "mark_all e z [] tag cmd = Some z"
| "mark_all e z (p # ps) tag cmd =
     (case mark e z p tag cmd of Some (r, z') \<Rightarrow> if r \<noteq> 0 then None else mark_all e z' ps tag cmd | None \<Rightarrow> None)"

fun clear_all :: "'e \<Rightarrow> 'z \<Rightarrow> pid list \<Rightarrow> 'z option" where
  "clear_all e z [] = Some z"
| "clear_all e z (p # ps) =
     (case clear e z p of Some (r, z') \<Rightarrow> if r \<noteq> 0 then None else clear_all e z' ps | None \<Rightarrow> None)"

lemma mark_all_law:
  assumes "inv z" "env_ok e" "\<forall>p \<in> set ps. int_range p" "clean tag" "clean cmd"
  shows "\<exists>z'. mark_all e z ps tag cmd = Some z' \<and> inv z' \<and> pids z' = pids z + mset ps"
  using assms
proof (induction ps arbitrary: z)
  case (Cons p ps)
  obtain z1 where z1: "mark e z p tag cmd = Some (0, z1)" "inv z1" "pids z1 = add_mset p (pids z)"
    using mark_law Cons.prems by fastforce
  then obtain z' where "mark_all e z1 ps tag cmd = Some z'" "inv z'" "pids z' = pids z1 + mset ps"
    using Cons.IH [OF z1(2)] Cons.prems by auto
  with z1 show ?case by simp
qed simp

lemma clear_all_law:
  assumes "inv z" "env_ok e" "mset ps \<subseteq># pids z"
  shows "\<exists>z'. clear_all e z ps = Some z' \<and> inv z' \<and> pids z' = pids z - mset ps"
  using assms
proof (induction ps arbitrary: z)
  case (Cons p ps)
  have "p \<in># pids z" using Cons.prems(3) by (auto dest: mset_subset_eqD)
  then obtain z1 where z1: "clear e z p = Some (0, z1)" "inv z1" "pids z1 = pids z - {#p#}"
    using clear_law Cons.prems by blast
  have "mset ps \<subseteq># pids z1"
    using Cons.prems(3) z1(3) by (simp add: insert_subset_eq_iff)
  then obtain z' where "clear_all e z1 ps = Some z'" "inv z'" "pids z' = pids z1 - mset ps"
    using Cons.IH z1(2) Cons.prems(2) by blast
  with z1 show ?case by simp
qed simp

text \<open>Reserving lines and giving them back leaves the active pids unchanged.\<close>

lemma reserve_law:
  assumes "inv z" "env_ok e" "\<forall>p \<in> set ps. int_range p" "clean tag" "clean cmd"
  shows "\<exists>z1 z2. mark_all e z ps tag cmd = Some z1 \<and> clear_all e z1 ps = Some z2
           \<and> inv z2 \<and> pids z2 = pids z"
proof -
  obtain z1 where z1: "mark_all e z ps tag cmd = Some z1" "inv z1" "pids z1 = pids z + mset ps"
    using mark_all_law [OF assms] by blast
  then obtain z2 where "clear_all e z1 ps = Some z2" "inv z2" "pids z2 = pids z1 - mset ps"
    using clear_all_law [of z1 e ps] assms(2) by auto
  with z1 show ?thesis by auto
qed

end

text \<open>The zoo file is such a store.\<close>

function zoo_lines :: "string \<Rightarrow> string list" where
  "zoo_lines s = (if s = [] then [] else take 79 s # zoo_lines (drop 80 s))"
  by pat_completeness auto
termination by (relation "measure length") auto

declare zoo_lines.simps [simp del]

lemma zoo_lines_unlines: "\<forall>l \<in> set ls. zline l \<Longrightarrow> zoo_lines (unlines ls) = ls"
  by (induction ls) (auto simp: zoo_lines.simps [of "_ @ NL # _"] zoo_lines.simps [of "[]"] zline_def)

definition zoo_inv :: "zoo \<Rightarrow> bool" where
  "zoo_inv z \<longleftrightarrow> zoo_wf z (zoo_lines (zfile z))"

definition zoo_pids :: "zoo \<Rightarrow> pid multiset" where
  "zoo_pids z = active_pids (zoo_lines (zfile z))"

lemma zoo_wf_inv:
  assumes "zoo_wf z ls"
  shows "zoo_inv z \<and> zoo_pids z = active_pids ls"
  using assms by (simp add: zoo_inv_def zoo_pids_def zoo_wf_def zoo_lines_unlines)

lemma zoo_wf_settled: "zopen z \<Longrightarrow> \<forall>l \<in> set ls. zline l \<Longrightarrow> zoo_wf (settled (z\<lparr>zfile := unlines ls\<rparr>)) ls"
  by (simp add: zoo_wf_def settled_def)

lemma zoo_mark_cmdline_law:
  assumes "zoo_inv z" "zoo_ok e" "int_range p" "clean tag" "clean cmd"
  shows "\<exists>z'. zoo_mark_cmdline e z p tag cmd = Some (0, z') \<and> zoo_inv z' \<and> zoo_pids z' = add_mset p (zoo_pids z)"
proof -
  let ?ls = "zoo_lines (zfile z)" and ?e = "zoo_entry p tag cmd"
  have wf: "zoo_wf z ?ls" using assms(1) by (simp add: zoo_inv_def)
  let ?z = "settled (z\<lparr>zfile := unlines (mark_lines ?e ?ls)\<rparr>)"
  have "zoo_mark_cmdline e z p tag cmd = Some (0, ?z)"
    using zoo_mark_refines [OF assms(2) wf, of ?e] by (simp add: zoo_mark_cmdline_def zoo_entry_def)
  moreover have "zoo_wf ?z (mark_lines ?e ?ls)"
    using wf zline_mark [OF _ clean_zoo_entry [OF assms(3-5)]] by (intro zoo_wf_settled) (auto simp: zoo_wf_def)
  ultimately show ?thesis
    using zoo_wf_inv active_pids_mark [OF assms(3)] by (metis zoo_pids_def)
qed

lemma zoo_clear_law:
  assumes "zoo_inv z" "zoo_ok e"
  shows "\<exists>r z'. zoo_clear e z p = Some (r, z') \<and> zoo_inv z' \<and>
    (if p \<in># zoo_pids z then r = 0 \<and> zoo_pids z' = zoo_pids z - {#p#}
     else r = 1 \<and> zoo_pids z' = zoo_pids z)"
proof -
  let ?ls = "zoo_lines (zfile z)"
  have wf: "zoo_wf z ?ls" using assms(1) by (simp add: zoo_inv_def)
  note c = zoo_clear_refines [OF assms(2) wf, of p]
  show ?thesis
  proof (cases "p \<in># zoo_pids z")
    case True
    then have ex: "\<exists>l \<in> set ?ls. pid_line p l" by (simp add: pid_line_ex zoo_pids_def)
    have "zoo_wf (settled (z\<lparr>zfile := unlines (clear_lines p ?ls)\<rparr>)) (clear_lines p ?ls)"
      using wf zline_clear by (intro zoo_wf_settled) (auto simp: zoo_wf_def)
    then show ?thesis
      using True c ex zoo_wf_inv active_pids_clear [OF ex] by (auto simp: zoo_pids_def)
  next
    case False
    then have "\<not> (\<exists>l \<in> set ?ls. pid_line p l)" by (simp add: pid_line_ex zoo_pids_def)
    moreover have "zoo_wf (settled (z\<lparr>zmsg := Pid_not_found p\<rparr>)) ?ls"
      using wf by (simp add: zoo_wf_def settled_def)
    ultimately show ?thesis
      using False c zoo_wf_inv by (auto simp: zoo_pids_def)
  qed
qed

interpretation zs: zoo_store zoo_mark_cmdline zoo_clear zoo_pids zoo_inv zoo_ok
proof
  fix z :: zoo and e :: zoo_env and p tag cmd
  assume "zoo_inv z" "zoo_ok e"
  then show "int_range p \<Longrightarrow> clean tag \<Longrightarrow> clean cmd \<Longrightarrow>
      \<exists>z'. zoo_mark_cmdline e z p tag cmd = Some (0, z') \<and> zoo_inv z' \<and> zoo_pids z' = add_mset p (zoo_pids z)"
    and "p \<in># zoo_pids z \<Longrightarrow>
      \<exists>z'. zoo_clear e z p = Some (0, z') \<and> zoo_inv z' \<and> zoo_pids z' = zoo_pids z - {#p#}"
    and "p \<notin># zoo_pids z \<Longrightarrow>
      \<exists>z'. zoo_clear e z p = Some (1, z') \<and> zoo_inv z' \<and> zoo_pids z' = zoo_pids z"
    using zoo_mark_cmdline_law [of z e] zoo_clear_law [of z e p] by auto
qed

subsection \<open>Looking up a tag\<close>

lemma zoo_getpid_refines:
  assumes "zoo_ok env" and wf: "zoo_wf z ls"
  shows "zoo_getpid env z tag =
    Some (case find (\<lambda>l. tag_line tag (l @ [NL])) ls of Some l \<Rightarrow> atoi l | None \<Rightarrow> -1, settled z)"
proof -
  have ok: "zopen z" "fcntl_setlkw (lock_rets env) = Some 0" "fcntl_setlkw (unlock_rets env) = Some 0"
    and f: "zfile z = unlines ls" and zl: "\<forall>l \<in> set ls. zline l"
    using assms by (simp_all add: zoo_ok_def zoo_wf_def)
  let ?Q = "\<lambda>l. tag_line tag (l @ [NL])"
  have "(case scan (tag_line tag) 0 (unlines ls) of Some (_, buf) \<Rightarrow> atoi buf | None \<Rightarrow> -1) =
        (case find ?Q ls of Some l \<Rightarrow> atoi l | None \<Rightarrow> -1)"
  proof (cases "\<exists>l \<in> set ls. ?Q l")
    case True
    obtain pre l post where ls: "ls = pre @ l # post" and l: "?Q l" and pre: "\<forall>m \<in> set pre. \<not> ?Q m"
      by (rule split_firstE [OF True])
    have "scan (tag_line tag) 0 (unlines ls) = Some (0 + length (unlines pre), l @ [NL])"
      unfolding ls by (rule scan_found) (use zl l pre in \<open>auto simp: ls\<close>)
    moreover have "find ?Q (pre @ l # post) = Some l" using l pre by (induction pre) auto
    ultimately show ?thesis by (simp add: ls atoi_NL)
  next
    case False
    then have "scan (tag_line tag) 0 (unlines ls) = None" using zl by (intro scan_none) auto
    moreover have "find ?Q ls = None" using False by (simp add: find_None_iff)
    ultimately show ?thesis by simp
  qed
  then show ?thesis
    by (simp add: zoo_getpid_def ok zoo_lock_ok zoo_unlock_ok f settled_def Let_def)
qed

lemma zoo_getpid_active:
  assumes "zoo_inv z" "zoo_ok e" and "zoo_getpid e z tag = Some (r, z')"
  shows "r = -1 \<or> r \<in># zoo_pids z"
proof -
  let ?ls = "zoo_lines (zfile z)"
  have wf: "zoo_wf z ?ls" using assms(1) by (simp add: zoo_inv_def)
  show ?thesis
  proof (cases "find (\<lambda>l. tag_line tag (l @ [NL])) ?ls")
    case None
    with assms(3) zoo_getpid_refines [OF assms(2) wf] show ?thesis by simp
  next
    case (Some l)
    then have l: "l \<in> set ?ls" "tag_line tag (l @ [NL])" by (auto simp: find_Some_iff)
    with wf have "\<not> free_line l" by (auto simp: tag_line_def free_line_def zoo_wf_def)
    with l have "atoi l \<in># zoo_pids z" by (auto simp: zoo_pids_def active_pids_def)
    with Some assms(3) zoo_getpid_refines [OF assms(2) wf] show ?thesis by simp
  qed
qed

subsection \<open>Verified properties\<close>

text \<open>
  C37: the zoo file implements a multiset of active pids.  On a well-formed zoo, when the system calls
  succeed, \<open>zoo_mark_cmdline\<close> returns 0, keeps the file well-formed and adds exactly its pid, however
  long the tag and the command line are (the 80-byte entry is truncated, never the pid).
\<close>

theorem zoo_mark_adds_pid:
  assumes "zoo_inv z" "zoo_ok e" "int_range p" "clean tag" "clean cmd"
  shows "\<exists>z'. zoo_mark_cmdline e z p tag cmd = Some (0, z') \<and> zoo_inv z' \<and> \<not> zlocked z'
           \<and> zoo_pids z' = add_mset p (zoo_pids z)"
proof -
  obtain z' where z': "zoo_mark_cmdline e z p tag cmd = Some (0, z')" "zoo_inv z'"
      "zoo_pids z' = add_mset p (zoo_pids z)"
    using zs.mark_law [OF assms] by blast
  have "zoo_wf z (zoo_lines (zfile z))" using assms(1) by (simp add: zoo_inv_def)
  from zoo_mark_refines [OF assms(2) this] z'(1) have "\<not> zlocked z'"
    by (auto simp: zoo_mark_cmdline_def settled_def)
  with z' show ?thesis by blast
qed

definition empty_zoo :: zoo where
  "empty_zoo = \<lparr>zopen = True, zfile = [], zlocked = False, zmask = {}, zmsg = No_message\<rparr>"

lemma empty_zoo_inv [simp]: "zoo_inv empty_zoo" "zoo_pids empty_zoo = {#}"
  by (simp_all add: zoo_inv_def zoo_pids_def zoo_wf_def empty_zoo_def zoo_lines.simps active_pids_simps)

theorem zoo_mark_adds_pid_witness:
  "\<exists>z'. zoo_mark_cmdline good_env empty_zoo 4711 ''fs_fill'' ''fs_fill -a'' = Some (0, z') \<and> zoo_inv z'
     \<and> \<not> zlocked z' \<and> zoo_pids z' = add_mset 4711 (zoo_pids empty_zoo)"
  by (rule zoo_mark_adds_pid) (simp_all add: int_range_def int_limits clean_def)

text \<open>
  C38: \<open>zoo_clear\<close> releases exactly one line of the given pid: it returns 0 and removes one occurrence
  when the pid is active, and otherwise changes no active pid and returns the warning value 1.
\<close>

theorem zoo_clear_removes_pid:
  assumes "zoo_inv z" "zoo_ok e"
  shows "\<exists>r z'. zoo_clear e z p = Some (r, z') \<and> zoo_inv z'
           \<and> (r = 0 \<longleftrightarrow> p \<in># zoo_pids z) \<and> (r = 1 \<longleftrightarrow> p \<notin># zoo_pids z)
           \<and> zoo_pids z' = zoo_pids z - {#p#}"
  using zoo_clear_law [OF assms, of p] by (auto split: if_splits simp: diff_single_trivial)

theorem zoo_clear_removes_pid_witness:
  "\<exists>r z'. zoo_clear good_env empty_zoo 3 = Some (r, z') \<and> zoo_inv z'
     \<and> (r = 0 \<longleftrightarrow> 3 \<in># zoo_pids empty_zoo) \<and> (r = 1 \<longleftrightarrow> 3 \<notin># zoo_pids empty_zoo)
     \<and> zoo_pids z' = zoo_pids empty_zoo - {#3#}"
  by (rule zoo_clear_removes_pid) simp_all

text \<open>
  Marking a pid and clearing it again, with any system-call results that succeed in both calls,
  leaves the active pids as they were: the line is recycled, not lost.
\<close>

theorem zoo_mark_clear_roundtrip:
  assumes "zoo_inv z" "zoo_ok e" "zoo_ok e'" "int_range p" "clean tag" "clean cmd"
  shows "\<exists>z1 z2. zoo_mark_cmdline e z p tag cmd = Some (0, z1) \<and> zoo_clear e' z1 p = Some (0, z2)
           \<and> zoo_inv z2 \<and> zoo_pids z2 = zoo_pids z"
  by (rule zs.mark_clear [OF assms])

theorem zoo_mark_clear_roundtrip_witness:
  "\<exists>z1 z2. zoo_mark_cmdline good_env empty_zoo 12 ''a'' ''b'' = Some (0, z1) \<and> zoo_clear good_env z1 12 = Some (0, z2)
     \<and> zoo_inv z2 \<and> zoo_pids z2 = zoo_pids empty_zoo"
  by (rule zoo_mark_clear_roundtrip) (simp_all add: int_range_def int_limits clean_def)

text \<open>
  \<open>zoo_getpid\<close> answers -1 or the pid of a line in use; a released line is never reported.
\<close>

theorem zoo_getpid_reports_active:
  assumes "zoo_inv z" "zoo_ok e" "zoo_getpid e z tag = Some (r, z')"
  shows "r = -1 \<or> r \<in># zoo_pids z"
  by (rule zoo_getpid_active [OF assms])

theorem zoo_getpid_reports_active_witness:
  "zoo_getpid good_env empty_zoo ''x'' = Some (-1, settled empty_zoo) \<and>
     ((-1 :: int) = -1 \<or> (-1) \<in># zoo_pids empty_zoo)"
proof -
  have g: "zoo_getpid good_env empty_zoo ''x'' = Some (-1, settled empty_zoo)"
    using zoo_getpid_refines [of good_env empty_zoo "[]" "''x''"]
    by (simp add: zoo_wf_def empty_zoo_def)
  then show ?thesis using zoo_getpid_reports_active [OF _ _ g] by simp
qed

text \<open>
  A lookup matches on the length of the requested tag only, so it also finds a longer tag; and a
  failing \<open>fseek\<close> returns with the file still locked.
\<close>

lemma tag_line_prefix:
  assumes "clean tag" "clean sfx" "COMMA \<notin> set pre" "clean pre" "pre \<noteq> []" "hd pre \<noteq> HASH"
  shows "tag_line tag (pre @ COMMA # tag @ sfx @ [NL])"
proof -
  have tw: "takeWhile (\<lambda>c. c \<noteq> NUL) (pre @ COMMA # tag @ sfx @ [NL]) = pre @ COMMA # tag @ sfx @ [NL]"
    using assms by (simp add: clean_def takeWhile_eq_all_conv) auto
  have "strchr (pre @ COMMA # r) COMMA = Some (COMMA # r)" for r
    using assms(3) by (induction pre) auto
  with tw assms(5,6) show ?thesis by (simp add: tag_line_def strncmp_eq_def)
qed

lemma zoo_mark_seek_error_keeps_lock:
  assumes "zopen z" "fcntl_setlkw (lock_rets env) = Some 0" "seek_err env \<noteq> 0"
    and "scan (\<lambda>buf. hd buf = HASH) 0 (zfile z) = Some (pos, buf)"
  shows "\<exists>z'. zoo_mark env z entry = Some (-1, z') \<and> zlocked z'"
  using assms by (simp add: zoo_mark_def zoo_lock_ok)

end
