(* ===== verification/Splitstr.thy ===== *)
theory Splitstr
  imports Ltp_Prelude
begin

section \<open>pan/splitstr.c: splitting a string at separator characters\<close>

text \<open>
  \<open>splitstr ()\<close> copies its argument, walks the copy with \<open>strtok ()\<close> and collects the
  token pointers in an array that grows by 20 slots.  The model keeps the array slot by slot:
  a slot is not yet written (\<open>Uninit\<close>), \<open>NULL\<close>, or a pointer into the copy, kept as
  its offset together with the token's text.  The offset matters to \<open>splitstr_free ()\<close>, which
  hands the first token's pointer to \<open>free ()\<close>.
\<close>

datatype slot = Uninit | Null | Tok nat string

text \<open>Which of the memory requests of the function succeed.\<close>

record alloc =
  strdup_ok :: bool
  malloc_ok :: bool
  realloc_ok :: "nat \<Rightarrow> bool"

definition good_alloc :: alloc where
  "good_alloc = \<lparr>strdup_ok = True, malloc_ok = True, realloc_ok = (\<lambda>_. True)\<rparr>"

definition allocs :: "alloc \<Rightarrow> bool" where
  "allocs al \<longleftrightarrow> strdup_ok al \<and> malloc_ok al \<and> (\<forall>n. realloc_ok al n)"

lemma allocs_good_alloc [simp]: "allocs good_alloc"
  by (simp add: allocs_def good_alloc_def)

subsection \<open>strtok\<close>

text \<open>The successive results of \<open>strtok (s, sep)\<close>, \<open>strtok (NULL, sep)\<close>, \<dots>: each with
  its offset in the string; \<open>o0\<close> is the offset of the part that is still to be read.\<close>

function strtok_from :: "(char \<Rightarrow> bool) \<Rightarrow> nat \<Rightarrow> string \<Rightarrow> (nat \<times> string) list" where
  "strtok_from sep o0 s =
     (let skipped = length (takeWhile sep s); t = dropWhile sep s
      in if t = [] then []
         else let tok = takeWhile (\<lambda>c. \<not> sep c) t
              in (o0 + skipped, tok) #
                 strtok_from sep (o0 + skipped + length tok) (dropWhile (\<lambda>c. \<not> sep c) t))"
  by pat_completeness auto
termination
proof (relation "measure (\<lambda>(sep, o0, s). length s)", goal_cases)
  case 1
  show ?case by simp
next
  case (2 sep o0 s skipped t tok)
  then have ne: "t \<noteq> []" "\<not> sep (hd t)" "length t \<le> length s"
    by (auto simp: hd_dropWhile length_dropWhile_le)
  then have "length (dropWhile (\<lambda>c. \<not> sep c) t) < length t"
    by (cases t) (auto simp: length_dropWhile_le less_Suc_eq_le)
  with ne show ?case by simp
qed

declare strtok_from.simps [simp del]

definition strtok_all :: "(char \<Rightarrow> bool) \<Rightarrow> string \<Rightarrow> string list" where
  "strtok_all sep s = map snd (strtok_from sep 0 s)"

subsection \<open>The array of tokens\<close>

definition default_separator :: string where
  "default_separator = [SPACE, TAB]"

text \<open>The \<open>while\<close> loop: the argument list is what the remaining \<open>strtok ()\<close> calls return.\<close>

fun fill_array ::
  "alloc \<Rightarrow> nat \<Rightarrow> nat \<Rightarrow> slot list \<Rightarrow> (nat \<times> string) list \<Rightarrow> (nat \<times> nat \<times> slot list) outcome" where
  "fill_array al num_toks max_toks arr [] = Ret (num_toks, max_toks, arr)"
| "fill_array al num_toks max_toks arr ((off, t) # toks) =
     (if length arr \<le> num_toks then Undefined ''write past arg_array''
      else let arr1 = arr[num_toks := Tok off t]; num1 = num_toks + 1
           in if num1 = max_toks
              then if realloc_ok al (max_toks + 20)
                   then fill_array al num1 (max_toks + 20) (arr1 @ replicate 20 Uninit) toks
                   else Exits 1
              else fill_array al num1 max_toks arr1 toks)"

text \<open>\<open>splitstr (str, separator, &argcount)\<close>: the array (or \<open>NULL\<close>) and the argument count.\<close>

definition splitstr :: "alloc \<Rightarrow> string option \<Rightarrow> string option \<Rightarrow> (slot list option \<times> nat) outcome" where
  "splitstr al str separator =
     (case str of None \<Rightarrow> Ret (None, 0)
      | Some s \<Rightarrow>
        if \<not> strdup_ok al then Ret (None, 0)
        else if \<not> malloc_ok al then Ret (None, 0)
        else
          let seps = (case separator of None \<Rightarrow> default_separator | Some x \<Rightarrow> x);
              toks = strtok_from (\<lambda>c. c \<in> set seps) 0 s
          in bind_outcome (fill_array al 0 20 (replicate 20 Uninit) toks)
               (\<lambda>(num_toks, max_toks, arr).
                  if length arr \<le> num_toks then Undefined ''write past arg_array''
                  else Ret (Some (take num_toks arr @ [Null] @ replicate (max_toks - (num_toks + 1)) Null),
                            num_toks)))"

text \<open>
  \<open>splitstr_free (p)\<close>: the first slot is dereferenced before \<open>p\<close> is tested, and its pointer is
  passed to \<open>free ()\<close>, which is defined only for the start of the copied string (offset 0).
  The result says whether the copy was released.
\<close>

definition splitstr_free :: "slot list option \<Rightarrow> bool outcome" where
  "splitstr_free p_return =
     (case p_return of
        None \<Rightarrow> Undefined ''NULL dereference''
      | Some arr \<Rightarrow>
        (case arr of
           [] \<Rightarrow> Undefined ''read past arg_array''
         | Null # _ \<Rightarrow> Ret False
         | Uninit # _ \<Rightarrow> Undefined ''uninitialised read''
         | Tok off t # _ \<Rightarrow> if off = 0 then Ret True else Undefined ''free of an inner pointer''))"

subsection \<open>Properties of the token stream\<close>

lemma strtok_from_Nil [simp]: "strtok_from sep o0 [] = []"
  by (simp add: strtok_from.simps)

lemma strtok_from_skip: "sep c \<Longrightarrow> strtok_from sep o0 (c # s) = strtok_from sep (Suc o0) s"
  by (subst (1 2) strtok_from.simps) (simp add: Let_def)

lemma strtok_from_token:
  assumes "t \<noteq> []" and "\<forall>c \<in> set t. \<not> sep c" and "r = [] \<or> sep (hd r)"
  shows "strtok_from sep o0 (t @ r) = (o0, t) # strtok_from sep (o0 + length t) r"
proof -
  have tw: "takeWhile sep (t @ r) = []" "dropWhile sep (t @ r) = t @ r"
    using assms by (cases t; auto)+
  have "takeWhile (\<lambda>c. \<not> sep c) r = []" "dropWhile (\<lambda>c. \<not> sep c) r = r"
    using assms(3) by (cases r; auto)+
  then have "takeWhile (\<lambda>c. \<not> sep c) (t @ r) = t" "dropWhile (\<lambda>c. \<not> sep c) (t @ r) = r"
    using assms(2) by simp_all
  with tw assms(1) show ?thesis by (subst strtok_from.simps) (simp add: Let_def)
qed

text \<open>Every string is blank, or separators, a token and a rest that starts with a separator:
  the induction the token stream follows.\<close>

lemma token_cases:
  obtains (blank) "\<forall>c \<in> set s. sep c"
  | (token) b t r where "s = b @ t @ r" "\<forall>c \<in> set b. sep c" "t \<noteq> []"
      "\<forall>c \<in> set t. \<not> sep c" "r = [] \<or> sep (hd r)"
proof (cases "\<forall>c \<in> set s. sep c")
  case True
  then show ?thesis by (rule blank)
next
  case False
  let ?t = "dropWhile sep s"
  from False have ne: "?t \<noteq> []" by auto
  then have "\<not> sep (hd ?t)" by (rule hd_dropWhile)
  with ne have "takeWhile (\<lambda>c. \<not> sep c) ?t \<noteq> []" by (cases ?t) auto
  moreover have "dropWhile (\<lambda>c. \<not> sep c) ?t = [] \<or> sep (hd (dropWhile (\<lambda>c. \<not> sep c) ?t))"
    using hd_dropWhile [of "\<lambda>c. \<not> sep c" ?t] by auto
  ultimately show ?thesis
    by (intro token [of "takeWhile sep s" "takeWhile (\<lambda>c. \<not> sep c) ?t" "dropWhile (\<lambda>c. \<not> sep c) ?t"])
      (auto dest: set_takeWhileD)
qed

lemma strtok_from_blanks: "\<forall>c \<in> set b. sep c \<Longrightarrow> strtok_from sep o0 (b @ s) = strtok_from sep (o0 + length b) s"
  by (induction b arbitrary: o0) (auto simp: strtok_from_skip)

lemma strtok_from_blank: "\<forall>c \<in> set s. sep c \<Longrightarrow> strtok_from sep o0 s = []"
  using strtok_from_blanks [of s sep o0 "[]"] by simp

lemma strtok_from_step:
  assumes "\<forall>c \<in> set b. sep c" "t \<noteq> []" "\<forall>c \<in> set t. \<not> sep c" "r = [] \<or> sep (hd r)"
  shows "strtok_from sep o0 (b @ t @ r) =
           (o0 + length b, t) # strtok_from sep (o0 + length b + length t) r"
  using assms by (simp add: strtok_from_blanks strtok_from_token)

lemma strtok_induct [case_names blank token]:
  assumes blank: "\<And>s. \<forall>c \<in> set s. sep c \<Longrightarrow> P s"
    and token: "\<And>b t r. \<forall>c \<in> set b. sep c \<Longrightarrow> t \<noteq> [] \<Longrightarrow> \<forall>c \<in> set t. \<not> sep c \<Longrightarrow>
      r = [] \<or> sep (hd r) \<Longrightarrow> P r \<Longrightarrow> P (b @ t @ r)"
  shows "P s"
proof (induction s rule: length_induct)
  case (1 s)
  show ?case
  proof (cases s sep rule: token_cases)
    case blank
    then show ?thesis by (rule assms(1))
  next
    case (token b t r)
    then have "length r < length s" by (cases t) auto
    with 1 have "P r" by blast
    with token assms(2) show ?thesis by simp
  qed
qed

lemma strtok_from_token_chars:
  "(off, t) \<in> set (strtok_from sep o0 s) \<Longrightarrow> t \<noteq> [] \<and> (\<forall>c \<in> set t. \<not> sep c)"
proof (induction s arbitrary: o0 rule: strtok_induct [of sep])
  case (blank s)
  then show ?case by (simp add: strtok_from_blank)
next
  case (token b u r)
  from token.prems consider "off = o0 + length b" "t = u"
    | "(off, t) \<in> set (strtok_from sep (o0 + length b + length u) r)"
    by (auto simp: strtok_from_step [OF token.hyps])
  then show ?case
  proof cases
    case 1
    with token.hyps show ?thesis by simp
  next
    case 2
    then show ?thesis by (rule token.IH)
  qed
qed

text \<open>A token stands in the string at its offset.\<close>

lemma strtok_from_offset:
  "(off, t) \<in> set (strtok_from sep o0 s) \<Longrightarrow> o0 \<le> off \<and> take (length t) (drop (off - o0) s) = t"
proof (induction s arbitrary: o0 rule: strtok_induct [of sep])
  case (blank s)
  then show ?case by (simp add: strtok_from_blank)
next
  case (token b u r)
  let ?o = "o0 + length b + length u"
  from token.prems consider "off = o0 + length b" "t = u" | "(off, t) \<in> set (strtok_from sep ?o r)"
    by (auto simp: strtok_from_step [OF token.hyps])
  then show ?case
  proof cases
    case 1
    then show ?thesis by simp
  next
    case 2
    then have le: "?o \<le> off" and tk: "take (length t) (drop (off - ?o) r) = t" using token.IH by blast+
    from le obtain k where k: "off = ?o + k" using le_Suc_ex by blast
    have "drop (off - o0) (b @ u @ r) = drop (off - ?o) r" unfolding k by simp
    with le tk show ?thesis by (auto simp only: intro: le_trans)
  qed
qed

lemma concat_strtok_from: "concat (map snd (strtok_from sep o0 s)) = filter (\<lambda>c. \<not> sep c) s"
proof (induction s arbitrary: o0 rule: strtok_induct [of sep])
  case (blank s)
  then show ?case by (simp add: strtok_from_blank)
next
  case (token b u r)
  have "filter (\<lambda>c. \<not> sep c) b = []" "filter (\<lambda>c. \<not> sep c) u = u"
    using token.hyps by (auto simp: filter_empty_conv filter_id_conv)
  then show ?case by (simp add: strtok_from_step [OF token.hyps] token.IH)
qed

lemma snd_strtok_from: "map snd (strtok_from sep o0 s) = strtok_all sep s"
proof -
  have "map snd (strtok_from sep o1 s) = map snd (strtok_from sep o2 s)" for o1 o2
  proof (induction s arbitrary: o1 o2 rule: strtok_induct [of sep])
    case (blank s)
    then show ?case by (simp add: strtok_from_blank)
  next
    case (token b u r)
    show ?case
      by (simp add: strtok_from_step [OF token.hyps]) (rule token.IH)
  qed
  then show ?thesis by (simp add: strtok_all_def)
qed

lemma strtok_all_token: "t \<in> set (strtok_all sep s) \<Longrightarrow> t \<noteq> [] \<and> (\<forall>c \<in> set t. \<not> sep c)"
  by (auto simp: strtok_all_def dest: strtok_from_token_chars)

lemma strtok_all_Nil [simp]: "strtok_all sep [] = []"
  by (simp add: strtok_all_def)

lemma strtok_all_token_append:
  assumes "t \<noteq> []" and "\<forall>c \<in> set t. \<not> sep c" and "r = [] \<or> sep (hd r)"
  shows "strtok_all sep (t @ r) = t # strtok_all sep r"
  using arg_cong [OF strtok_from_token [OF assms, of 0], of "map snd"] by (simp add: snd_strtok_from)

lemma strtok_all_skip: "sep c \<Longrightarrow> strtok_all sep (c # s) = strtok_all sep s"
  using arg_cong [OF strtok_from_skip [of sep c 0 s], of "map snd"] by (simp add: snd_strtok_from)

text \<open>Joining tokens with one separator and splitting again gives them back.\<close>

fun join_with :: "char \<Rightarrow> string list \<Rightarrow> string" where
  "join_with x [] = []"
| "join_with x [t] = t"
| "join_with x (t # ts) = t @ x # join_with x ts"

lemma strtok_all_join:
  assumes "sep x" and "\<forall>t \<in> set ts. t \<noteq> [] \<and> (\<forall>c \<in> set t. \<not> sep c)"
  shows "strtok_all sep (join_with x ts) = ts"
  using assms
proof (induction x ts rule: join_with.induct)
  case (2 x t)
  then show ?case using strtok_all_token_append [of t sep "[]"] by simp
next
  case (3 x t u us)
  then have "strtok_all sep (t @ x # join_with x (u # us)) = t # strtok_all sep (x # join_with x (u # us))"
    by (intro strtok_all_token_append) auto
  with 3 show ?case by (simp add: strtok_all_skip)
qed simp

subsection \<open>Properties of the array\<close>

definition toks_of :: "(nat \<times> string) list \<Rightarrow> slot list" where
  "toks_of ts = map (\<lambda>(off, t). Tok off t) ts"

text \<open>The loop invariant: the first \<open>num_toks\<close> slots hold the tokens read so far, the array has
  \<open>max_toks\<close> slots and there is always room for one more pointer.\<close>

lemma fill_array_ok:
  assumes "\<forall>n. realloc_ok al n" and "length arr = max_toks" and "num_toks < max_toks"
    and "take num_toks arr = toks_of done"
  shows "\<exists>max' arr'. fill_array al num_toks max_toks arr toks = Ret (num_toks + length toks, max', arr')
           \<and> length arr' = max' \<and> num_toks + length toks < max'
           \<and> take (num_toks + length toks) arr' = toks_of (done @ toks)"
  using assms(2-)
proof (induction toks arbitrary: num_toks max_toks arr "done")
  case Nil
  then show ?case by simp
next
  case (Cons p toks)
  obtain off t where p: "p = (off, t)" by force
  let ?arr1 = "arr[num_toks := Tok off t]"
  have tk: "take (num_toks + 1) ?arr1 = toks_of (done @ [p])"
    using Cons.prems p by (simp add: take_Suc_conv_app_nth toks_of_def)
  show ?case
  proof (cases "num_toks + 1 = max_toks")
    case True
    have "take (num_toks + 1) (?arr1 @ replicate 20 Uninit) = toks_of (done @ [p])"
      using Cons.prems by (subst take_append) (simp add: tk [simplified])
    then have "\<exists>max' arr'. fill_array al (num_toks + 1) (max_toks + 20) (?arr1 @ replicate 20 Uninit) toks
          = Ret (num_toks + 1 + length toks, max', arr')
        \<and> length arr' = max' \<and> num_toks + 1 + length toks < max'
        \<and> take (num_toks + 1 + length toks) arr' = toks_of ((done @ [p]) @ toks)"
      by (intro Cons.IH) (use Cons.prems in simp_all)
    then show ?thesis using True Cons.prems p assms(1) by simp
  next
    case False
    have "\<exists>max' arr'. fill_array al (num_toks + 1) max_toks ?arr1 toks
          = Ret (num_toks + 1 + length toks, max', arr')
        \<and> length arr' = max' \<and> num_toks + 1 + length toks < max'
        \<and> take (num_toks + 1 + length toks) arr' = toks_of ((done @ [p]) @ toks)"
      by (intro Cons.IH) (use False Cons.prems tk in simp_all)
    then show ?thesis using False Cons.prems p by simp
  qed
qed

abbreviation sep_fun :: "string option \<Rightarrow> char \<Rightarrow> bool" where
  "sep_fun separator \<equiv> (\<lambda>c. c \<in> set (case separator of None \<Rightarrow> default_separator | Some x \<Rightarrow> x))"

lemma splitstr_eq:
  assumes "allocs al"
  shows "\<exists>k. splitstr al (Some s) separator =
           Ret (Some (toks_of (strtok_from (sep_fun separator) 0 s) @ Null # replicate k Null),
                length (strtok_from (sep_fun separator) 0 s))"
proof -
  let ?toks = "strtok_from (sep_fun separator) 0 s"
  have "take 0 (replicate 20 Uninit) = toks_of []" by (simp add: toks_of_def)
  then obtain mx arr where f: "fill_array al 0 20 (replicate 20 Uninit) ?toks = Ret (length ?toks, mx, arr)"
    and l: "length arr = mx" "length ?toks < mx" and t: "take (length ?toks) arr = toks_of ?toks"
    using fill_array_ok [of al "replicate 20 Uninit" 20 0 "[]" ?toks] assms
    by (auto simp: allocs_def)
  show ?thesis
    using assms f l t by (auto simp: splitstr_def allocs_def Let_def)
qed

text \<open>The tokens an array holds: what a caller reads up to the first \<open>NULL\<close>.\<close>

fun read_array :: "slot list \<Rightarrow> string list" where
  "read_array (Tok off t # ss) = t # read_array ss"
| "read_array _ = []"

lemma read_array_toks_of [simp]: "read_array (toks_of ts @ Null # ss) = map snd ts"
  by (induction ts) (auto simp: toks_of_def)

lemma read_array_splitstr:
  assumes "allocs al" and "splitstr al (Some s) separator = Ret (Some arr, n)"
  shows "read_array arr = strtok_all (sep_fun separator) s" and "n = length (read_array arr)"
    and "Uninit \<notin> set arr"
proof -
  obtain k where "splitstr al (Some s) separator =
      Ret (Some (toks_of (strtok_from (sep_fun separator) 0 s) @ Null # replicate k Null),
           length (strtok_from (sep_fun separator) 0 s))"
    using splitstr_eq [OF assms(1)] by blast
  with assms(2) have arr: "arr = toks_of (strtok_from (sep_fun separator) 0 s) @ Null # replicate k Null"
    and n: "n = length (strtok_from (sep_fun separator) 0 s)" by auto
  show r: "read_array arr = strtok_all (sep_fun separator) s"
    by (simp add: arr snd_strtok_from)
  show "n = length (read_array arr)"
    by (simp add: arr n)
  show "Uninit \<notin> set arr"
    by (auto simp: arr toks_of_def)
qed

lemma splitstr_first_offset:
  assumes "allocs al" and "splitstr al (Some s) separator = Ret (Some arr, n)"
  shows "splitstr_free (Some arr) =
    (if strtok_all (sep_fun separator) s = [] then Ret False
     else if \<not> sep_fun separator (hd s) then Ret True
     else Undefined ''free of an inner pointer'')"
proof -
  let ?sep = "sep_fun separator"
  obtain k where "splitstr al (Some s) separator =
      Ret (Some (toks_of (strtok_from ?sep 0 s) @ Null # replicate k Null), length (strtok_from ?sep 0 s))"
    using splitstr_eq [OF assms(1)] by blast
  with assms(2) have arr: "arr = toks_of (strtok_from ?sep 0 s) @ Null # replicate k Null" by auto
  show ?thesis
  proof (cases s ?sep rule: token_cases)
    case blank
    then show ?thesis by (simp add: arr strtok_from_blank strtok_all_def toks_of_def splitstr_free_def)
  next
    case (token b t r)
    then have "strtok_from ?sep 0 s = (length b, t) # strtok_from ?sep (length b + length t) r"
      using strtok_from_step [of b ?sep t r 0] by simp
    moreover have "?sep (hd s) \<longleftrightarrow> b \<noteq> []"
      using token by (cases b; cases t) auto
    ultimately show ?thesis
      by (simp add: arr toks_of_def splitstr_free_def strtok_all_def)
  qed
qed

subsection \<open>Verified properties\<close>

text \<open>
  C39: whenever its memory requests succeed, \<open>splitstr\<close> returns (it never writes past the growing
  array), the array holds exactly the \<open>strtok\<close> tokens of the string followed by at least one
  \<open>NULL\<close>, no slot is left uninitialised, and \<open>*argcount\<close> is the number of tokens.
\<close>

theorem splitstr_correct:
  assumes "allocs al"
  shows "\<exists>toks k. splitstr al (Some s) separator = Ret (Some (toks_of toks @ Null # replicate k Null), length toks)
           \<and> map snd toks = strtok_all (sep_fun separator) s
           \<and> (\<forall>off t. (off, t) \<in> set toks \<longrightarrow> take (length t) (drop off s) = t)"
proof -
  obtain k where "splitstr al (Some s) separator =
      Ret (Some (toks_of (strtok_from (sep_fun separator) 0 s) @ Null # replicate k Null),
           length (strtok_from (sep_fun separator) 0 s))"
    using splitstr_eq [OF assms] by blast
  moreover have "\<forall>off t. (off, t) \<in> set (strtok_from (sep_fun separator) 0 s) \<longrightarrow> take (length t) (drop off s) = t"
    using strtok_from_offset by fastforce
  ultimately show ?thesis using snd_strtok_from by blast
qed

theorem splitstr_correct_witness:
  "\<exists>toks k. splitstr good_alloc (Some ''ls -l'') None = Ret (Some (toks_of toks @ Null # replicate k Null), length toks)
     \<and> map snd toks = strtok_all (sep_fun None) ''ls -l''
     \<and> (\<forall>off t. (off, t) \<in> set toks \<longrightarrow> take (length t) (drop off ''ls -l'') = t)"
  by (rule splitstr_correct) simp

text \<open>
  Splitting is the inverse of joining: a list of non-empty words that contain no separator,
  joined with one separator character, is what \<open>splitstr\<close> gives back.
\<close>

theorem splitstr_join:
  assumes "allocs al" and "sep_fun separator x"
    and "\<forall>w \<in> set ws. w \<noteq> [] \<and> (\<forall>c \<in> set w. \<not> sep_fun separator c)"
  shows "\<exists>arr. splitstr al (Some (join_with x ws)) separator = Ret (Some arr, length ws) \<and> read_array arr = ws"
proof -
  have "strtok_all (sep_fun separator) (join_with x ws) = ws"
    by (rule strtok_all_join) (use assms in auto)
  moreover obtain arr n where "splitstr al (Some (join_with x ws)) separator = Ret (Some arr, n)"
    using splitstr_eq [OF assms(1)] by blast
  ultimately show ?thesis using read_array_splitstr [OF assms(1)] by metis
qed

theorem splitstr_join_witness:
  "\<exists>arr. splitstr good_alloc (Some (join_with SPACE [''ls'', ''-l''])) None = Ret (Some arr, length [''ls'', ''-l''])
     \<and> read_array arr = [''ls'', ''-l'']"
  by (rule splitstr_join) (auto simp: default_separator_def)

text \<open>
  Releasing the result of \<open>splitstr\<close> with \<open>splitstr_free\<close> is defined exactly when the string
  holds no token or does not begin with a separator; with a leading separator the code passes a
  pointer into the middle of the copy to \<open>free ()\<close>, and with no token at all the copy is leaked.
\<close>

theorem splitstr_free_defined:
  assumes "allocs al" and "splitstr al (Some s) separator = Ret (Some arr, n)"
  shows "(is_ret (splitstr_free (Some arr)) \<longleftrightarrow>
           strtok_all (sep_fun separator) s = [] \<or> \<not> sep_fun separator (hd s)) \<and>
         (splitstr_free (Some arr) = Ret True \<longleftrightarrow>
           strtok_all (sep_fun separator) s \<noteq> [] \<and> \<not> sep_fun separator (hd s))"
  by (auto simp: splitstr_first_offset [OF assms])

theorem splitstr_free_defined_witness:
  "\<exists>arr n. splitstr good_alloc (Some '' ab'') None = Ret (Some arr, n) \<and> \<not> is_ret (splitstr_free (Some arr))"
proof -
  have al: "allocs good_alloc" by simp
  obtain arr n where a: "splitstr good_alloc (Some '' ab'') None = Ret (Some arr, n)"
    using splitstr_eq [OF al] by blast
  have "strtok_all (sep_fun None) '' ab'' \<noteq> []" by code_simp
  with splitstr_free_defined [OF al a] have "\<not> is_ret (splitstr_free (Some arr))"
    by (simp add: default_separator_def)
  with a show ?thesis by blast
qed

end
