(* ===== verification/Symbol.thy ===== *)
theory Symbol
  imports Splitstr
begin

section \<open>pan/symbol.c: the hierarchical symbol table\<close>

text \<open>
  A symbol table is a list of nodes in insertion order; a node's data pointer is \<open>NULL\<close>, a
  caller's datum, or (told apart by the magic number) another symbol table.  A key such as
  \<open>a,b,c\<close> is split at commas by \<open>splitstr\<close> and names a path through nested tables.
  The memory requests of the nodes are taken to succeed; those of \<open>splitstr\<close> are its own.
  The cursor is kept as the path of the table it stands in and the index of its node.
\<close>

datatype 'd sdata = DNull | Leaf 'd | Table "(string \<times> 'd sdata) list"

type_synonym 'd nodes = "(string \<times> 'd sdata) list"

record 'd symh =
  sym :: "'d nodes"
  cursor :: "(string list \<times> nat) option"


definition newsym :: "'d symh" where
  "newsym = \<lparr>sym = [], cursor = None\<rparr>"

definition sym_open :: "int \<Rightarrow> int \<Rightarrow> int \<Rightarrow> 'd symh" where
  "sym_open flags mode openinfo = newsym"

definition mknode :: "string \<Rightarrow> 'd sdata \<Rightarrow> string \<times> 'd sdata" where
  "mknode key d = (key, d)"

text \<open>\<open>find_key1\<close>: the data of the first node with the key.\<close>

fun find_key1 :: "'d nodes \<Rightarrow> string \<Rightarrow> 'd sdata option" where
  "find_key1 [] key = None"
| "find_key1 ((k, d) # rest) key = (if k = key then Some d else find_key1 rest key)"

definition add_key :: "'d nodes \<Rightarrow> string \<Rightarrow> 'd sdata \<Rightarrow> 'd nodes" where
  "add_key nodes key d = nodes @ [mknode key d]"

text \<open>Assigning the data pointer of the node \<open>find_key1\<close> found.\<close>

definition set_data :: "'d nodes \<Rightarrow> string \<Rightarrow> 'd sdata \<Rightarrow> 'd nodes" where
  "set_data nodes key d = update_first (\<lambda>(k, _). k = key) (\<lambda>(k, _). (k, d)) nodes"

subsection \<open>sym_put and sym_get\<close>

text \<open>The last loop of \<open>sym_put\<close>: new sub-tables for all keys but the last, which gets the data.\<close>

fun add_chain :: "'d nodes \<Rightarrow> string list \<Rightarrow> 'd sdata \<Rightarrow> 'd nodes" where
  "add_chain nodes [] d = nodes"
| "add_chain nodes [k] d = add_key nodes k d"
| "add_chain nodes (k # ks) d = add_key nodes k (Table (add_chain [] ks d))"

text \<open>The search loop of \<open>sym_put\<close> and what follows it.  An empty key list leaves \<open>nsym\<close> NULL.\<close>

fun put_keys :: "bool \<Rightarrow> 'd sdata \<Rightarrow> string list \<Rightarrow> 'd nodes \<Rightarrow> (int \<times> 'd nodes) outcome" where
  "put_keys replace d [] nodes = (if replace then Undefined ''NULL dereference'' else Ret (EEXIST, nodes))"
| "put_keys replace d (k # ks) nodes =
     (case find_key1 nodes k of
        None \<Rightarrow> Ret (0, add_chain nodes (k # ks) d)
      | Some nd \<Rightarrow>
          if ks = [] then (if replace then Ret (0, set_data nodes k d) else Ret (EEXIST, nodes))
          else (case nd of
                  Table sub \<Rightarrow>
                    bind_outcome (put_keys replace d ks sub) (\<lambda>(r, sub'). Ret (r, set_data nodes k (Table sub')))
                | _ \<Rightarrow> Ret (ENOTDIR, nodes)))"

definition PUT_REPLACE :: int where "PUT_REPLACE = 1"

definition sym_put ::
  "alloc \<Rightarrow> 'd symh option \<Rightarrow> string \<Rightarrow> 'd sdata \<Rightarrow> int \<Rightarrow> (int \<times> 'd symh option) outcome" where
  "sym_put al s key d flags =
     (case s of None \<Rightarrow> Ret (EINVAL, None)
      | Some h \<Rightarrow>
        bind_outcome (splitstr al (Some key) (Some '','')) (\<lambda>(keys, _).
          case keys of None \<Rightarrow> Ret (EINVAL, Some h)
          | Some arr \<Rightarrow>
            bind_outcome (put_keys (flags = PUT_REPLACE) d (read_array arr) (sym h)) (\<lambda>(r, nodes).
              bind_outcome (splitstr_free (Some arr)) (\<lambda>_. Ret (r, Some (h\<lparr>sym := nodes\<rparr>))))))"

text \<open>\<open>sym_get\<close>: \<open>DNull\<close> stands for a returned NULL.\<close>

fun get_keys :: "string list \<Rightarrow> 'd nodes \<Rightarrow> 'd sdata outcome" where
  "get_keys [] nodes = Undefined ''NULL dereference''"
| "get_keys (k # ks) nodes =
     (case find_key1 nodes k of
        None \<Rightarrow> Ret DNull
      | Some nd \<Rightarrow> if ks = [] then Ret nd
                   else (case nd of Table sub \<Rightarrow> get_keys ks sub | _ \<Rightarrow> Ret DNull))"

definition sym_get :: "alloc \<Rightarrow> 'd symh option \<Rightarrow> string \<Rightarrow> 'd sdata outcome" where
  "sym_get al s key =
     (case s of None \<Rightarrow> Ret DNull
      | Some h \<Rightarrow>
        bind_outcome (splitstr al (Some key) (Some '','')) (\<lambda>(keys, _).
          case keys of None \<Rightarrow> Ret DNull
          | Some arr \<Rightarrow>
            bind_outcome (get_keys (read_array arr) (sym h)) (\<lambda>d.
              bind_outcome (splitstr_free (Some arr)) (\<lambda>_. Ret d))))"

subsection \<open>sym_seq\<close>

datatype seq_flag = R_CURSOR | R_FIRST | R_NEXT | R_LAST | R_PREV

text \<open>The nodes of the table a path leads to.\<close>

fun table_at :: "string list \<Rightarrow> 'd nodes \<Rightarrow> 'd nodes option" where
  "table_at [] nodes = Some nodes"
| "table_at (k # ks) nodes =
     (case find_key1 nodes k of Some (Table sub) \<Rightarrow> table_at ks sub | _ \<Rightarrow> None)"

text \<open>Return value, key and data (unchanged when \<open>None\<close>) and the table with its cursor moved.
  A cursor whose table has been replaced points to nodes the table no longer reaches.\<close>

definition sym_seq ::
  "alloc \<Rightarrow> 'd symh \<Rightarrow> string \<Rightarrow> seq_flag \<Rightarrow> (int \<times> (string \<times> 'd sdata) option \<times> 'd symh) outcome" where
  "sym_seq al h key flags =
     (case flags of
        R_CURSOR \<Rightarrow>
          bind_outcome (sym_get al (Some h) key) (\<lambda>d.
            case d of
              Table [] \<Rightarrow> Ret (1, None, h\<lparr>cursor := None\<rparr>)
            | Table (n # ns) \<Rightarrow>
                Ret (0, Some n, h\<lparr>cursor := Some (strtok_all (\<lambda>c. c \<in> set '','') key, 0)\<rparr>)
            | _ \<Rightarrow> Ret (2, None, h))
      | R_FIRST \<Rightarrow>
          (case sym h of
             [] \<Rightarrow> Ret (1, None, h\<lparr>cursor := None\<rparr>)
           | n # ns \<Rightarrow> Ret (0, Some n, h\<lparr>cursor := Some ([], 0)\<rparr>))
      | R_NEXT \<Rightarrow>
          (case cursor h of
             None \<Rightarrow> Ret (1, None, h)
           | Some (path, i) \<Rightarrow>
               (case table_at path (sym h) of
                  None \<Rightarrow> Undefined ''stale cursor''
                | Some nodes \<Rightarrow>
                    if Suc i < length nodes
                    then Ret (0, Some (nodes ! Suc i), h\<lparr>cursor := Some (path, Suc i)\<rparr>)
                    else Ret (1, None, h\<lparr>cursor := None\<rparr>)))
      | _ \<Rightarrow> Ret (-1, None, h))"

subsection \<open>sym_dump and sym_rm\<close>

text \<open>What \<open>sym_dump\<close> prints for a data pointer at a depth.\<close>

fun sym_dump :: "nat \<Rightarrow> 'd sdata \<Rightarrow> string" and dump_nodes :: "nat \<Rightarrow> 'd nodes \<Rightarrow> string" where
  "sym_dump depth (Table nodes) = dump_nodes depth nodes"
| "sym_dump depth _ = []"
| "dump_nodes depth [] = []"
| "dump_nodes depth ((k, d) # rest) =
     concat (replicate depth [CHR 0x22, SPACE]) @ k @ [NL] @ sym_dump (depth + 1) d @ dump_nodes depth rest"

text \<open>\<open>sym_dump_s\<close>, for tables whose data are strings.  The addresses that it prints of the key and
  of the datum at a path are an argument; a NULL datum is dereferenced.\<close>

definition dump_indent :: "nat \<Rightarrow> string" where
  "dump_indent depth = concat (replicate depth [CHR 0x22, SPACE])"

fun sym_dump_s :: "(string list \<Rightarrow> string \<times> string) \<Rightarrow> nat \<Rightarrow> string list \<Rightarrow> string sdata \<Rightarrow> string outcome"
  and dump_s_nodes :: "(string list \<Rightarrow> string \<times> string) \<Rightarrow> nat \<Rightarrow> string list \<Rightarrow> string nodes \<Rightarrow> string outcome" where
  "sym_dump_s ad depth path DNull = Ret []"
| "sym_dump_s ad depth path (Leaf s) = Ret (dump_indent depth @ '' = '' @ s @ [NL])"
| "sym_dump_s ad depth path (Table nodes) = dump_s_nodes ad depth path nodes"
| "dump_s_nodes ad depth path [] = Ret []"
| "dump_s_nodes ad depth path ((k, DNull) # rest) = Undefined ''NULL data''"
| "dump_s_nodes ad depth path ((k, Leaf s) # rest) =
     bind_outcome (dump_s_nodes ad depth path rest) (\<lambda>r.
     let (ka, da) = ad (path @ [k])
     in Ret (dump_indent depth @ k @ ''('' @ ka @ '') = '' @ s @ '' ('' @ da @ '')'' @ [NL] @ r))"
| "dump_s_nodes ad depth path ((k, Table nodes) # rest) =
     bind_outcome (dump_s_nodes ad (depth + 1) (path @ [k]) nodes) (\<lambda>t.
     bind_outcome (dump_s_nodes ad depth path rest) (\<lambda>r.
     Ret (dump_indent depth @ k @ [NL] @ t @ r)))"

text \<open>The blocks \<open>sym_rm\<close> passes to \<open>free ()\<close>, named by the path of the node they belong to: the
  block a data pointer points to (a datum or a table header), the key string, the node.\<close>

datatype block = BData "string list" | BKey "string list" | BNode "string list"

definition free_data :: "string list \<Rightarrow> 'd sdata \<Rightarrow> block list" where
  "free_data path d = (if d = DNull then [] else [BData path])"

fun sym_rm :: "bool \<Rightarrow> bool \<Rightarrow> string list \<Rightarrow> 'd sdata \<Rightarrow> block list"
  and rm_nodes :: "bool \<Rightarrow> bool \<Rightarrow> string list \<Rightarrow> 'd nodes \<Rightarrow> block list" where
  "sym_rm rm_key rm_data path DNull = []"
| "sym_rm rm_key rm_data path (Leaf x) = (if rm_data then [] else [BData path])"
| "sym_rm rm_key rm_data path (Table nodes) =
     rm_nodes rm_key rm_data path nodes @ (if rm_data then [] else [BData path])"
| "rm_nodes rm_key rm_data path [] = []"
| "rm_nodes rm_key rm_data path ((k, d) # rest) =
     sym_rm rm_key rm_data (path @ [k]) d
     @ (if rm_key then [BKey (path @ [k])] else [])
     @ (if rm_data then free_data (path @ [k]) d else [])
     @ [BNode (path @ [k])]
     @ rm_nodes rm_key rm_data path rest"

end
