(* ===== verification/Symbol_Spec.thy ===== *)
theory Symbol_Spec
  imports Symbol
begin

section \<open>What the symbol table promises\<close>

text \<open>
  The abstract view of a symbol table is a partial map from key paths to data.  The theory shows the
  well-formedness invariant (no key twice in a table), the return codes of \<open>sym_put\<close> on every
  branch, the round trip of \<open>sym_put\<close> and \<open>sym_get\<close>, the frame condition on other paths, the
  order in which \<open>sym_seq\<close> enumerates, and what \<open>sym_rm\<close> frees.
\<close>

subsection \<open>Nodes\<close>

fun wf_data :: "'d sdata \<Rightarrow> bool" and wf_nodes :: "'d nodes \<Rightarrow> bool" where
  "wf_data (Table nodes) = wf_nodes nodes"
| "wf_data _ = True"
| "wf_nodes [] = True"
| "wf_nodes ((k, d) # rest) = (k \<notin> fst ` set rest \<and> wf_data d \<and> wf_nodes rest)"

named_theorems sym_simps \<open>rewrite rules for the node lists\<close>

lemma find_key1_None [sym_simps]: "find_key1 ns k = None \<longleftrightarrow> k \<notin> fst ` set ns"
  by (induction ns) (auto split: if_splits)

lemma find_key1_add_key [sym_simps]:
  "find_key1 (add_key ns k d) q = (case find_key1 ns q of Some x \<Rightarrow> Some x | None \<Rightarrow> if k = q then Some d else None)"
  by (induction ns) (auto simp: add_key_def mknode_def)

lemma find_key1_set_data [sym_simps]:
  "find_key1 (set_data ns k d) q = (if q = k \<and> find_key1 ns k \<noteq> None then Some d else find_key1 ns q)"
  by (induction ns) (auto simp: set_data_def)

lemma set_data_same [sym_simps]: "find_key1 ns k = Some d \<Longrightarrow> set_data ns k d = ns"
  by (induction ns) (auto simp: set_data_def split: if_splits)

lemma keys_set_data [sym_simps]: "map fst (set_data ns k d) = map fst ns"
  by (induction ns) (auto simp: set_data_def)

lemma keys_set_data_image: "fst ` set (set_data ns k d) = fst ` set ns"
  by (metis keys_set_data set_map)

lemma wf_set_data: "wf_nodes ns \<Longrightarrow> wf_data d \<Longrightarrow> wf_nodes (set_data ns k d)"
proof (induction ns)
  case (Cons n ns)
  obtain q x where n: "n = (q, x)" by force
  show ?case
  proof (cases "q = k")
    case True
    with Cons.prems n show ?thesis by (simp add: set_data_def)
  next
    case False
    then have eq: "set_data (n # ns) k d = n # set_data ns k d" by (simp add: set_data_def n)
    show ?thesis unfolding eq using Cons False n by (simp add: keys_set_data_image)
  qed
qed (simp add: set_data_def)

lemma wf_add_key: "wf_nodes ns \<Longrightarrow> wf_data d \<Longrightarrow> find_key1 ns k = None \<Longrightarrow> wf_nodes (add_key ns k d)"
  by (induction ns) (auto simp: add_key_def mknode_def split: if_splits)

lemma wf_find_key1: "wf_nodes ns \<Longrightarrow> find_key1 ns k = Some d \<Longrightarrow> wf_data d"
  by (induction ns) (auto split: if_splits)

subsection \<open>Paths\<close>

fun lookup :: "string list \<Rightarrow> 'd nodes \<Rightarrow> 'd sdata option" where
  "lookup [] ns = None"
| "lookup (k # ks) ns =
     (case find_key1 ns k of
        None \<Rightarrow> None
      | Some nd \<Rightarrow> if ks = [] then Some nd else (case nd of Table sub \<Rightarrow> lookup ks sub | _ \<Rightarrow> None))"

lemma get_keys_lookup:
  "p \<noteq> [] \<Longrightarrow> get_keys p ns = Ret (case lookup p ns of None \<Rightarrow> DNull | Some d \<Rightarrow> d)"
  by (induction p ns rule: lookup.induct) (auto split: option.splits sdata.splits)

lemma add_chain_Cons: "add_chain ns (k # ks) d = add_key ns k (if ks = [] then d else Table (add_chain [] ks d))"
  by (cases ks) auto

lemma find_chain:
  "find_key1 ns k = None \<Longrightarrow>
   find_key1 (add_chain ns (k # ks) d) q =
     (if q = k then Some (if ks = [] then d else Table (add_chain [] ks d)) else find_key1 ns q)"
  by (auto simp: add_chain_Cons find_key1_add_key split: option.splits)

declare add_chain.simps [simp del]

lemma lookup_add_chain:
  "find_key1 ns k = None \<Longrightarrow> lookup (k # ks) (add_chain ns (k # ks) d) = Some d"
proof (induction ks arbitrary: ns k)
  case (Cons k2 ks)
  then show ?case using Cons.IH [of "[]" k2] by (simp add: find_chain)
qed (simp add: find_chain)

lemma wf_add_chain: "wf_data d \<Longrightarrow> wf_nodes (add_chain [] ks d)"
proof (induction ks)
  case (Cons k ks)
  then show ?case by (simp add: add_chain_Cons add_key_def mknode_def)
qed (simp add: add_chain.simps)

lemma lookup_put_keys:
  assumes "put_keys rep d p ns = Ret (0, ns')" and "p \<noteq> []"
  shows "lookup p ns' = Some d"
  using assms
proof (induction rep d p ns arbitrary: ns' rule: put_keys.induct)
  case (2 rep d k ks ns)
  show ?case
  proof (cases "find_key1 ns k")
    case None
    with 2 have "ns' = add_chain ns (k # ks) d" by simp
    then show ?thesis using lookup_add_chain [OF None] by (simp only:)
  next
    case (Some nd)
    show ?thesis
    proof (cases "ks = []")
      case True
      with 2 Some show ?thesis by (auto simp: sym_simps EEXIST_def split: if_splits)
    next
      case False
      with 2 Some show ?thesis
        by (cases nd) (auto simp: sym_simps outcome_simps ENOTDIR_def)
    qed
  qed
qed simp

text \<open>Paths neither of which extends the other are independent.\<close>

definition independent :: "string list \<Rightarrow> string list \<Rightarrow> bool" where
  "independent p q \<longleftrightarrow> \<not> prefix p q \<and> \<not> prefix q p"

lemma lookup_chain_other:
  assumes "find_key1 ns k = None" and "independent (k # ks) q"
  shows "lookup q (add_chain ns (k # ks) d) = lookup q ns"
  using assms
proof (induction ks arbitrary: ns k q)
  case Nil
  then show ?case by (cases q) (auto simp: find_chain independent_def split: option.splits)
next
  case (Cons k2 ks)
  then obtain q1 qs where q: "q = q1 # qs" by (cases q) (auto simp: independent_def)
  show ?case
  proof (cases "q1 = k")
    case False
    then show ?thesis using Cons.prems by (simp add: q find_chain)
  next
    case True
    with Cons.prems q have "independent (k2 # ks) qs" by (simp add: independent_def)
    moreover from this have "qs \<noteq> []" by (auto simp: independent_def)
    moreover have "lookup qs [] = None" by (cases qs) auto
    ultimately show ?thesis
      using Cons.IH [of "[]" k2 qs] Cons.prems True by (simp add: q find_chain)
  qed
qed

lemma lookup_put_other:
  assumes "put_keys rep d p ns = Ret (r, ns')" and "independent p q"
  shows "lookup q ns' = lookup q ns"
  using assms
proof (induction rep d p ns arbitrary: q r ns' rule: put_keys.induct)
  case (2 rep d k ks ns)
  show ?case
  proof (cases "find_key1 ns k")
    case None
    with 2 show ?thesis by (auto simp: lookup_chain_other)
  next
    case (Some nd)
    obtain q1 qs where q: "q = q1 # qs" using 2(3) by (cases q) (auto simp: independent_def)
    show ?thesis
    proof (cases "ks = []")
      case True
      with 2 Some q show ?thesis by (auto simp: sym_simps independent_def split: if_splits)
    next
      case False
      show ?thesis
      proof (cases nd)
        case (Table sub)
        with 2(2) Some False obtain sub' where sub': "put_keys rep d ks sub = Ret (r, sub')"
          "ns' = set_data ns k (Table sub')" by (auto simp: outcome_simps)
        show ?thesis
        proof (cases "q1 = k")
          case True
          with 2(3) q have ind: "independent ks qs" by (simp add: independent_def)
          then have "qs \<noteq> []" by (auto simp: independent_def)
          with 2(1) [OF Some False Table sub'(1) ind] True sub'(2) Some Table show ?thesis
            by (simp add: q sym_simps)
        next
          case False
          with sub'(2) show ?thesis by (simp add: q sym_simps)
        qed
      qed (use 2(2) Some False in auto)
    qed
  qed
qed (auto split: if_splits)

lemma put_keys_wf:
  assumes "put_keys rep d p ns = Ret (r, ns')" and "wf_nodes ns" and "wf_data d"
  shows "wf_nodes ns'"
  using assms
proof (induction rep d p ns arbitrary: r ns' rule: put_keys.induct)
  case (2 rep d k ks ns)
  show ?case
  proof (cases "find_key1 ns k")
    case None
    have "wf_nodes (add_chain ns (k # ks) d)"
      using None 2(3,4) wf_add_chain [of d ks] by (auto simp: add_chain_Cons intro!: wf_add_key)
    with None 2(2) show ?thesis by simp
  next
    case (Some nd)
    show ?thesis
    proof (cases "ks = []")
      case True
      with 2 Some show ?thesis by (auto simp: wf_set_data split: if_splits)
    next
      case False
      show ?thesis
      proof (cases nd)
        case (Table sub)
        with 2(2) Some False obtain sub' where sub': "put_keys rep d ks sub = Ret (r, sub')"
          "ns' = set_data ns k (Table sub')" by (auto simp: outcome_simps)
        have "wf_nodes sub" using wf_find_key1 [OF 2(3) Some] Table by simp
        with 2(1) [OF Some False Table sub'(1)] 2(3,4) have "wf_nodes sub'" by simp
        with 2(3) sub'(2) show ?thesis by (simp add: wf_set_data)
      qed (use 2 Some False in auto)
    qed
  qed
qed (auto split: if_splits)

subsection \<open>Return codes\<close>

text \<open>A path is blocked when a proper initial part of it names something that is not a table.\<close>

fun blocked :: "string list \<Rightarrow> 'd nodes \<Rightarrow> bool" where
  "blocked [] ns = False"
| "blocked (k # ks) ns =
     (case find_key1 ns k of
        None \<Rightarrow> False
      | Some nd \<Rightarrow> ks \<noteq> [] \<and> (case nd of Table sub \<Rightarrow> blocked ks sub | _ \<Rightarrow> True))"

lemma blocked_lookup: "blocked p ns \<Longrightarrow> lookup p ns = None"
  by (induction p ns rule: blocked.induct) (auto split: option.splits sdata.splits)

lemma blocked_prefix:
  "blocked p ns \<Longrightarrow> \<exists>q nd. strict_prefix q p \<and> lookup q ns = Some nd \<and> (\<forall>sub. nd \<noteq> Table sub)"
proof (induction p ns rule: blocked.induct)
  case (2 k ks ns)
  then obtain nd where nd: "find_key1 ns k = Some nd" "ks \<noteq> []" by (auto split: option.splits)
  show ?case
  proof (cases nd)
    case (Table sub)
    with 2 nd obtain q x where "strict_prefix q ks" "lookup q sub = Some x" "\<forall>sub. x \<noteq> Table sub" by auto
    with nd Table show ?thesis by (intro exI [of _ "k # q"] exI [of _ x]) auto
  qed (use nd in \<open>auto intro!: exI [of _ "[k]"] simp: neq_Nil_conv\<close>)
qed simp

lemma prefix_blocked:
  "strict_prefix q p \<Longrightarrow> lookup q ns = Some nd \<Longrightarrow> \<forall>sub. nd \<noteq> Table sub \<Longrightarrow> blocked p ns"
proof (induction p ns arbitrary: q rule: blocked.induct)
  case (2 k ks ns)
  then obtain q' where q: "q = k # q'" "strict_prefix q' ks" by (cases q) auto
  then have "ks \<noteq> []" by auto
  with 2 q show ?case by (auto split: option.splits sdata.splits if_splits)
qed simp

lemma put_keys_codes:
  assumes "p \<noteq> []"
  shows "\<exists>r ns'. put_keys rep d p ns = Ret (r, ns') \<and> r \<in> {0, EEXIST, ENOTDIR}
    \<and> (r = ENOTDIR \<longleftrightarrow> blocked p ns) \<and> (r = EEXIST \<longleftrightarrow> lookup p ns \<noteq> None \<and> \<not> rep)
    \<and> (r \<noteq> 0 \<longrightarrow> ns' = ns)"
  using assms
proof (induction rep d p ns rule: put_keys.induct)
  case (2 rep d k ks ns)
  show ?case
  proof (cases "find_key1 ns k")
    case None
    then show ?thesis by (simp add: EEXIST_def ENOTDIR_def)
  next
    case (Some nd)
    show ?thesis
    proof (cases "ks = []")
      case True
      with Some show ?thesis by (simp add: EEXIST_def ENOTDIR_def)
    next
      case ks: False
      show ?thesis
      proof (cases nd)
        case (Table sub)
        from 2(1) [OF Some ks Table ks] obtain r sub' where
          "put_keys rep d ks sub = Ret (r, sub')" "r \<in> {0, EEXIST, ENOTDIR}"
          "r = ENOTDIR \<longleftrightarrow> blocked ks sub" "r = EEXIST \<longleftrightarrow> lookup ks sub \<noteq> None \<and> \<not> rep"
          "r \<noteq> 0 \<longrightarrow> sub' = sub" by blast
        with Some ks Table show ?thesis by (auto simp: set_data_same)
      qed (use Some ks in \<open>auto simp: EEXIST_def ENOTDIR_def\<close>)
    qed
  qed
qed simp

subsection \<open>The operations on comma-separated keys\<close>

definition good_path :: "string list \<Rightarrow> bool" where
  "good_path p \<longleftrightarrow> p \<noteq> [] \<and> (\<forall>k \<in> set p. k \<noteq> [] \<and> COMMA \<notin> set k)"

definition key_of :: "string list \<Rightarrow> string" where
  "key_of p = join_with COMMA p"

lemma strtok_key_of: "good_path p \<Longrightarrow> strtok_all (\<lambda>c. c \<in> set '','') (key_of p) = p"
  unfolding key_of_def by (rule strtok_all_join) (auto simp: good_path_def)

lemma key_of_head: "good_path p \<Longrightarrow> key_of p \<noteq> [] \<and> hd (key_of p) \<noteq> COMMA"
proof (cases p)
  case (Cons k ks)
  assume "good_path p"
  with Cons obtain c cs where "k = c # cs" "c \<noteq> COMMA" by (cases k) (auto simp: good_path_def)
  with Cons show ?thesis by (cases ks) (auto simp: key_of_def)
qed (simp add: good_path_def)

lemma split_key_of:
  assumes "allocs al" "good_path p"
  obtains arr n where "splitstr al (Some (key_of p)) (Some '','') = Ret (Some arr, n)"
    "read_array arr = p" "splitstr_free (Some arr) = Ret True"
proof -
  obtain arr n where a: "splitstr al (Some (key_of p)) (Some '','') = Ret (Some arr, n)"
    using splitstr_eq [OF assms(1)] by blast
  moreover have "read_array arr = p"
    using read_array_splitstr(1) [OF assms(1) a] strtok_key_of [OF assms(2)] by simp
  moreover have "splitstr_free (Some arr) = Ret True"
    using splitstr_first_offset [OF assms(1) a] strtok_key_of [OF assms(2)] key_of_head [OF assms(2)]
      assms(2) by (simp add: good_path_def)
  ultimately show ?thesis by (rule that)
qed

lemma sym_put_path:
  assumes "allocs al" "good_path p"
  shows "sym_put al (Some h) (key_of p) d flags =
    bind_outcome (put_keys (flags = PUT_REPLACE) d p (sym h)) (\<lambda>(r, ns). Ret (r, Some (h\<lparr>sym := ns\<rparr>)))"
proof -
  obtain arr n where a: "splitstr al (Some (key_of p)) (Some '','') = Ret (Some arr, n)"
    "read_array arr = p" "splitstr_free (Some arr) = Ret True"
    using split_key_of [OF assms] by blast
  then show ?thesis by (simp add: sym_put_def)
qed

lemma sym_get_path:
  assumes "allocs al" "good_path p"
  shows "sym_get al (Some h) (key_of p) = Ret (case lookup p (sym h) of None \<Rightarrow> DNull | Some d \<Rightarrow> d)"
proof -
  obtain arr n where a: "splitstr al (Some (key_of p)) (Some '','') = Ret (Some arr, n)"
    "read_array arr = p" "splitstr_free (Some arr) = Ret True"
    using split_key_of [OF assms] by blast
  moreover have "p \<noteq> []" using assms(2) by (simp add: good_path_def)
  ultimately show ?thesis by (simp add: sym_get_def get_keys_lookup)
qed

subsection \<open>The contract of the callers\<close>

text \<open>
  What a store addressed by paths promises to the code that fills it field by field: a stored
  value is read back, and a store under one path leaves independent paths alone.
\<close>

locale path_store =
  fixes put :: "'s \<Rightarrow> string list \<Rightarrow> 'v \<Rightarrow> (int \<times> 's) option"
    and get :: "'s \<Rightarrow> string list \<Rightarrow> 'v option"
    and inv :: "'s \<Rightarrow> bool"
  assumes put_inv: "inv s \<Longrightarrow> good_path p \<Longrightarrow> put s p v = Some (r, s') \<Longrightarrow> inv s'"
    and put_get: "inv s \<Longrightarrow> good_path p \<Longrightarrow> put s p v = Some (0, s') \<Longrightarrow> get s' p = Some v"
    and put_other: "inv s \<Longrightarrow> good_path p \<Longrightarrow> put s p v = Some (r, s') \<Longrightarrow>
      good_path q \<Longrightarrow> independent p q \<Longrightarrow> get s' q = get s q"
begin

fun put_all :: "'s \<Rightarrow> (string list \<times> 'v) list \<Rightarrow> 's option" where
  "put_all s [] = Some s"
| "put_all s ((p, v) # rest) = (case put s p v of Some (r, s') \<Rightarrow> if r = 0 then put_all s' rest else None | None \<Rightarrow> None)"

lemma put_all_other:
  assumes "inv s" "put_all s kvs = Some s'" "\<forall>(p, v) \<in> set kvs. good_path p \<and> independent p q" "good_path q"
  shows "get s' q = get s q"
  using assms
proof (induction s kvs rule: put_all.induct)
  case (2 s p v rest)
  obtain s1 where s1: "put s p v = Some (0, s1)" "put_all s1 rest = Some s'"
    using 2(3) by (auto split: option.splits if_splits)
  have g: "good_path p" "independent p q" using 2(4) by auto
  have "inv s1" using put_inv [OF 2(2) g(1) s1(1)] .
  moreover have "get s1 q = get s q" using put_other [OF 2(2) g(1) s1(1) 2(5) g(2)] .
  ultimately show ?case using 2(1) [OF s1(1)] s1(2) 2(4,5) by simp
qed simp

text \<open>A record written field by field under pairwise independent paths reads back whole.\<close>

lemma put_all_get:
  assumes "inv s" "put_all s kvs = Some s'" "\<forall>(p, v) \<in> set kvs. good_path p"
    and "sorted_wrt (\<lambda>(p, v) (q, w). independent q p) kvs" and "(p, v) \<in> set kvs"
  shows "get s' p = Some v"
  using assms
proof (induction s kvs rule: put_all.induct)
  case (2 s p1 v1 rest)
  obtain s1 where s1: "put s p1 v1 = Some (0, s1)" "put_all s1 rest = Some s'"
    using 2(3) by (auto split: option.splits if_splits)
  have g: "good_path p1" using 2(4) by simp
  have i1: "inv s1" using put_inv [OF 2(2) g s1(1)] .
  show ?case
  proof (cases "(p, v) \<in> set rest")
    case True
    with 2(1) [OF s1(1)] s1(2) i1 2(4,5) show ?thesis by simp
  next
    case False
    with 2(6) have eq: "p = p1" "v = v1" by auto
    have "get s1 p1 = Some v1" using put_get [OF 2(2) g s1(1)] .
    moreover have "get s' p1 = get s1 p1"
      using 2(4,5) by (intro put_all_other [OF i1 s1(2) _ g]) auto
    ultimately show ?thesis by (simp add: eq)
  qed
qed simp

end

definition sym_put0 :: "'d symh \<Rightarrow> string list \<Rightarrow> 'd sdata \<Rightarrow> (int \<times> 'd symh) option" where
  "sym_put0 h p d = (case sym_put good_alloc (Some h) (key_of p) d 0 of Ret (r, Some h') \<Rightarrow> Some (r, h') | _ \<Rightarrow> None)"

definition sym_get0 :: "'d symh \<Rightarrow> string list \<Rightarrow> 'd sdata option" where
  "sym_get0 h p = (case sym_get good_alloc (Some h) (key_of p) of Ret d \<Rightarrow> Some d | _ \<Rightarrow> None)"

lemma sym_put0_keys:
  assumes "good_path p" "sym_put0 h p d = Some (r, h')"
  shows "\<exists>ns. put_keys False d p (sym h) = Ret (r, ns) \<and> h' = h\<lparr>sym := ns\<rparr>"
proof -
  have "p \<noteq> []" using assms(1) by (simp add: good_path_def)
  then obtain r' ns where "put_keys False d p (sym h) = Ret (r', ns)"
    using put_keys_codes by blast
  with assms show ?thesis
    by (auto simp: sym_put0_def sym_put_path PUT_REPLACE_def)
qed

text \<open>The values kept there are well-formed data pointers; the invariant is that of the node lists.\<close>

interpretation st: path_store "\<lambda>h p (x :: 'd). sym_put0 h p (Leaf x)"
  "\<lambda>h p. (case sym_get0 h p of Some (Leaf x) \<Rightarrow> Some x | _ \<Rightarrow> None)" "\<lambda>h. wf_nodes (sym h)"
proof
  fix s s' :: "'d symh" and p q :: "string list" and v :: 'd and r :: int
  assume wf: "wf_nodes (sym s)" and gp: "good_path p"
  note pk = sym_put0_keys [OF gp]
  show "wf_nodes (sym s')" if put: "sym_put0 s p (Leaf v) = Some (r, s')"
  proof -
    obtain ns where "put_keys False (Leaf v) p (sym s) = Ret (r, ns)" "s' = s\<lparr>sym := ns\<rparr>"
      using pk [OF put] by blast
    then show ?thesis using put_keys_wf [OF _ wf] by simp
  qed
  have get: "sym_get0 h x = Some (case lookup x (sym h) of None \<Rightarrow> DNull | Some d \<Rightarrow> d)"
    if "good_path x" for h :: "'d symh" and x
    using that by (simp add: sym_get0_def sym_get_path)
  show "(case sym_get0 s' p of Some (Leaf x) \<Rightarrow> Some x | _ \<Rightarrow> None) = Some v"
    if put: "sym_put0 s p (Leaf v) = Some (0, s')"
  proof -
    obtain ns where "put_keys False (Leaf v) p (sym s) = Ret (0, ns)" "s' = s\<lparr>sym := ns\<rparr>"
      using pk [OF put] by blast
    then have "lookup p (sym s') = Some (Leaf v)"
      using lookup_put_keys [of False "Leaf v" p "sym s" ns] gp by (simp add: good_path_def)
    then show ?thesis by (simp add: get [OF gp])
  qed
  show "(case sym_get0 s' q of Some (Leaf x) \<Rightarrow> Some x | _ \<Rightarrow> None) =
        (case sym_get0 s q of Some (Leaf x) \<Rightarrow> Some x | _ \<Rightarrow> None)"
    if put: "sym_put0 s p (Leaf v) = Some (r, s')" and gq: "good_path q" and ind: "independent p q"
  proof -
    obtain ns where "put_keys False (Leaf v) p (sym s) = Ret (r, ns)" "s' = s\<lparr>sym := ns\<rparr>"
      using pk [OF put] by blast
    then have "lookup q (sym s') = lookup q (sym s)" using lookup_put_other [OF _ ind] by fastforce
    then show ?thesis by (simp add: get [OF gq])
  qed
qed

subsection \<open>Enumeration\<close>

text \<open>The loop of a caller that steps through the table: \<open>R_FIRST\<close>, then \<open>R_NEXT\<close> until the return
  value is not 0.\<close>

fun seq_next :: "nat \<Rightarrow> alloc \<Rightarrow> 'd symh \<Rightarrow> 'd nodes" where
  "seq_next 0 al h = []"
| "seq_next (Suc fuel) al h =
     (case sym_seq al h [] R_NEXT of Ret (r, Some n, h') \<Rightarrow> if r = 0 then n # seq_next fuel al h' else [] | _ \<Rightarrow> [])"

definition seq_entries :: "nat \<Rightarrow> alloc \<Rightarrow> 'd symh \<Rightarrow> 'd nodes" where
  "seq_entries fuel al h =
     (case sym_seq al h [] R_FIRST of Ret (r, Some n, h') \<Rightarrow> if r = 0 then n # seq_next fuel al h' else [] | _ \<Rightarrow> [])"

lemma seq_next_drop:
  "cursor h = Some ([], i) \<Longrightarrow> length (sym h) \<le> Suc i + fuel \<Longrightarrow> seq_next fuel al h = drop (Suc i) (sym h)"
proof (induction fuel arbitrary: h i)
  case (Suc fuel)
  show ?case
  proof (cases "Suc i < length (sym h)")
    case True
    let ?h = "h\<lparr>cursor := Some ([], Suc i)\<rparr>"
    have "seq_next fuel al ?h = drop (Suc (Suc i)) (sym h)"
      using Suc.IH [of ?h "Suc i"] Suc.prems by simp
    with True Suc.prems show ?thesis by (simp add: sym_seq_def Cons_nth_drop_Suc)
  next
    case False
    with Suc.prems show ?thesis by (simp add: sym_seq_def)
  qed
qed simp

lemma seq_entries_sym: "length (sym h) \<le> Suc fuel \<Longrightarrow> seq_entries fuel al h = sym h"
  by (cases "sym h") (simp_all add: seq_entries_def sym_seq_def seq_next_drop)

subsection \<open>Freeing\<close>

fun block_path :: "block \<Rightarrow> string list" where
  "block_path (BData p) = p" | "block_path (BKey p) = p" | "block_path (BNode p) = p"

fun is_data_block :: "block \<Rightarrow> bool" where
  "is_data_block (BData p) = True" | "is_data_block _ = False"

text \<open>\<open>RM_DATA\<close> moves the place where a datum is freed, it does not decide whether it is freed.\<close>

lemma rm_data_blocks:
  fixes d :: "'d sdata" and ns :: "'d nodes"
  shows "filter is_data_block (sym_rm k r p d) @ (if r then free_data p d else []) = filter is_data_block (sym_rm k False p d)"
    and "filter is_data_block (rm_nodes k r p ns) = filter is_data_block (rm_nodes k False p ns)"
  by (induction k r p d and k r p ns rule: sym_rm_rm_nodes.induct) (auto simp: free_data_def)

lemma rm_paths:
  fixes d :: "'d sdata" and ns :: "'d nodes"
  shows "b \<in> set (sym_rm k r p d) \<Longrightarrow> prefix p (block_path b) \<and> (block_path b = p \<longrightarrow> b = BData p \<and> \<not> r)"
    and "b \<in> set (rm_nodes k r p ns) \<Longrightarrow> \<exists>x \<in> fst ` set ns. prefix (p @ [x]) (block_path b)"
proof (induction k r p d and k r p ns rule: sym_rm_rm_nodes.induct)
  case (3 k r p ns)
  then show ?case by (auto split: if_splits dest: append_prefixD)
next
  case (5 k r p x d rest)
  then show ?case by (auto simp: free_data_def split: if_splits)
qed (auto split: if_splits)

lemma rm_distinct:
  fixes d :: "'d sdata" and ns :: "'d nodes"
  shows "wf_data d \<Longrightarrow> distinct (sym_rm k r p d)"
    and "wf_nodes ns \<Longrightarrow> distinct (rm_nodes k r p ns)"
proof (induction k r p d and k r p ns rule: sym_rm_rm_nodes.induct)
  case (3 k r p ns)
  have "BData p \<notin> set (rm_nodes k r p ns)" using rm_paths(2) by fastforce
  with 3 show ?case by (cases r) simp_all
next
  case (5 k r p x d rest)
  let ?q = "p @ [x]"
  have own: "BKey ?q \<notin> set (sym_rm k r ?q d)" "BNode ?q \<notin> set (sym_rm k r ?q d)"
    "r \<Longrightarrow> BData ?q \<notin> set (sym_rm k r ?q d)"
    using rm_paths(1) [of _ k r ?q d] by force+
  have rest: "\<not> prefix ?q (block_path b)" if b: "b \<in> set (rm_nodes k r p rest)" for b
  proof
    assume pre: "prefix ?q (block_path b)"
    from rm_paths(2) [OF b] obtain y where y: "y \<in> fst ` set rest" "prefix (p @ [y]) (block_path b)" ..
    from pre y(2) have "x = y" by (auto simp: prefix_def)
    with 5(3) y(1) show False by auto
  qed
  have "set (sym_rm k r ?q d) \<inter> set (rm_nodes k r p rest) = {}"
    using rest rm_paths(1) by blast
  moreover have "BKey ?q \<notin> set (rm_nodes k r p rest)" "BNode ?q \<notin> set (rm_nodes k r p rest)"
    "BData ?q \<notin> set (rm_nodes k r p rest)"
    using rest by force+
  ultimately show ?case using 5 own by (cases r; cases k) (simp_all add: free_data_def)
qed (auto)

subsection \<open>The properties of the table\<close>

lemma blocked_iff:
  "blocked p ns \<longleftrightarrow> (\<exists>q nd. strict_prefix q p \<and> lookup q ns = Some nd \<and> (\<forall>sub. nd \<noteq> Table sub))"
  using blocked_prefix prefix_blocked by blast


definition pan_fields :: "int symh" where
  "pan_fields = \<lparr>sym = [(''mount'', Table [(''rtag'', Leaf 5)])], cursor = None\<rparr>"


fun sym_put_fields :: "'d symh \<Rightarrow> (string list \<times> 'd) list \<Rightarrow> 'd symh option" where
  "sym_put_fields h [] = Some h"
| "sym_put_fields h ((p, x) # rest) =
     (case sym_put0 h p (Leaf x) of Some (r, h') \<Rightarrow> if r = 0 then sym_put_fields h' rest else None | None \<Rightarrow> None)"

lemma sym_put_fields_all: "sym_put_fields h kvs = st.put_all h kvs"
  by (induction h kvs rule: sym_put_fields.induct) (auto split: option.splits)

text \<open>
  A record written with \<open>sym_put\<close>, field by field under pairwise independent keys into a
  well-formed table, reads back whole with \<open>sym_get\<close>, in whatever order it is read.
\<close>

theorem sym_fields_roundtrip:
  assumes "wf_nodes (sym h)" and "sym_put_fields h kvs = Some h'" and "\<forall>(p, x) \<in> set kvs. good_path p"
    and "sorted_wrt (\<lambda>(p, x) (q, y). independent q p) kvs" and "(p, x) \<in> set kvs"
  shows "sym_get good_alloc (Some h') (key_of p) = Ret (Leaf x)"
proof -
  have "(case sym_get0 h' p of Some (Leaf x) \<Rightarrow> Some x | _ \<Rightarrow> None) = Some x"
    using st.put_all_get [OF assms(1) assms(2) [unfolded sym_put_fields_all] assms(3-5)] .
  then show ?thesis by (auto simp: sym_get0_def split: option.splits sdata.splits outcome.splits)
qed

theorem sym_fields_roundtrip_witness:
  "\<exists>h'. sym_put_fields (newsym :: int symh) [([''a'', ''x''], 1), ([''b''], 2)] = Some h'
     \<and> sym_get good_alloc (Some h') (key_of [''a'', ''x'']) = Ret (Leaf 1)"
proof -
  obtain h' where h: "sym_put_fields (newsym :: int symh) [([''a'', ''x''], 1), ([''b''], 2)] = Some h'"
    by (simp add: sym_put0_def newsym_def sym_put_path good_path_def PUT_REPLACE_def add_chain_Cons add_key_def mknode_def)
  have "sym_get good_alloc (Some h') (key_of [''a'', ''x'']) = Ret (Leaf 1)"
    by (rule sym_fields_roundtrip [OF _ h]) (auto simp: newsym_def good_path_def independent_def)
  with h show ?thesis by blast
qed

text \<open>
  Stepping through a table with \<open>sym_seq\<close>, \<open>R_FIRST\<close> and then \<open>R_NEXT\<close> until it reports the end,
  yields every key with its datum exactly once, in the order in which they were put.
\<close>

theorem sym_seq_enumerates:
  "seq_entries (length (sym h)) al h = sym h"
  by (rule seq_entries_sym) simp

text \<open>
  On a well-formed table \<open>sym_rm\<close> frees no block twice; the data it frees, together with the
  header of the table itself, are the same with and without \<open>RM_DATA\<close>: the flag moves the call and
  leaks the header, it does not spare the caller's data.
\<close>

theorem sym_rm_frees:
  assumes "wf_nodes ns"
  shows "distinct (sym_rm rm_key rm_data [] (Table ns)) \<and>
    filter is_data_block (sym_rm rm_key True [] (Table ns)) @ [BData []] =
      filter is_data_block (sym_rm rm_key False [] (Table ns))"
  using rm_distinct(1) [of "Table ns"] rm_data_blocks(1) [of rm_key True "[]" "Table ns"] assms
  by (simp add: free_data_def)

theorem sym_rm_frees_witness:
  "distinct (sym_rm True False [] (Table [(''k'', Leaf (1 :: int))]))"
  using sym_rm_frees [of "[(''k'', Leaf (1 :: int))]" True False] by simp

end
