(* ===== verification/Pan_Collection.thy ===== *)
theory Pan_Collection
  imports Splitstr
begin

section \<open>pan/ltp-pan.c: the collection of commands\<close>

text \<open>
  How the driver reads its command file (\<open>slurp\<close>, \<open>get_collection\<close>), how it prepares the command
  line of one run (\<open>subst_pcnt_f\<close>) and how the child turns it into an \<open>exec\<close> call.  Allocation is
  taken to succeed, as the code does not test it.
\<close>

record coll_entry =
  ce_name :: string
  ce_cmdline :: string
  ce_pcnt_f :: bool

text \<open>The results of the system calls of \<open>slurp\<close>: errno values, whether \<open>read\<close> returned the size
  \<open>fstat\<close> had reported, and the bytes of the file.\<close>

record slurp_env =
  sl_open :: errno
  sl_fstat :: errno
  sl_read_ok :: bool
  sl_bytes :: string

definition slurp :: "slurp_env \<Rightarrow> string option" where
  "slurp env =
     (if sl_open env \<noteq> 0 then None
      else if sl_fstat env \<noteq> 0 then None
      else if \<not> sl_read_ok env then None
      else Some (sl_bytes env))"

subsection \<open>The lines of the command file\<close>

text \<open>The loop over \<open>strchr (a, '\n')\<close>: the text after the last newline is a line as well.\<close>

fun split_lines :: "string \<Rightarrow> string list" where
  "split_lines [] = [[]]"
| "split_lines (c # cs) =
     (if c = NL then [] # split_lines cs
      else case split_lines cs of [] \<Rightarrow> [[c]] | l # ls \<Rightarrow> (c # l) # ls)"

text \<open>\<open>if ((n->pcnt_f = strstr (a, "%f"))) n->pcnt_f[1] = 's'\<close>\<close>

fun set_pcnt_s :: "string \<Rightarrow> string" where
  "set_pcnt_s (c # d # cs) =
     (if c = CHR ''%'' \<and> d = CHR ''f'' then c # CHR ''s'' # cs else c # set_pcnt_s (d # cs))"
| "set_pcnt_s s = s"

definition has_pcnt_f :: "string \<Rightarrow> bool" where
  "has_pcnt_f s \<longleftrightarrow> strstr s ''%f'' \<noteq> None"

definition is_delim :: "char \<Rightarrow> bool" where
  "is_delim c \<longleftrightarrow> c = SPACE \<or> c = TAB"

datatype line_result = Skip_line | Entry_line coll_entry | No_command string

text \<open>One turn of the loop: \<open>strsep\<close> cuts the name off at the first blank (without one it leaves
  NULL), the blanks before the command are skipped.\<close>

definition coll_line :: "string \<Rightarrow> line_result" where
  "coll_line l =
     (if l = [] \<or> hd l = HASH \<or> hd l = SPACE then Skip_line
      else let a = set_pcnt_s l;
               name = takeWhile (\<lambda>c. \<not> is_delim c) a;
               cut = dropWhile (\<lambda>c. \<not> is_delim c) a;
               cmd = dropWhile is_space (tl cut)
           in if cut = [] \<or> cmd = [] then No_command name
              else Entry_line \<lparr>ce_name = name, ce_cmdline = cmd, ce_pcnt_f = has_pcnt_f l\<rparr>)"

fun coll_lines :: "string list \<Rightarrow> coll_entry list option" where
  "coll_lines [] = Some []"
| "coll_lines (l # ls) =
     (case coll_line l of
        Skip_line \<Rightarrow> coll_lines ls
      | No_command name \<Rightarrow> None
      | Entry_line e \<Rightarrow> map_option ((#) e) (coll_lines ls))"

subsection \<open>The command of the command line\<close>

text \<open>\<open>strncat\<close> on the array of 1024 characters: the bound is an \<open>int\<close> that the call converts to
  \<open>size_t\<close>, so a negative one does not bound anything; writing past the array is undefined.\<close>

definition strncat :: "string \<Rightarrow> string \<Rightarrow> int \<Rightarrow> string outcome" where
  "strncat work s left =
     (let t = work @ (if left < 0 then s else take (nat left) s)
      in if 1024 \<le> length t then Undefined ''write past workstr'' else Ret t)"

fun fill_args :: "string \<Rightarrow> int \<Rightarrow> string list \<Rightarrow> string outcome" where
  "fill_args work left [] = Ret work"
| "fill_args work left (a # as) =
     bind_outcome (strncat work a left) (\<lambda>work1.
     bind_outcome (strncat work1 '' '' (left - int (length a))) (\<lambda>work2.
       fill_args work2 (left - int (length a) - 1) as))"

definition get_collection :: "slurp_env \<Rightarrow> string list \<Rightarrow> coll_entry list option outcome" where
  "get_collection env args =
     (case slurp env of
        None \<Rightarrow> Ret None
      | Some buf \<Rightarrow>
        (case coll_lines (split_lines (takeWhile (\<lambda>c. c \<noteq> NUL) buf)) of
           None \<Rightarrow> Ret None
         | Some es \<Rightarrow>
             if args = [] then Ret (Some es)
             else bind_outcome (fill_args [] 1023 args) (\<lambda>work.
               Ret (Some (es @ [\<lparr>ce_name = ''cmdln'', ce_cmdline = set_pcnt_s work, ce_pcnt_f = has_pcnt_f work\<rparr>])))))"

subsection \<open>The command line of one run\<close>

text \<open>The command line is the format of an \<open>snprintf\<close> with one string argument.  A directive other
  than \<open>%s\<close> and \<open>%%\<close>, and a second \<open>%s\<close>, are counted as undefined.\<close>

fun format_args :: "string \<Rightarrow> string list \<Rightarrow> string outcome" where
  "format_args [] args = Ret []"
| "format_args [c] args = (if c = CHR ''%'' then Undefined ''incomplete directive'' else Ret [c])"
| "format_args (c # d # cs) args =
     (if c \<noteq> CHR ''%'' then bind_outcome (format_args (d # cs) args) (\<lambda>r. Ret (c # r))
      else if d = CHR ''%'' then bind_outcome (format_args cs args) (\<lambda>r. Ret (CHR ''%'' # r))
      else if d = CHR ''s'' \<and> args \<noteq> [] then bind_outcome (format_args cs (tl args)) (\<lambda>r. Ret (hd args @ r))
      else Undefined ''directive without its argument'')"

text \<open>The result and the next value of the static counter.\<close>

definition subst_pcnt_f :: "pid \<Rightarrow> nat \<Rightarrow> coll_entry \<Rightarrow> (string \<times> nat) outcome" where
  "subst_pcnt_f mypid counter e =
     (if \<not> ce_pcnt_f e then Ret (ce_cmdline e, counter)
      else bind_outcome (format_args (ce_cmdline e) [snprintf 20 (show_int mypid @ ''_'' @ show_nat counter)])
             (\<lambda>s. Ret (snprintf 1024 s, counter + 1)))"

text \<open>The child: a shell when the line has shell characters, else the words of the line.  With no
  word at all \<open>execvp\<close> gets a NULL name.\<close>

datatype exec_call = Exec_shell string | Exec_args "string list" | Exec_null

definition shell_chars :: string where
  "shell_chars = CHR 0x22 # CHR 0x27 # '';|<>$'' @ [CHR 0x5C]"

definition child_exec :: "alloc \<Rightarrow> string \<Rightarrow> exec_call outcome" where
  "child_exec al cmdline =
     (if \<exists>c \<in> set cmdline. c \<in> set shell_chars then Ret (Exec_shell cmdline)
      else bind_outcome (splitstr al (Some cmdline) None) (\<lambda>(arr, n).
        case arr of
          None \<Rightarrow> Undefined ''NULL dereference''
        | Some slots \<Rightarrow> (case read_array slots of [] \<Rightarrow> Ret Exec_null | ws \<Rightarrow> Ret (Exec_args ws))))"

subsection \<open>Reading the lines back\<close>

lemma split_lines_not_Nil [simp]: "split_lines s \<noteq> []"
  by (induction s) (auto split: list.splits)

lemma split_lines_line: "NL \<notin> set l \<Longrightarrow> split_lines (l @ NL # rest) = l # split_lines rest"
  by (induction l) auto

lemma split_lines_unlines:
  "\<forall>l \<in> set ls. NL \<notin> set l \<Longrightarrow> split_lines (concat (map (\<lambda>l. l @ [NL]) ls)) = ls @ [[]]"
  by (induction ls) (auto simp: split_lines_line)

lemma coll_lines_append_blank: "coll_lines (ls @ [[]]) = coll_lines ls"
  by (induction ls) (auto simp: coll_line_def split: line_result.splits)

lemma has_pcnt_f_Cons: "has_pcnt_f (c # s) \<longleftrightarrow> (c = CHR ''%'' \<and> s \<noteq> [] \<and> hd s = CHR ''f'') \<or> has_pcnt_f s"
  by (cases s) (auto simp: has_pcnt_f_def)

lemma set_pcnt_s_Cons: "c \<noteq> CHR ''%'' \<Longrightarrow> set_pcnt_s (c # s) = c # set_pcnt_s s"
  by (cases s) auto

lemma pcnt_append:
  "CHR ''%'' \<notin> set p \<Longrightarrow> set_pcnt_s (p @ s) = p @ set_pcnt_s s"
  "CHR ''%'' \<notin> set p \<Longrightarrow> has_pcnt_f (p @ s) = has_pcnt_f s"
  by (induction p) (auto simp: set_pcnt_s_Cons has_pcnt_f_Cons)

lemma set_pcnt_s_head: "s \<noteq> [] \<Longrightarrow> set_pcnt_s s \<noteq> [] \<and> hd (set_pcnt_s s) = hd s"
  by (induction s rule: set_pcnt_s.induct) auto

text \<open>A line of a command file as its author writes it: a comment, an empty line, or a tag, blanks and
  a command.\<close>

datatype src_line = Comment string | Blank | Command string string string

fun show_line :: "src_line \<Rightarrow> string" where
  "show_line (Comment t) = HASH # t"
| "show_line Blank = []"
| "show_line (Command n b c) = n @ b @ c"

fun line_ok :: "src_line \<Rightarrow> bool" where
  "line_ok (Command n b c) \<longleftrightarrow>
     n \<noteq> [] \<and> hd n \<noteq> HASH \<and> CHR ''%'' \<notin> set n \<and> (\<forall>x \<in> set n. \<not> is_delim x) \<and>
     b \<noteq> [] \<and> is_delim (hd b) \<and> (\<forall>x \<in> set b. is_space x) \<and> c \<noteq> [] \<and> \<not> is_space (hd c)"
| "line_ok _ \<longleftrightarrow> True"

fun line_entry :: "src_line \<Rightarrow> coll_entry list" where
  "line_entry (Command n b c) = [\<lparr>ce_name = n, ce_cmdline = set_pcnt_s c, ce_pcnt_f = has_pcnt_f c\<rparr>]"
| "line_entry _ = []"

lemma coll_line_command:
  assumes "line_ok (Command n b c)"
  shows "coll_line (n @ b @ c) = Entry_line \<lparr>ce_name = n, ce_cmdline = set_pcnt_s c, ce_pcnt_f = has_pcnt_f c\<rparr>"
proof -
  obtain x xs where n: "n = x # xs" using assms by (cases n) auto
  obtain y ys where b: "b = y # ys" using assms by (cases b) auto
  have "\<not> is_space (CHR ''%'')" by (simp add: is_space_def)
  then have sp: "CHR ''%'' \<notin> set b" using assms by auto
  have pc: "set_pcnt_s (n @ b @ c) = n @ b @ set_pcnt_s c" "has_pcnt_f (n @ b @ c) = has_pcnt_f c"
    using assms sp by (simp_all add: pcnt_append)
  have c: "set_pcnt_s c \<noteq> []" "\<not> is_space (hd (set_pcnt_s c))"
    using assms set_pcnt_s_head [of c] by auto
  have cut: "takeWhile (\<lambda>c. \<not> is_delim c) (n @ b @ set_pcnt_s c) = n"
    "dropWhile (\<lambda>c. \<not> is_delim c) (n @ b @ set_pcnt_s c) = b @ set_pcnt_s c"
    using assms by (simp_all add: b)
  have "dropWhile is_space (ys @ set_pcnt_s c) = set_pcnt_s c"
    using assms c by (simp add: b dropWhile_append2) (cases "set_pcnt_s c"; simp)
  then show ?thesis
    using assms c unfolding coll_line_def pc Let_def cut by (auto simp: n b is_delim_def)
qed

lemma coll_lines_show:
  "\<forall>l \<in> set ls. line_ok l \<Longrightarrow> coll_lines (map show_line ls) = Some (concat (map line_entry ls))"
proof (induction ls)
  case (Cons l ls)
  then show ?case using coll_line_command by (cases l) (auto simp: coll_line_def)
qed simp

subsection \<open>Collecting the arguments\<close>

lemma fill_args_full: "length work = 1023 \<Longrightarrow> left < 0 \<Longrightarrow> as \<noteq> [] \<Longrightarrow> \<not> is_ret (fill_args work left as)"
  by (cases as) (auto simp: strncat_def Let_def)

definition args_size :: "string list \<Rightarrow> nat" where
  "args_size as = sum_list (map (\<lambda>a. length a + 1) as)"

lemma fill_args_spec:
  "length work + left = 1023 \<Longrightarrow>
   fill_args work (int left) as = Ret r \<longleftrightarrow>
     args_size as \<le> left + 1 \<and> r = work @ take left (concat (map (\<lambda>a. a @ '' '') as))"
proof (induction as arbitrary: work left)
  case Nil
  then show ?case by (auto simp: args_size_def)
next
  case (Cons a as)
  consider "length a < left" | "length a = left" | "left < length a" by linarith
  then show ?case
  proof cases
    case 1
    let ?l = "left - length a - 1"
    have "fill_args (work @ a @ '' '') (int ?l) as = Ret r \<longleftrightarrow>
        args_size as \<le> ?l + 1 \<and> r = (work @ a @ '' '') @ take ?l (concat (map (\<lambda>a. a @ '' '') as))"
      using 1 Cons.prems by (intro Cons.IH) simp
    moreover have "int left - int (length a) - 1 = int ?l" "take (nat (int left - int (length a))) '' '' = '' ''"
      using 1 by (auto simp: take_Cons' nat_diff_distrib)
    ultimately show ?thesis
      using 1 Cons.prems by (auto simp: strncat_def Let_def args_size_def take_Cons' algebra_simps)
  next
    case 2
    have "is_ret (fill_args (work @ a) (- 1) as) \<longleftrightarrow> as = []"
      using fill_args_full [of "work @ a" "- 1" as] 2 Cons.prems by (cases "as = []") auto
    then have "fill_args (work @ a) (- 1) as = Ret r \<longleftrightarrow> as = [] \<and> r = work @ a"
      by (cases "as = []") (auto simp: is_ret_conv)
    then show ?thesis using 2 Cons.prems by (auto simp: strncat_def Let_def args_size_def neq_Nil_conv)
  next
    case 3
    then show ?thesis using Cons.prems by (auto simp: strncat_def Let_def args_size_def)
  qed
qed
subsection \<open>Formatting the command line\<close>

lemma format_args_plain: "CHR ''%'' \<notin> set s \<Longrightarrow> format_args s as = Ret s"
  by (induction s as rule: format_args.induct) auto

lemma format_args_append:
  "CHR ''%'' \<notin> set p \<Longrightarrow> s \<noteq> [] \<Longrightarrow> format_args (p @ s) as = bind_outcome (format_args s as) (\<lambda>r. Ret (p @ r))"
proof (induction p)
  case Nil
  then show ?case by (cases "format_args s as") auto
next
  case (Cons c p)
  obtain d cs where "p @ s = d # cs" using Cons.prems by (cases "p @ s") auto
  moreover have "c \<noteq> CHR ''%''" using Cons.prems by auto
  ultimately show ?case using Cons by (simp add: bind_outcome_assoc)
qed

lemma set_pcnt_s_first: "CHR ''%'' \<notin> set c1 \<Longrightarrow> set_pcnt_s (c1 @ ''%f'' @ c2) = c1 @ ''%s'' @ c2"
  by (simp add: pcnt_append)

lemma has_pcnt_f_first: "CHR ''%'' \<notin> set c1 \<Longrightarrow> has_pcnt_f (c1 @ ''%f'' @ c2)"
  by (simp add: pcnt_append has_pcnt_f_Cons)

lemma child_exec_eq:
  assumes "allocs al"
  shows "child_exec al cmdline =
    Ret (if \<exists>c \<in> set cmdline. c \<in> set shell_chars then Exec_shell cmdline
         else case strtok_all (sep_fun None) cmdline of [] \<Rightarrow> Exec_null | ws \<Rightarrow> Exec_args ws)"
proof -
  obtain arr n where a: "splitstr al (Some cmdline) None = Ret (Some arr, n)"
    using splitstr_eq [OF assms] by blast
  with read_array_splitstr(1) [OF assms a] show ?thesis
    by (auto simp: child_exec_def split: list.splits)
qed

subsection \<open>Verified properties\<close>

text \<open>
  C30: a command file written as comments, empty lines and lines of a tag, blanks and a command is read
  back as the list of its tags and commands in file order, with the first \<open>%f\<close> of each command turned
  into \<open>%s\<close> and noted; comments and empty lines leave no trace.
\<close>

theorem get_collection_roundtrip:
  assumes "\<forall>l \<in> set ls. line_ok l \<and> NL \<notin> set (show_line l) \<and> NUL \<notin> set (show_line l)"
  shows "get_collection \<lparr>sl_open = 0, sl_fstat = 0, sl_read_ok = True,
             sl_bytes = concat (map (\<lambda>l. show_line l @ [NL]) ls)\<rparr> [] =
         Ret (Some (concat (map line_entry ls)))"
proof -
  let ?txt = "concat (map (\<lambda>l. show_line l @ [NL]) ls)"
  have tw: "takeWhile (\<lambda>c. c \<noteq> NUL) ?txt = ?txt"
    using assms by (subst takeWhile_eq_all_conv) auto
  have sl: "split_lines ?txt = map show_line ls @ [[]]"
    using split_lines_unlines [of "map show_line ls"] assms by (simp add: comp_def)
  show ?thesis
    using coll_lines_show [of ls] assms
    by (simp add: get_collection_def slurp_def tw sl coll_lines_append_blank)
qed

theorem get_collection_roundtrip_witness:
  "get_collection \<lparr>sl_open = 0, sl_fstat = 0, sl_read_ok = True,
     sl_bytes = concat (map (\<lambda>l. show_line l @ [NL]) [Comment ''fs tests'', Command ''ftest01'' '' '' ''ftest -d %f'', Blank])\<rparr> [] =
   Ret (Some [\<lparr>ce_name = ''ftest01'', ce_cmdline = ''ftest -d %s'', ce_pcnt_f = True\<rparr>])"
proof -
  have "\<forall>l \<in> set [Comment ''fs tests'', Command ''ftest01'' '' '' ''ftest -d %f'', Blank].
      line_ok l \<and> NL \<notin> set (show_line l) \<and> NUL \<notin> set (show_line l)"
    by (simp add: is_delim_def is_space_def)
  from get_collection_roundtrip [OF this] show ?thesis
    by (simp add: has_pcnt_f_def)
qed

text \<open>
  The words given on the command line of the driver are collected into one command, each followed
  by a blank, without running past the array exactly when their length with the blanks is at most 1024
  (only the last blank is cut off there); beyond that the code writes past \<open>workstr\<close>.
\<close>

theorem fill_args_defined:
  "fill_args [] 1023 args = Ret r \<longleftrightarrow>
     args_size args \<le> 1024 \<and> r = take 1023 (concat (map (\<lambda>a. a @ '' '') args))"
  using fill_args_spec [of "[]" 1023 args r] by simp

text \<open>
  In a command with one \<open>%f\<close> and no other percent sign, \<open>subst_pcnt_f\<close> replaces the \<open>%f\<close> by the
  driver's pid and the run counter, and moves the counter on; any second \<open>%f\<close> makes the call undefined,
  as \<open>get_collection\<close> rewrites only the first and the line is used as the format.
\<close>

theorem subst_pcnt_f_replaces:
  assumes "CHR ''%'' \<notin> set c1" and "CHR ''%'' \<notin> set c2"
    and "line_entry (Command n b (c1 @ ''%f'' @ c2)) = [e]"
    and "line_entry (Command n b (c1 @ ''%f'' @ c2 @ ''%f'' @ c3)) = [e2]"
    and "unique = show_int mypid @ ''_'' @ show_nat counter"
    and "length unique < 20" and "length (c1 @ unique @ c2) < 1024"
  shows "subst_pcnt_f mypid counter e = Ret (c1 @ unique @ c2, counter + 1)
    \<and> \<not> is_ret (subst_pcnt_f mypid counter e2)"
proof -
  have "ce_pcnt_f e" "ce_cmdline e = c1 @ ''%s'' @ c2" "ce_pcnt_f e2" "ce_cmdline e2 = c1 @ ''%s'' @ c2 @ ''%f'' @ c3"
    using assms(3,4) set_pcnt_s_first [OF assms(1)] has_pcnt_f_first [OF assms(1)] by auto
  moreover have "subst_pcnt_f mypid counter x =
      bind_outcome (format_args (ce_cmdline x) [unique]) (\<lambda>s. Ret (snprintf 1024 s, counter + 1))" if "ce_pcnt_f x" for x
    unfolding subst_pcnt_f_def assms(5) [symmetric] using assms(6) that by (simp add: snprintf_def)
  moreover have "snprintf 1024 (c1 @ unique @ c2) = c1 @ unique @ c2"
    using assms(7) by (simp add: snprintf_def)
  moreover have "format_args (c1 @ ''%s'' @ c2) [unique] = Ret (c1 @ unique @ c2)"
    using assms(1,2) by (simp add: format_args_append format_args_plain)
  moreover have "\<not> is_ret (format_args (c2 @ ''%f'' @ c3) [])"
    using assms(2) by (simp add: format_args_append)
  ultimately show ?thesis
    using assms(1) by (auto simp: format_args_append is_ret_conv outcome_simps)
qed

theorem subst_pcnt_f_replaces_witness:
  "subst_pcnt_f 77 2 \<lparr>ce_name = ''t'', ce_cmdline = ''fsx /tmp/%s -l'', ce_pcnt_f = True\<rparr> = Ret (''fsx /tmp/77_2 -l'', 3)"
proof -
  have s: "show_int 77 = ''77''" "show_nat 2 = ''2''" by code_simp+
  show ?thesis
    using subst_pcnt_f_replaces [of "''fsx /tmp/''" "'' -l''" "''t''" "'' ''"
        "\<lparr>ce_name = ''t'', ce_cmdline = ''fsx /tmp/%s -l'', ce_pcnt_f = True\<rparr>" "[]"
        "\<lparr>ce_name = ''t'', ce_cmdline = ''fsx /tmp/%s -l%f'', ce_pcnt_f = True\<rparr>" "''77_2''" 77 2]
    by (simp add: s has_pcnt_f_def)
qed

text \<open>
  A command line put together from words without white space, in which no shell character occurs,
  is executed directly with exactly those words as its argument vector; a line with a shell character
  is handed to the shell unchanged.
\<close>

theorem child_exec_words:
  assumes "allocs al" and "ws \<noteq> []"
    and "\<forall>w \<in> set ws. w \<noteq> [] \<and> (\<forall>c \<in> set w. \<not> sep_fun None c)"
  shows "child_exec al (join_with SPACE ws) =
    Ret (if \<exists>w \<in> set ws. \<exists>c \<in> set w. c \<in> set shell_chars then Exec_shell (join_with SPACE ws) else Exec_args ws)"
proof -
  have ws: "strtok_all (sep_fun None) (join_with SPACE ws) = ws"
    by (rule strtok_all_join) (use assms(3) in \<open>auto simp: default_separator_def\<close>)
  have "set (join_with SPACE ws) - {SPACE} = \<Union> (set ` set ws) - {SPACE}"
    by (induction ws rule: join_with.induct) auto
  moreover have "SPACE \<notin> set shell_chars" by (simp add: shell_chars_def)
  ultimately have "(\<exists>c \<in> set (join_with SPACE ws). c \<in> set shell_chars) \<longleftrightarrow> (\<exists>c \<in> \<Union> (set ` set ws). c \<in> set shell_chars)"
    by (metis Diff_iff singletonD)
  with ws show ?thesis using assms(1,2) by (simp add: child_exec_eq split: list.split)
qed

theorem child_exec_words_witness:
  "child_exec good_alloc (join_with SPACE [''mount01'', ''-D'']) = Ret (Exec_args [''mount01'', ''-D''])"
  using child_exec_words [of good_alloc "[''mount01'', ''-D'']"] by (simp add: default_separator_def shell_chars_def)
end
