(* ===== verification/Pan_State.thy ===== *)
theory Pan_State
  imports Pan_Collection Zoo_Spec
begin

section \<open>pan/ltp-pan.c: the state of the driver, its signals and its output\<close>

text \<open>
  The variables of \<open>main\<close> and the globals of the file form one record; the options that do not change
  while tests run form another.  What the driver does to other processes and to the file system is
  recorded in the order it happens.  Messages on stderr are not modelled.
\<close>

definition PAN_TCONF :: nat where "PAN_TCONF = 32"

record tag_pgrp =
  pgrp :: pid
  stopping :: bool
  mystime :: int
  cmd :: "coll_entry option"
  out_file :: string

datatype effect = Kill_group pid signo | Spawn pid string | Unlink string | Kmsg string | Attempt coll_entry

record pan_cfg =
  panname :: string
  coll :: "coll_entry list"
  sequential :: bool
  has_brakes :: bool
  track_exit_stats :: bool
  fmt_print :: bool
  quiet_mode :: bool
  no_kmsg :: bool
  logging :: bool
  failcmds :: bool
  tconfcmds :: bool
  test_out_dir :: "string option"
  reporttype :: string
  mypid :: pid

record pan_state =
  running :: "tag_pgrp list"
  num_active :: int
  starts :: int
  cidx :: nat
  stop :: nat
  go_idle :: nat
  fork_in_road :: bool
  exit_stat :: int
  failcnt :: nat
  tconfcnt :: nat
  rec_signal :: signo
  send_signal :: signo
  lastsent :: signo
  orphans :: "pid list"
  zoofile :: zoo
  cmdno :: nat
  pcnt_no :: nat
  logtxt :: string
  failtxt :: string
  tconftxt :: string
  outtxt :: string
  effects :: "effect list"

definition put_out :: "string \<Rightarrow> pan_state \<Rightarrow> pan_state" where
  "put_out t st = st\<lparr>outtxt := outtxt st @ t\<rparr>"

definition act :: "effect list \<Rightarrow> pan_state \<Rightarrow> pan_state" where
  "act es st = st\<lparr>effects := effects st @ es\<rparr>"

definition set_slot :: "nat \<Rightarrow> (tag_pgrp \<Rightarrow> tag_pgrp) \<Rightarrow> pan_state \<Rightarrow> pan_state" where
  "set_slot i f st = st\<lparr>running := (running st)[i := f (running st ! i)]\<rparr>"

subsection \<open>The signal ratchet\<close>

definition wait_handler :: "signo \<Rightarrow> pan_state \<Rightarrow> pan_state" where
  "wait_handler sig st =
     (if sig = 0 then st\<lparr>lastsent := 0\<rparr>
      else let st1 = st\<lparr>rec_signal := sig\<rparr>
           in if sig = SIGUSR2 then st1
              else let s = (if lastsent st = 0 then sig
                            else if lastsent st = SIGUSR1 then SIGINT
                            else if lastsent st = sig then SIGTERM
                            else if lastsent st = SIGTERM then SIGHUP
                            else if lastsent st = SIGHUP then SIGKILL
                            else send_signal st)
                   in st1\<lparr>send_signal := s, lastsent := s\<rparr>)"

text \<open>Signals that arrive while a step runs: the handler touches only the three signal variables,
  which the step does not read.\<close>

definition deliver :: "signo list \<Rightarrow> pan_state \<Rightarrow> pan_state" where
  "deliver sigs st = fold wait_handler sigs st"

subsection \<open>Orphaned process groups\<close>

text \<open>\<open>ke p\<close> is the errno of \<open>kill (-p, sig)\<close> (0 for success), \<open>ze p\<close> the system calls of the
  \<open>zoo_clear\<close> for \<open>p\<close>.  A failing \<open>zoo_clear\<close> is only reported.\<close>

fun check_orphans ::
  "(pid \<Rightarrow> errno) \<Rightarrow> (pid \<Rightarrow> zoo_env) \<Rightarrow> signo \<Rightarrow> pid list \<Rightarrow> zoo \<Rightarrow> (pid list \<times> zoo \<times> effect list) option" where
  "check_orphans ke ze sig [] z = Some ([], z, [])"
| "check_orphans ke ze sig (p # ps) z =
     (if p = 0 then map_option (\<lambda>(qs, z', es). (p # qs, z', es)) (check_orphans ke ze sig ps z)
      else if ke p = ESRCH
      then (case zoo_clear (ze p) z p of
              None \<Rightarrow> None
            | Some (r, z1) \<Rightarrow>
                map_option (\<lambda>(qs, z', es). (0 # qs, z', Kill_group p sig # es)) (check_orphans ke ze sig ps z1))
      else map_option (\<lambda>(qs, z', es). (p # qs, z', Kill_group p sig # es)) (check_orphans ke ze sig ps z))"

text \<open>The first node of the list is the head that \<open>main\<close> allocates.\<close>

definition mark_orphan :: "pid list \<Rightarrow> pid \<Rightarrow> pid list" where
  "mark_orphan orphs cpid =
     (if 0 \<in> set orphs then update_first (\<lambda>p. p = 0) (\<lambda>_. cpid) orphs
      else hd orphs # cpid # tl orphs)"

definition run_check_orphans :: "(pid \<Rightarrow> errno) \<Rightarrow> (pid \<Rightarrow> zoo_env) \<Rightarrow> signo \<Rightarrow> pan_state \<Rightarrow> pan_state option" where
  "run_check_orphans ke ze sig st =
     map_option (\<lambda>(qs, z, es). act es (st\<lparr>orphans := qs, zoofile := z\<rparr>)) (check_orphans ke ze sig (orphans st) (zoofile st))"

definition propagate_signal :: "(pid \<Rightarrow> errno) \<Rightarrow> (pid \<Rightarrow> zoo_env) \<Rightarrow> pan_state \<Rightarrow> pan_state option" where
  "propagate_signal ke ze st =
     (let st1 = (if rec_signal st = SIGALRM
                 then put_out (''PAN stop Alarm was received'' @ [NL]) (st\<lparr>rec_signal := SIGTERM\<rparr>) else st);
          st2 = act (map (\<lambda>s. Kill_group (pgrp s) (send_signal st)) (filter (\<lambda>s. pgrp s \<noteq> 0) (running st)))
                  (st1\<lparr>running := map (\<lambda>s. if pgrp s = 0 then s else s\<lparr>stopping := True\<rparr>) (running st)\<rparr>)
      in map_option (\<lambda>st3. st3\<lparr>rec_signal := 0, send_signal := 0\<rparr>) (run_check_orphans ke ze (send_signal st) st2))"

subsection \<open>Wait statuses\<close>

text \<open>The macros of \<open>sys/wait.h\<close> on a status word, and the chain of tests the driver makes with them.\<close>

definition wtermsig :: "nat \<Rightarrow> nat" where "wtermsig s = s mod 128"
definition wifexited :: "nat \<Rightarrow> bool" where "wifexited s \<longleftrightarrow> wtermsig s = 0"
definition wifsignaled :: "nat \<Rightarrow> bool" where "wifsignaled s \<longleftrightarrow> 0 < wtermsig s \<and> wtermsig s < 127"
definition wifstopped :: "nat \<Rightarrow> bool" where "wifstopped s \<longleftrightarrow> s mod 256 = 127"
definition wexitstatus :: "nat \<Rightarrow> nat" where "wexitstatus s = s div 256 mod 256"

definition child_status :: "nat \<Rightarrow> nat \<times> string" where
  "child_status s =
     (if wifsignaled s then (wtermsig s, ''signaled'')
      else if wifexited s then (wexitstatus s, ''exited'')
      else if wifstopped s then (wexitstatus s, ''stopped'')
      else (0, ''unknown''))"

definition core_text :: "nat \<Rightarrow> string" where
  "core_text s = (if s div 128 mod 2 = 1 then ''yes'' else ''no'')"

subsection \<open>Output\<close>

text \<open>A line of the log file, in the plain form and in the form of option \<open>-p\<close>.\<close>

definition log_plain :: "string \<Rightarrow> int \<Rightarrow> int \<Rightarrow> string \<Rightarrow> nat \<Rightarrow> nat \<Rightarrow> int \<Rightarrow> int \<Rightarrow> string" where
  "log_plain name stime dur how w stat_loc cu cs =
     ''tag='' @ name @ '' stime='' @ show_int (wrap32 stime) @ '' dur='' @ show_int (wrap32 dur) @ '' exit='' @ how
     @ '' stat='' @ show_nat w @ '' core='' @ core_text stat_loc @ '' cu='' @ show_int (wrap32 cu)
     @ '' cs='' @ show_int (wrap32 cs) @ [NL]"

definition result_fmt :: "string \<Rightarrow> string \<Rightarrow> string" where
  "result_fmt name result = ljust 50 name @ '' '' @ ljust 10 (take 10 result)"

definition log_formatted :: "string \<Rightarrow> string \<Rightarrow> nat \<Rightarrow> string" where
  "log_formatted name result w = result_fmt name result @ '' '' @ ljust 5 (show_nat w) @ [NL]"

definition quoted :: "string \<Rightarrow> string" where
  "quoted s = CHR 0x22 # s @ [CHR 0x22]"

definition start_text :: "coll_entry \<Rightarrow> int \<Rightarrow> string" where
  "start_text e stime =
     ''<<<test_start>>>'' @ [NL] @ ''tag='' @ ce_name e @ '' stime='' @ show_int stime @ [NL]
     @ ''cmdline='' @ quoted (ce_cmdline e) @ [NL] @ ''contacts='' @ quoted [] @ [NL] @ ''analysis=exit'' @ [NL]
     @ ''<<<test_output>>>'' @ [NL]"

definition end_text :: "string \<Rightarrow> int \<Rightarrow> string \<Rightarrow> nat \<Rightarrow> nat \<Rightarrow> int \<Rightarrow> int \<Rightarrow> string" where
  "end_text init_status dur term_type term_id stat_loc cu cs =
     ''<<<execution_status>>>'' @ [NL] @ ''initiation_status='' @ quoted init_status @ [NL]
     @ ''duration='' @ show_int dur @ '' termination_type='' @ term_type @ '' termination_id='' @ show_nat term_id
     @ '' corefile='' @ core_text stat_loc @ [NL] @ ''cutime='' @ show_int (wrap32 cu) @ '' cstime='' @ show_int (wrap32 cs) @ [NL]
     @ ''<<<test_end>>>'' @ [NL]"

text \<open>\<open>kmsg_ok\<close>: whether \<open>/dev/kmsg\<close> can be opened.\<close>

definition write_kmsg :: "bool \<Rightarrow> string \<Rightarrow> pan_state \<Rightarrow> pan_state run" where
  "write_kmsg kmsg_ok t st = (if \<not> kmsg_ok then Some (Exits 1) else Some (Ret (act [Kmsg t] st)))"

definition write_test_start :: "pan_cfg \<Rightarrow> bool \<Rightarrow> coll_entry \<Rightarrow> int \<Rightarrow> pan_state \<Rightarrow> pan_state run" where
  "write_test_start cfg kmsg_ok e stime st =
     (let st1 = (if reporttype cfg = ''rts'' then put_out (start_text e stime) st else st)
      in if no_kmsg cfg then Some (Ret st1)
         else if ce_name e \<noteq> ce_cmdline e
              then write_kmsg kmsg_ok (''LTP: starting '' @ ce_name e @ '' ('' @ ce_cmdline e @ '')'' @ [NL]) st1
              else write_kmsg kmsg_ok (''LTP: starting '' @ ce_name e @ [NL]) st1)"

definition write_test_end ::
  "pan_cfg \<Rightarrow> string \<Rightarrow> int \<Rightarrow> string \<Rightarrow> nat \<Rightarrow> nat \<Rightarrow> int \<Rightarrow> int \<Rightarrow> pan_state \<Rightarrow> pan_state" where
  "write_test_end cfg init_status dur term_type stat_loc term_id cu cs st =
     (if reporttype cfg = ''rts'' then put_out (end_text init_status dur term_type term_id stat_loc cu cs) st else st)"

text \<open>An empty output file makes the test for a final newline read before the buffer.\<close>

definition copy_buffered_output :: "slurp_env \<Rightarrow> pan_state \<Rightarrow> pan_state run" where
  "copy_buffered_output env st =
     (case slurp env of
        None \<Rightarrow> Some (Ret st)
      | Some bytes \<Rightarrow>
          let t = takeWhile (\<lambda>c. c \<noteq> NUL) bytes
          in if t = [] then Some (Undefined ''tag_output[-1]'')
             else Some (Ret (put_out (t @ (if last t \<noteq> NL then [NL] else [])) st)))"

end
