(* ===== verification/Pan_Driver.thy ===== *)
theory Pan_Driver
  imports Pan_State
begin

section \<open>pan/ltp-pan.c: running the tests\<close>

text \<open>
  The operations of the driver in the order of the code: starting a child, collecting one, the
  scheduling loop, the wait for orphaned groups, the end of \<open>main\<close>.  Each takes the results of its
  system calls as an argument; a loop takes the list of the results of its turns and has no result
  (\<open>None\<close>) when the list ends before the loop does.
\<close>

subsection \<open>run_child\<close>

text \<open>\<open>re_fail\<close>: when the child could not \<open>exec\<close>, its message, its wait status and the time.\<close>

record run_env =
  re_opens :: "errno list"
  re_pipe :: errno
  re_time :: int
  re_kmsg :: bool
  re_fork :: errno
  re_pid :: pid
  re_fail :: "(string \<times> nat \<times> int) option"
  re_zoo :: zoo_env
  re_sigs :: "signo list"

text \<open>The loop that looks for an unused name for the output file.\<close>

fun open_output :: "string \<Rightarrow> string \<Rightarrow> nat \<Rightarrow> errno list \<Rightarrow> (errno \<times> string \<times> nat) run" where
  "open_output dir name n [] = None"
| "open_output dir name n (e # es) =
     (let path = dir @ ''/'' @ name @ ''.'' @ show_nat n
      in if 4096 \<le> length path then Some (Undefined ''write past output'')
         else if e = EEXIST then open_output dir name (n + 1) es
         else Some (Ret (e, path, n + 1)))"

definition discard_output :: "pan_cfg \<Rightarrow> nat \<Rightarrow> pan_state \<Rightarrow> pan_state" where
  "discard_output cfg i st = (if test_out_dir cfg = None then st else act [Unlink (out_file (running st ! i))] st)"

text \<open>The log entry and the counter for a child that did not start.\<close>

definition log_no_exec :: "pan_cfg \<Rightarrow> coll_entry \<Rightarrow> int \<Rightarrow> int \<Rightarrow> nat \<Rightarrow> pan_state \<Rightarrow> pan_state" where
  "log_no_exec cfg e stime end_time status st =
     (let (termid, termtype) = child_status status
      in if \<not> logging cfg then st
         else if \<not> fmt_print cfg
         then st\<lparr>logtxt := logtxt st @ log_plain (ce_name e) stime (end_time - stime) termtype termid status 0 0\<rparr>
         else st\<lparr>failcnt := failcnt st + (if termid \<noteq> 0 then 1 else 0),
                 logtxt := logtxt st @ log_formatted (ce_name e) (if termid \<noteq> 0 then ''FAIL'' else ''PASS'') termid\<rparr>)"

definition prepare_output :: "pan_cfg \<Rightarrow> run_env \<Rightarrow> nat \<Rightarrow> coll_entry \<Rightarrow> pan_state \<Rightarrow> (errno \<times> pan_state) run" where
  "prepare_output cfg env i e st =
     (case test_out_dir cfg of
        None \<Rightarrow> Some (Ret (0, st))
      | Some dir \<Rightarrow>
          bind_run (open_output dir (ce_name e) (cmdno st) (re_opens env)) (\<lambda>(err, path, n).
            Some (Ret (err, set_slot i (\<lambda>s. s\<lparr>out_file := path\<rparr>) (st\<lparr>cmdno := n\<rparr>)))))"

text \<open>The parent after \<open>fork\<close>.\<close>

definition run_parent :: "pan_cfg \<Rightarrow> run_env \<Rightarrow> nat \<Rightarrow> coll_entry \<Rightarrow> pan_state \<Rightarrow> (pid \<times> pan_state) run" where
  "run_parent cfg env i e st =
     (case re_fail env of
        Some (errbuf, status, end_time) \<Rightarrow>
          let (termid, termtype) = child_status status;
              st1 = log_no_exec cfg e (re_time env) end_time status st;
              st2 = (if quiet_mode cfg then st1
                     else write_test_end cfg errbuf (end_time - re_time env) termtype status termid 0 0 st1)
          in Some (Ret (-1, discard_output cfg i st2))
      | None \<Rightarrow>
          let st1 = set_slot i (\<lambda>s. s\<lparr>pgrp := re_pid env, stopping := False\<rparr>) st
          in case zoo_mark_cmdline (re_zoo env) (zoofile st1) (re_pid env) (ce_name e) (ce_cmdline e) of
               None \<Rightarrow> None
             | Some (r, z) \<Rightarrow> if r \<noteq> 0 then Some (Exits 1) else Some (Ret (re_pid env, st1\<lparr>zoofile := z\<rparr>)))"

text \<open>From \<open>pipe\<close> on, with the command line ready.\<close>

definition launch_child :: "pan_cfg \<Rightarrow> run_env \<Rightarrow> nat \<Rightarrow> coll_entry \<Rightarrow> string \<Rightarrow> pan_state \<Rightarrow> (pid \<times> pan_state) run" where
  "launch_child cfg env i e c_cmdline st1 =
     (if re_pipe env \<noteq> 0 then Some (Ret (-1, discard_output cfg i st1))
      else let st2 = set_slot i (\<lambda>s. s\<lparr>mystime := re_time env, cmd := Some e\<rparr>) st1
      in bind_run (if test_out_dir cfg = None \<and> \<not> quiet_mode cfg
                   then write_test_start cfg (re_kmsg env) e (re_time env) st2 else Some (Ret st2)) (\<lambda>st3.
           if re_fork env \<noteq> 0 then Some (Ret (-1, discard_output cfg i st3))
           else run_parent cfg env i e (act [Spawn (re_pid env) c_cmdline] st3)))"

definition run_child :: "pan_cfg \<Rightarrow> run_env \<Rightarrow> nat \<Rightarrow> coll_entry \<Rightarrow> pan_state \<Rightarrow> (pid \<times> pan_state) run" where
  "run_child cfg env i e st =
     bind_run (prepare_output cfg env i e (act [Attempt e] st)) (\<lambda>(err, st0).
       if err \<noteq> 0 then Some (Ret (-1, st0))
       else bind_run (Some (subst_pcnt_f (mypid cfg) (pcnt_no st0) e)) (\<lambda>(c_cmdline, k).
         launch_child cfg env i e c_cmdline (st0\<lparr>pcnt_no := k\<rparr>)))"

subsection \<open>check_pids\<close>

record wait_env =
  we_orphans :: "pid \<Rightarrow> errno"
  we_ozoo :: "pid \<Rightarrow> zoo_env"
  we_err :: errno
  we_pid :: pid
  we_status :: nat
  we_time :: int
  we_cu :: int
  we_cs :: int
  we_kmsg :: bool
  we_output :: slurp_env
  we_zclear :: zoo_env
  we_group :: errno
  we_zmark :: zoo_env
  we_sigs :: "signo list"

text \<open>What is written about a collected child: the log, the totals, and the lists of failed and of
  unsupported commands.\<close>

definition log_result :: "pan_cfg \<Rightarrow> wait_env \<Rightarrow> coll_entry \<Rightarrow> int \<Rightarrow> nat \<Rightarrow> string \<Rightarrow> pan_state \<Rightarrow> pan_state" where
  "log_result cfg env e stime w how st =
     (if \<not> logging cfg then st
      else if \<not> fmt_print cfg
      then st\<lparr>logtxt := logtxt st @
             log_plain (ce_name e) stime (we_time env - stime) how w (we_status env) (we_cu env) (we_cs env)\<rparr>
      else if how = ''exited'' \<and> w = PAN_TCONF
      then st\<lparr>tconfcnt := tconfcnt st + 1, logtxt := logtxt st @ log_formatted (ce_name e) ''CONF'' w\<rparr>
      else if w \<noteq> 0
      then st\<lparr>failcnt := failcnt st + 1, logtxt := logtxt st @ log_formatted (ce_name e) ''FAIL'' w\<rparr>
      else st\<lparr>logtxt := logtxt st @ log_formatted (ce_name e) ''PASS'' w\<rparr>)"

definition note_command :: "pan_cfg \<Rightarrow> coll_entry \<Rightarrow> nat \<Rightarrow> pan_state \<Rightarrow> pan_state" where
  "note_command cfg e w st =
     (let line = ce_name e @ '' '' @ ce_cmdline e @ [NL]
      in if w = 0 then st
         else if tconfcmds cfg \<and> w = PAN_TCONF then st\<lparr>tconftxt := tconftxt st @ line\<rparr>
         else if failcmds cfg then st\<lparr>failtxt := failtxt st @ line\<rparr>
         else st)"

text \<open>Releasing the slot, the line of the zoo and, if the group lives on, taking it up as an orphan.\<close>

definition release_slot :: "wait_env \<Rightarrow> nat \<Rightarrow> coll_entry \<Rightarrow> pan_state \<Rightarrow> pan_state run" where
  "release_slot env i e st =
     (let st1 = set_slot i (\<lambda>s. s\<lparr>pgrp := 0\<rparr>) st
      in case zoo_clear (we_zclear env) (zoofile st1) (we_pid env) of
           None \<Rightarrow> None
         | Some (r, z) \<Rightarrow>
             if r \<noteq> 0 then Some (Exits 1)
             else if we_group env = 0 \<or> we_group env = EPERM
             then (case zoo_mark_cmdline (we_zmark env) z (we_pid env) ''panorphan'' (ce_cmdline e) of
                     None \<Rightarrow> None
                   | Some (q, z2) \<Rightarrow>
                       if q \<noteq> 0 then Some (Exits 1)
                       else Some (Ret (act [Kill_group (we_pid env) SIGTERM]
                              (st1\<lparr>zoofile := z2, orphans := mark_orphan (orphans st1) (we_pid env)\<rparr>))))
             else Some (Ret (st1\<lparr>zoofile := z\<rparr>)))"

definition report_end :: "pan_cfg \<Rightarrow> wait_env \<Rightarrow> nat \<Rightarrow> coll_entry \<Rightarrow> nat \<Rightarrow> string \<Rightarrow> pan_state \<Rightarrow> pan_state run" where
  "report_end cfg env i e w how st =
     (let stime = mystime (running st ! i)
      in bind_run
           (if test_out_dir cfg = None then Some (Ret st)
            else bind_run (if quiet_mode cfg then Some (Ret st) else write_test_start cfg (we_kmsg env) e stime st)
                   (\<lambda>st1. bind_run (copy_buffered_output (we_output env) st1)
                     (\<lambda>st2. Some (Ret (act [Unlink (out_file (running st ! i))] st2)))))
           (\<lambda>st3. Some (Ret (if quiet_mode cfg then st3
              else write_test_end cfg ''ok'' (we_time env - stime) how (we_status env) w (we_cu env) (we_cs env) st3))))"

definition reap_slot :: "pan_cfg \<Rightarrow> wait_env \<Rightarrow> nat \<Rightarrow> int \<Rightarrow> pan_state \<Rightarrow> (int \<times> pan_state) run" where
  "reap_slot cfg env i ret st =
     (let slot = running st ! i;
          (w0, how) = child_status (we_status env);
          undo = (w0 = 130 \<and> stopping slot \<and> how = ''exited'');
          w = (if undo then 0 else w0);
          ret1 = (if undo then ret - 1 else ret);
          ret2 = (if how = ''signaled'' \<and> \<not> stopping slot then ret1 + 1 else ret1)
      in case cmd slot of
           None \<Rightarrow> Some (Undefined ''NULL dereference'')
         | Some e \<Rightarrow>
             bind_run (report_end cfg env i e w (if stopping slot then ''driver_interrupt'' else how)
                         (note_command cfg e w (log_result cfg env e (mystime slot) w how st))) (\<lambda>st1.
             bind_run (release_slot env i e st1) (\<lambda>st2. Some (Ret (ret2, st2)))))"

definition check_pids :: "pan_cfg \<Rightarrow> wait_env \<Rightarrow> pan_state \<Rightarrow> (int \<times> pan_state) run" where
  "check_pids cfg env st =
     (case run_check_orphans (we_orphans env) (we_ozoo env) 0 st of
        None \<Rightarrow> None
      | Some st1 \<Rightarrow>
          if we_err env \<noteq> 0 then Some (Ret (0, deliver (we_sigs env) st1))
          else let (w, how) = child_status (we_status env);
                   over = (how = ''signaled'' \<or> how = ''exited'');
                   st2 = (if over then st1\<lparr>num_active := num_active st1 - 1\<rparr> else st1);
                   ret = (if how = ''signaled'' \<or> how = ''exited'' \<and> (w = 0 \<or> w = PAN_TCONF) then 0 else 1)
               in case first_index (\<lambda>s. pgrp s = we_pid env) (running st2) of
                    None \<Rightarrow> Some (Ret (ret, deliver (we_sigs env) st2))
                  | Some i \<Rightarrow>
                      bind_run (reap_slot cfg env i ret st2) (\<lambda>(r, st3). Some (Ret (r, deliver (we_sigs env) st3))))"

end
