(* ===== verification/Pan_Main.thy ===== *)
theory Pan_Main
  imports Pan_Driver
begin

section \<open>pan/ltp-pan.c: main\<close>

text \<open>
  \<open>main\<close> of the driver: the option loop, the set-up until the zoo file is open, the scheduling loop and the end.
  The operations that they call are those of \<open>Pan_Driver\<close>.
\<close>

subsection \<open>Options\<close>

text \<open>The variables the option loop sets.  The debug level (\<open>-d\<close>) only selects messages on stderr and
  is left out.\<close>

record pan_opts =
  o_panname :: "string option"
  o_zooname :: "string option"
  o_filename :: string
  o_logname :: "string option"
  o_failname :: "string option"
  o_tconfname :: "string option"
  o_outname :: "string option"
  o_out_dir :: "string option"
  o_report :: "string option"
  o_brakes :: bool
  o_track :: bool
  o_sequential :: bool
  o_no_kmsg :: bool
  o_fmt :: bool
  o_quiet :: bool
  o_fork_in_road :: bool
  o_starts :: int
  o_timed :: bool
  o_run_time :: int
  o_modifier :: char
  o_keep_active :: int
  o_stdout :: string

definition default_opts :: pan_opts where
  "default_opts = \<lparr>o_panname = None, o_zooname = None, o_filename = ''/dev/null'', o_logname = None,
     o_failname = None, o_tconfname = None, o_outname = None, o_out_dir = None, o_report = None,
     o_brakes = False, o_track = False, o_sequential = False, o_no_kmsg = False, o_fmt = False,
     o_quiet = False, o_fork_in_road = False, o_starts = -1, o_timed = False, o_run_time = -1,
     o_modifier = CHR ''m'', o_keep_active = 1, o_stdout = []\<rparr>"

text \<open>\<open>sscanf (s, "%d%c", &run_time, &modifier)\<close>: the number of conversions and the two variables.\<close>

definition sscanf_time :: "string \<Rightarrow> int \<Rightarrow> char \<Rightarrow> int \<times> int \<times> char" where
  "sscanf_time s run_time modifier =
     (let t = dropWhile is_space s; u = snd (read_sign t); r = dropWhile is_digit u
      in if t = [] then (-1, run_time, modifier)
         else if takeWhile is_digit u = [] then (0, run_time, modifier)
         else case r of [] \<Rightarrow> (1, atoi s, modifier) | c # _ \<Rightarrow> (2, atoi s, c))"

definition seconds_of :: "int \<Rightarrow> char \<Rightarrow> int outcome" where
  "seconds_of n m =
     (let v = (if m = CHR ''s'' then Some n else if m = CHR ''m'' then Some (n * 60)
               else if m = CHR ''h'' then Some (n * 3600) else if m = CHR ''d'' then Some (n * 86400) else None)
      in case v of None \<Rightarrow> Exits (-1)
         | Some x \<Rightarrow> if INT_MIN \<le> x \<and> x \<le> INT_MAX then Ret x else Undefined ''signed overflow'')"

definition time_option :: "string \<Rightarrow> pan_opts \<Rightarrow> pan_opts outcome" where
  "time_option arg o1 =
     (let (ret, n, m) = sscanf_time arg (o_run_time o1) (o_modifier o1); o2 = o1\<lparr>o_run_time := n, o_modifier := m\<rparr>
      in if ret = 0 then Ret o2
         else if ret = 1 then Ret (o2\<lparr>o_timed := True\<rparr>)
         else bind_outcome (seconds_of n m) (\<lambda>x.
           Ret (o2\<lparr>o_run_time := x, o_timed := True,
                   o_stdout := o_stdout o2 @ (if o_quiet o2 then []
                      else ''PAN will run for '' @ show_int x @ '' seconds'' @ [NL])\<rparr>)))"

text \<open>One turn of the option loop, for an option letter and its argument.\<close>

definition apply_option :: "char \<times> string \<Rightarrow> pan_opts \<Rightarrow> pan_opts outcome" where
  "apply_option ca o1 =
     (let (c, arg) = ca
      in if c = CHR ''A'' then Ret (o1\<lparr>o_brakes := True, o_track := True\<rparr>)
         else if c = CHR ''O'' then Ret (o1\<lparr>o_out_dir := Some arg\<rparr>)
         else if c = CHR ''S'' then Ret (o1\<lparr>o_sequential := True\<rparr>)
         else if c = CHR ''a'' then Ret (o1\<lparr>o_zooname := Some arg\<rparr>)
         else if c = CHR ''C'' then Ret (o1\<lparr>o_failname := Some arg\<rparr>)
         else if c = CHR ''Q'' then Ret (o1\<lparr>o_no_kmsg := True\<rparr>)
         else if c = CHR ''T'' then Ret (o1\<lparr>o_tconfname := Some arg\<rparr>)
         else if c = CHR ''e'' then Ret (o1\<lparr>o_track := True\<rparr>)
         else if c = CHR ''f'' then Ret (o1\<lparr>o_filename := arg\<rparr>)
         else if c = CHR ''h'' then Exits 0
         else if c = CHR ''l'' then Ret (o1\<lparr>o_logname := Some arg\<rparr>)
         else if c = CHR ''n'' then Ret (o1\<lparr>o_panname := Some arg\<rparr>)
         else if c = CHR ''o'' then Ret (o1\<lparr>o_outname := Some arg\<rparr>)
         else if c = CHR ''p'' then Ret (o1\<lparr>o_fmt := True\<rparr>)
         else if c = CHR ''q'' then Ret (o1\<lparr>o_quiet := True\<rparr>)
         else if c = CHR ''r'' then Ret (o1\<lparr>o_report := Some arg\<rparr>)
         else if c = CHR ''s'' then Ret (o1\<lparr>o_starts := atoi arg\<rparr>)
         else if c = CHR ''t'' then time_option arg o1
         else if c = CHR ''x'' then Ret (o1\<lparr>o_keep_active := atoi arg\<rparr>)
         else if c = CHR ''y'' then Ret (o1\<lparr>o_fork_in_road := True\<rparr>)
         else Ret o1)"

fun apply_options :: "(char \<times> string) list \<Rightarrow> pan_opts \<Rightarrow> pan_opts outcome" where
  "apply_options [] o1 = Ret o1"
| "apply_options (ca # cas) o1 = bind_outcome (apply_option ca o1) (apply_options cas)"

definition lower :: "char \<Rightarrow> char" where
  "lower c = (if 65 \<le> (of_char c :: nat) \<and> (of_char c :: nat) \<le> 90 then char_of ((of_char c :: nat) + 32) else c)"

definition report_type :: "string option \<Rightarrow> string" where
  "report_type r =
     (case r of None \<Rightarrow> ''rts''
      | Some t \<Rightarrow> if map lower t \<noteq> ''rts'' \<and> map lower t \<noteq> ''none'' then ''rts'' else t)"

subsection \<open>Defaults and resources\<close>

definition default_starts :: "bool \<Rightarrow> int \<Rightarrow> bool \<Rightarrow> nat \<Rightarrow> int \<Rightarrow> int" where
  "default_starts timed s seq_mode cnt keep_active =
     (if timed \<and> s = -1 then -1
      else if s = -1 then (if seq_mode then int cnt else 1)
      else if s = 0 then -1
      else if s < keep_active then keep_active else s)"

definition idle_slot :: tag_pgrp where
  "idle_slot = \<lparr>pgrp = 0, stopping = False, mystime = 0, cmd = None, out_file = []\<rparr>"

definition alloc_running :: "bool \<Rightarrow> int \<Rightarrow> tag_pgrp list outcome" where
  "alloc_running mem_ok keep_active =
     (if keep_active = INT_MAX then Undefined ''signed overflow''
      else if \<not> mem_ok then Exits 2
      else if keep_active < 0 then Undefined ''memset past running''
      else Ret (replicate (nat keep_active) idle_slot))"

definition log_header :: "bool \<Rightarrow> string \<Rightarrow> string" where
  "log_header fmt startup =
     (if \<not> fmt then ''startup='' @ [CHR 0x27] @ startup @ [CHR 0x27, NL]
      else ''Test Start Time: '' @ startup @ [NL] @ ''-----------------------------------------'' @ [NL]
           @ result_fmt ''Testcase'' ''Result'' @ '' '' @ ljust 10 (take 10 ''Exit Value'') @ [NL]
           @ result_fmt ''--------'' ''------'' @ '' '' @ ljust 10 (take 10 ''------------'') @ [NL])"

text \<open>The tests on the buffer directory, and the files opened before the zoo.\<close>

definition check_out_dir :: "errno \<Rightarrow> bool \<Rightarrow> errno \<Rightarrow> string option \<Rightarrow> unit outcome" where
  "check_out_dir stat_err is_dir access_err dir =
     (if dir \<noteq> None \<and> (stat_err \<noteq> 0 \<or> \<not> is_dir \<or> access_err \<noteq> 0) then Exits 1 else Ret ())"

definition open_named :: "errno \<Rightarrow> string option \<Rightarrow> unit outcome" where
  "open_named err name = (if name \<noteq> None \<and> err \<noteq> 0 then Exits 1 else Ret ())"

text \<open>The line of the driver itself, and the lines it reserves for its children and gives back.\<close>

fun reserve_lines :: "zoo_env \<Rightarrow> string \<Rightarrow> pid list \<Rightarrow> zoo \<Rightarrow> zoo run" where
  "reserve_lines env name [] z = Some (Ret z)"
| "reserve_lines env name (p # ps) z =
     (case zoo_mark_cmdline env z p name [] of
        None \<Rightarrow> None
      | Some (r, z1) \<Rightarrow> if r \<noteq> 0 then Some (Exits 1) else reserve_lines env name ps z1)"

fun give_back_lines :: "zoo_env \<Rightarrow> pid list \<Rightarrow> zoo \<Rightarrow> zoo run" where
  "give_back_lines env [] z = Some (Ret z)"
| "give_back_lines env (p # ps) z =
     (case zoo_clear env z p of
        None \<Rightarrow> None
      | Some (r, z1) \<Rightarrow> if r \<noteq> 0 then Some (Exits 1) else give_back_lines env ps z1)"

definition setup_zoo :: "bool \<Rightarrow> zoo_env \<Rightarrow> pid \<Rightarrow> string \<Rightarrow> string list \<Rightarrow> nat \<Rightarrow> zoo \<Rightarrow> zoo run" where
  "setup_zoo mem_ok env self name argv keep_active z =
     bind_run (Some (zoo_mark_args mem_ok env z self name argv)) (\<lambda>r.
       case r of
         None \<Rightarrow> None
       | Some (q, z1) \<Rightarrow>
           if q \<noteq> 0 then Some (Exits 1)
           else let cs = map int [0..<keep_active]
                in bind_run (reserve_lines env name cs z1) (give_back_lines env cs))"

subsection \<open>The scheduling loop\<close>

text \<open>One turn of the loop: the random numbers and system calls of the starts, whether \<open>PAN_STOP_FILE\<close>
  exists, the \<open>kill\<close> results of \<open>propagate_signal\<close>, and the calls of \<open>check_pids\<close>.\<close>

record iter_env =
  ie_starts :: "(nat \<times> run_env) list"
  ie_stopfile :: bool
  ie_kill :: "pid \<Rightarrow> errno"
  ie_kzoo :: "pid \<Rightarrow> zoo_env"
  ie_wait :: wait_env

definition may_start :: "pan_state \<Rightarrow> bool" where
  "may_start st \<longleftrightarrow> num_active st < int (length (running st)) \<and> starts st \<noteq> 0
     \<and> stop st = 0 \<and> rec_signal st = 0 \<and> go_idle st = 0"

definition count_start :: "pan_cfg \<Rightarrow> nat \<Rightarrow> pid \<Rightarrow> pan_state \<Rightarrow> pan_state" where
  "count_start cfg c cpid st =
     st\<lparr>num_active := (if cpid \<noteq> -1 then num_active st + 1 else num_active st),
        starts := (if (cpid \<noteq> -1 \<or> sequential cfg) \<and> starts st > 0 then starts st - 1 else starts st),
        cidx := (if sequential cfg then (if c + 1 \<ge> length (coll cfg) then 0 else c + 1) else c)\<rparr>"

fun start_children :: "pan_cfg \<Rightarrow> (nat \<times> run_env) list \<Rightarrow> pan_state \<Rightarrow> pan_state run" where
  "start_children cfg [] st = (if may_start st then None else Some (Ret st))"
| "start_children cfg ((rnd, env) # envs) st =
     (if \<not> may_start st then Some (Ret st)
      else let c = (if sequential cfg then cidx st else rnd mod length (coll cfg))
           in case first_index (\<lambda>s. pgrp s = 0) (running st) of
                None \<Rightarrow> Some (Ret (wait_handler SIGINT (st\<lparr>cidx := c, exit_stat := exit_stat st + 1\<rparr>)))
              | Some i \<Rightarrow>
                  bind_run (run_child cfg env i (coll cfg ! c) st) (\<lambda>(cpid, st1).
                    start_children cfg envs (deliver (re_sigs env) (count_start cfg c cpid st1))))"

definition check_stop :: "pan_cfg \<Rightarrow> bool \<Rightarrow> pan_state \<Rightarrow> pan_state" where
  "check_stop cfg stopfile st =
     (if starts st = 0
      then (if quiet_mode cfg then st else put_out (''incrementing stop'' @ [NL]) st)\<lparr>stop := stop st + 1\<rparr>
      else if starts st = -1 \<and> stopfile
      then act [Unlink ''PAN_STOP_FILE''] (put_out (''Got PAN_STOP_FILE Stopping!'' @ [NL]) (st\<lparr>stop := stop st + 1\<rparr>))
      else st)"

definition idle_or_stop :: "pan_state \<Rightarrow> pan_state" where
  "idle_or_stop st =
     (if fork_in_road st then st\<lparr>go_idle := go_idle st + 1\<rparr> else st\<lparr>stop := stop st + 1\<rparr>)"

definition handle_signal :: "(pid \<Rightarrow> errno) \<Rightarrow> (pid \<Rightarrow> zoo_env) \<Rightarrow> pan_state \<Rightarrow> pan_state option" where
  "handle_signal ke ze st =
     (if rec_signal st = 0 then Some st
      else if rec_signal st = SIGUSR2
      then Some ((idle_or_stop st)\<lparr>rec_signal := 0, send_signal := 0\<rparr>)
      else map_option idle_or_stop
             (propagate_signal ke ze (if rec_signal st = SIGUSR1 then st\<lparr>fork_in_road := False\<rparr> else st)))"

definition note_error :: "pan_cfg \<Rightarrow> pan_state \<Rightarrow> pan_state" where
  "note_error cfg st =
     (let st1 = (if fork_in_road st then st\<lparr>go_idle := go_idle st + 1\<rparr> else st);
          st2 = (if track_exit_stats cfg then st1\<lparr>exit_stat := exit_stat st1 + 1\<rparr> else st1)
      in if has_brakes cfg then wait_handler SIGINT st2 else st2)"

text \<open>The end of a turn; the flag says whether the loop breaks.\<close>

definition end_of_turn :: "pan_state \<Rightarrow> bool \<times> pan_state" where
  "end_of_turn st =
     (if stop st \<noteq> 0 \<and> num_active st = 0 then (True, st)
      else if go_idle st \<noteq> 0 \<and> num_active st = 0 then (False, wait_handler 0 (st\<lparr>go_idle := 0\<rparr>))
      else (False, st))"

definition loop_body :: "pan_cfg \<Rightarrow> iter_env \<Rightarrow> pan_state \<Rightarrow> (bool \<times> pan_state) run" where
  "loop_body cfg ie st =
     bind_run (start_children cfg (ie_starts ie) st) (\<lambda>st1.
       case handle_signal (ie_kill ie) (ie_kzoo ie) (check_stop cfg (ie_stopfile ie) st1) of
         None \<Rightarrow> None
       | Some st2 \<Rightarrow>
           bind_run (check_pids cfg (ie_wait ie) st2) (\<lambda>(err, st3).
             Some (Ret (end_of_turn (if err \<noteq> 0 then note_error cfg st3 else st3)))))"

fun main_loop :: "pan_cfg \<Rightarrow> iter_env list \<Rightarrow> pan_state \<Rightarrow> pan_state run" where
  "main_loop cfg [] st = None"
| "main_loop cfg (ie # ies) st =
     bind_run (loop_body cfg ie st) (\<lambda>(fin, st1). if fin then Some (Ret st1) else main_loop cfg ies st1)"

subsection \<open>Waiting for orphans, and the end\<close>

record orphan_env =
  oe_sigs :: "signo list"
  oe_kill :: "pid \<Rightarrow> errno"
  oe_zoo :: "pid \<Rightarrow> zoo_env"

definition orphan_round :: "orphan_env \<Rightarrow> pan_state \<Rightarrow> pan_state option" where
  "orphan_round oe st =
     (let st1 = deliver (oe_sigs oe) st;
          st2 = (if rec_signal st1 = 0 then wait_handler SIGINT st1 else st1)
      in propagate_signal (oe_kill oe) (oe_zoo oe) st2)"

fun orphan_wait :: "orphan_env list \<Rightarrow> pan_state \<Rightarrow> pan_state run" where
  "orphan_wait oes st =
     (if \<forall>p \<in> set (orphans st). p = 0 then Some (Ret st)
      else case oes of [] \<Rightarrow> None
           | oe # rest \<Rightarrow> (case orphan_round oe st of None \<Rightarrow> None | Some st1 \<Rightarrow> orphan_wait rest st1))"

declare orphan_wait.simps [simp del]

text \<open>The three strings of \<open>uname\<close>, and the result that \<open>main\<close> passes to \<open>exit ()\<close>.\<close>

definition summary_text :: "nat \<Rightarrow> nat \<Rightarrow> nat \<Rightarrow> string \<times> string \<times> string \<Rightarrow> string" where
  "summary_text tests skipped failures un =
     (let (release, machine, nodename) = un
      in [NL] @ ''-----------------------------------------------'' @ [NL]
         @ ''Total Tests: '' @ show_nat tests @ [NL] @ ''Total Skipped Tests: '' @ show_nat skipped @ [NL]
         @ ''Total Failures: '' @ show_nat failures @ [NL] @ ''Kernel Version: '' @ release @ [NL]
         @ ''Machine Architecture: '' @ machine @ [NL] @ ''Hostname: '' @ nodename @ [NL, NL])"

definition finish :: "pan_cfg \<Rightarrow> zoo_env \<Rightarrow> string \<times> string \<times> string \<Rightarrow> pan_state \<Rightarrow> (int \<times> pan_state) run" where
  "finish cfg env un st =
     (case zoo_clear env (zoofile st) (mypid cfg) of
        None \<Rightarrow> None
      | Some (r, z) \<Rightarrow>
          let st1 = st\<lparr>zoofile := z, exit_stat := (if r \<noteq> 0 then exit_stat st + 1 else exit_stat st)\<rparr>;
              st2 = (if logging cfg \<and> fmt_print cfg
                     then st1\<lparr>logtxt := logtxt st1 @ summary_text (length (coll cfg)) (tconfcnt st1) (failcnt st1) un\<rparr>
                     else st1)
          in Some (Ret (exit_stat st2, st2)))"

subsection \<open>The whole program\<close>

record main_env =
  me_zoo_var :: "string option"
  me_log_err :: errno
  me_startup :: string
  me_slurp :: slurp_env
  me_mem :: bool
  me_stat :: errno
  me_isdir :: bool
  me_access :: errno
  me_freopen :: errno
  me_failopen :: errno
  me_tconfopen :: errno
  me_zoo_open :: "errno \<times> errno \<times> errno \<times> string"
  me_zoo_mem :: bool
  me_zenv :: zoo_env
  me_pid :: pid
  me_zlast :: zoo_env
  me_uname :: "string \<times> string \<times> string"

definition initial_state :: "pan_opts \<Rightarrow> tag_pgrp list \<Rightarrow> int \<Rightarrow> zoo \<Rightarrow> string \<Rightarrow> pan_state" where
  "initial_state o1 slots s z lg =
     \<lparr>running = slots, num_active = 0, starts = s, cidx = 0, stop = 0, go_idle = 0,
      fork_in_road = o_fork_in_road o1, exit_stat = 0, failcnt = 0, tconfcnt = 0, rec_signal = 0, send_signal = 0,
      lastsent = 0, orphans = [0], zoofile = z, cmdno = 0, pcnt_no = 1, logtxt = lg, failtxt = [],
      tconftxt = [], outtxt = o_stdout o1, effects = []\<rparr>"

definition make_cfg :: "main_env \<Rightarrow> pan_opts \<Rightarrow> string \<Rightarrow> coll_entry list \<Rightarrow> pan_cfg" where
  "make_cfg me o1 name es =
     \<lparr>panname = name, coll = es, sequential = o_sequential o1, has_brakes = o_brakes o1,
      track_exit_stats = o_track o1, fmt_print = o_fmt o1, quiet_mode = o_quiet o1, no_kmsg = o_no_kmsg o1,
      logging = (o_logname o1 \<noteq> None), failcmds = (o_failname o1 \<noteq> None), tconfcmds = (o_tconfname o1 \<noteq> None),
      test_out_dir = (if o_keep_active o1 = 1 then None else o_out_dir o1),
      reporttype = report_type (o_report o1), mypid = me_pid me\<rparr>"

text \<open>The tests of \<open>main\<close> that end in \<open>exit (1)\<close>.\<close>

definition or_exit :: "'a option \<Rightarrow> 'a run" where
  "or_exit x = (case x of None \<Rightarrow> Some (Exits 1) | Some y \<Rightarrow> Some (Ret y))"

definition exit_if :: "bool \<Rightarrow> unit run" where
  "exit_if b = (if b then Some (Exits 1) else Some (Ret ()))"

lemma or_exit_Ret [outcome_simps]: "or_exit x = Some (Ret y) \<longleftrightarrow> x = Some y"
  by (simp add: or_exit_def split: option.splits)

lemma exit_if_Ret [outcome_simps]: "exit_if b = Some (Ret u) \<longleftrightarrow> \<not> b"
  by (simp add: exit_if_def)

text \<open>Everything before the scheduling loop: the configuration and the state it starts from.\<close>

definition pan_setup ::
  "main_env \<Rightarrow> (char \<times> string) list \<Rightarrow> string list \<Rightarrow> string list \<Rightarrow> (pan_cfg \<times> pan_state) run" where
  "pan_setup me options argv args =
     bind_run (Some (apply_options options default_opts)) (\<lambda>o1.
     bind_run (or_exit (o_panname o1)) (\<lambda>name.
     bind_run (exit_if (o_zooname o1 = None \<and> zoo_getname (me_zoo_var me) = None)) (\<lambda>_.
     bind_run (exit_if (o_logname o1 \<noteq> None \<and> o_logname o1 \<noteq> Some ''-'' \<and> me_log_err me \<noteq> 0)) (\<lambda>_.
     bind_run (Some (get_collection (me_slurp me) args)) (\<lambda>col.
     bind_run (or_exit col) (\<lambda>es.
     bind_run (exit_if (es = [])) (\<lambda>_.
     bind_run (Some (alloc_running (me_mem me) (o_keep_active o1))) (\<lambda>slots.
     bind_run (Some (check_out_dir (me_stat me) (me_isdir me) (me_access me) (test_out_dir (make_cfg me o1 name es)))) (\<lambda>_.
     bind_run (Some (open_named (me_freopen me) (o_outname o1))) (\<lambda>_.
     bind_run (Some (open_named (me_failopen me) (o_failname o1))) (\<lambda>_.
     bind_run (Some (open_named (me_tconfopen me) (o_tconfname o1))) (\<lambda>_.
     bind_run (or_exit (case me_zoo_open me of (e1, e2, e3, contents) \<Rightarrow> fst (zoo_open e1 e2 e3 contents))) (\<lambda>z.
     bind_run (setup_zoo (me_zoo_mem me) (me_zenv me) (me_pid me) name argv (length slots) z) (\<lambda>z1.
       Some (Ret (make_cfg me o1 name es,
         initial_state o1 slots
           (default_starts (o_timed o1) (o_starts o1) (o_sequential o1) (length es) (o_keep_active o1))
           z1 (if o_logname o1 = None then [] else log_header (o_fmt o1) (me_startup me))))))))))))))))))"

definition pan_main ::
  "main_env \<Rightarrow> (char \<times> string) list \<Rightarrow> string list \<Rightarrow> string list \<Rightarrow> iter_env list \<Rightarrow> orphan_env list \<Rightarrow> (int \<times> pan_state) run" where
  "pan_main me options argv args ies oes =
     bind_run (pan_setup me options argv args) (\<lambda>(cfg, st0).
     bind_run (main_loop cfg ies st0) (\<lambda>st1.
     bind_run (orphan_wait oes st1) (\<lambda>st2.
       finish cfg (me_zlast me) (me_uname me) st2)))"

end
