(* ===== verification/Pan_Spec.thy ===== *)
theory Pan_Spec
  imports Pan_Main
begin

section \<open>What the driver keeps true\<close>

text \<open>
  The invariant that ties the driver's slots, its list of orphans and the zoo file together, its
  preservation by every operation, and what follows for a whole run.
\<close>

named_theorems core_simps \<open>operations that leave slots, orphans, zoo and count alone\<close>

subsection \<open>The part of the state the invariant is about\<close>

text \<open>The commands the driver has tried to start, in order.\<close>

fun attempts_of :: "effect list \<Rightarrow> coll_entry list" where
  "attempts_of [] = []"
| "attempts_of (Attempt e # es) = e # attempts_of es"
| "attempts_of (_ # es) = attempts_of es"

lemma attempts_of_append [simp]: "attempts_of (es @ fs) = attempts_of es @ attempts_of fs"
  by (induction es rule: attempts_of.induct) auto

lemma attempts_of_kills [simp]: "attempts_of (map (\<lambda>p. Kill_group (f p) sig) ps) = []"
  by (induction ps) auto

definition attempts :: "pan_state \<Rightarrow> coll_entry list" where
  "attempts st = attempts_of (effects st)"

definition sched :: "pan_state \<Rightarrow> int \<times> nat \<times> int \<times> coll_entry list" where
  "sched st = (num_active st, cidx st, starts st, attempts st)"

type_synonym core = "(pid \<times> coll_entry option) list \<times> pid list \<times> zoo \<times> (int \<times> nat \<times> int \<times> coll_entry list)"

definition core_of :: "pan_state \<Rightarrow> core" where
  "core_of st = (map (\<lambda>s. (pgrp s, cmd s)) (running st), orphans st, zoofile st, sched st)"

definition live :: "pid list \<Rightarrow> pid list" where
  "live ps = filter (\<lambda>p. p \<noteq> 0) ps"

definition groups :: "pan_state \<Rightarrow> pid list" where
  "groups st = live (map pgrp (running st))"

fun core_inv :: "pid multiset \<Rightarrow> coll_entry list \<Rightarrow> core \<Rightarrow> bool" where
  "core_inv base es (slots, orphs, z, n) \<longleftrightarrow>
     zoo_inv z \<and> zoo_pids z = base + mset (live (map fst slots)) + mset (live orphs) \<and> orphs \<noteq> []
     \<and> (\<forall>(p, c) \<in> set slots. p \<noteq> 0 \<longrightarrow> (\<exists>e \<in> set es. c = Some e))"

definition slots_inv :: "pid multiset \<Rightarrow> pan_cfg \<Rightarrow> pan_state \<Rightarrow> bool" where
  "slots_inv base cfg st \<longleftrightarrow> core_inv base (coll cfg) (core_of st)"

definition pan_inv :: "pid multiset \<Rightarrow> pan_cfg \<Rightarrow> pan_state \<Rightarrow> bool" where
  "pan_inv base cfg st \<longleftrightarrow> slots_inv base cfg st \<and> num_active st = int (length (groups st))"

lemma groups_core: "core_of st = core_of st' \<Longrightarrow> groups st = groups st'"
proof -
  assume "core_of st = core_of st'"
  then have "map fst (map (\<lambda>s. (pgrp s, cmd s)) (running st)) = map fst (map (\<lambda>s. (pgrp s, cmd s)) (running st'))"
    by (simp add: core_of_def)
  then show ?thesis by (simp add: groups_def comp_def)
qed

lemma core_facts:
  assumes "core_of st' = core_of st"
  shows "slots_inv base cfg st' = slots_inv base cfg st" "pan_inv base cfg st' = pan_inv base cfg st"
    "groups st' = groups st" "orphans st' = orphans st" "zoofile st' = zoofile st" "num_active st' = num_active st"
    "length (running st') = length (running st)" "sched st' = sched st"
proof -
  have "length (fst (core_of st')) = length (fst (core_of st))" using assms by simp
  then show "length (running st') = length (running st)" by (simp add: core_of_def)
  show g: "groups st' = groups st" by (rule groups_core) (rule assms)
  show o: "orphans st' = orphans st" "zoofile st' = zoofile st" "num_active st' = num_active st"
    using assms by (simp_all add: core_of_def sched_def)
  show "sched st' = sched st" using assms by (simp add: core_of_def)
  show "slots_inv base cfg st' = slots_inv base cfg st" by (simp add: slots_inv_def assms)
  then show "pan_inv base cfg st' = pan_inv base cfg st" by (simp add: pan_inv_def g o)
qed

lemma core_put_out [core_simps]: "core_of (put_out t st) = core_of st"
  and core_act [core_simps]: "attempts_of es = [] \<Longrightarrow> core_of (act es st) = core_of st"
  and core_wait_handler [core_simps]: "core_of (wait_handler sig st) = core_of st"
  by (simp_all add: core_of_def sched_def attempts_def put_out_def act_def wait_handler_def Let_def)

lemma core_deliver [core_simps]: "core_of (deliver sigs st) = core_of st"
  unfolding deliver_def by (induction sigs arbitrary: st) (simp_all add: core_simps)

lemma core_writers [core_simps]:
  "core_of (write_test_end cfg a b c d e f g st) = core_of st"
  "core_of (log_result cfg env en t w how st) = core_of st"
  "core_of (note_command cfg en w st) = core_of st"
  "core_of (log_no_exec cfg en t1 t2 s st) = core_of st"
  "core_of (discard_output cfg i st) = core_of st"
  "core_of (check_stop cfg sf st) = core_of st"
  "core_of (idle_or_stop st) = core_of st"
  "core_of (note_error cfg st) = core_of st"
  unfolding write_test_end_def log_result_def note_command_def log_no_exec_def discard_output_def
    check_stop_def idle_or_stop_def note_error_def Let_def
  by (auto simp: core_simps split: prod.splits) (auto simp: core_of_def sched_def attempts_def put_out_def wait_handler_def Let_def act_def)

lemma core_write_test_start:
  "write_test_start cfg ok e t st = Some (Ret st') \<Longrightarrow> core_of st' = core_of st"
  by (auto simp: write_test_start_def write_kmsg_def Let_def core_simps split: if_splits)

lemma core_copy: "copy_buffered_output env st = Some (Ret st') \<Longrightarrow> core_of st' = core_of st"
  by (auto simp: copy_buffered_output_def Let_def core_simps split: option.splits if_splits)

lemma map_update_same: "i < length xs \<Longrightarrow> f (g (xs ! i)) = f (xs ! i) \<Longrightarrow> map f (xs[i := g (xs ! i)]) = map f xs"
  by (metis list_update_id map_update)

lemma core_set_slot:
  assumes "\<And>s. pgrp (f s) = pgrp s" "\<And>s. cmd (f s) = cmd s"
  shows "core_of (set_slot i f st) = core_of st"
proof (cases "i < length (running st)")
  case True
  then show ?thesis using assms by (simp add: core_of_def sched_def attempts_def set_slot_def map_update_same)
qed (simp add: core_of_def sched_def attempts_def set_slot_def list_update_beyond)

lemma core_report_end: "report_end cfg env i e w how st = Some (Ret st') \<Longrightarrow> core_of st' = core_of st"
  unfolding report_end_def Let_def
  by (auto simp: outcome_simps core_simps dest!: core_write_test_start core_copy split: if_splits)

subsection \<open>Live groups as multisets\<close>

lemma live_update_new:
  assumes "i < length xs" "xs ! i = 0" "p \<noteq> 0"
  shows "mset (live (xs[i := p])) = add_mset p (mset (live xs))"
  using assms by (simp add: live_def mset_update filter_mset_add_mset diff_single_trivial filter_diff_mset)

lemma live_update_gone:
  assumes "i < length xs" "xs ! i \<noteq> 0"
  shows "mset (live (xs[i := 0])) = mset (live xs) - {#xs ! i#}"
  using assms by (simp add: live_def mset_update filter_diff_mset)

lemma live_update_idle:
  assumes "i < length xs" "xs ! i = 0"
  shows "xs[i := 0] = xs"
  using assms by (metis list_update_id)

lemma live_append: "live (xs @ ys) = live xs @ live ys"
  by (simp add: live_def)

lemma mset_live_mark_orphan:
  "orphs \<noteq> [] \<Longrightarrow> p \<noteq> 0 \<Longrightarrow> mset (live (mark_orphan orphs p)) = add_mset p (mset (live orphs)) \<and> mark_orphan orphs p \<noteq> []"
proof (cases "0 \<in> set orphs")
  case True
  assume p: "p \<noteq> 0"
  have "\<exists>x \<in> set orphs. x = 0" using True by simp
  then obtain pre x post where "orphs = pre @ x # post" "x = 0" "\<forall>y \<in> set pre. \<not> y = 0"
    by (rule split_firstE)
  then show ?thesis using True p
    by (simp add: mark_orphan_def update_first_split live_append) (simp add: live_def)
next
  case False
  assume "orphs \<noteq> []" "p \<noteq> 0"
  with False show ?thesis by (cases orphs) (auto simp: mark_orphan_def live_def)
qed

subsection \<open>Starting a child\<close>

definition clean_coll :: "pan_cfg \<Rightarrow> bool" where
  "clean_coll cfg \<longleftrightarrow> coll cfg \<noteq> [] \<and> (\<forall>e \<in> set (coll cfg). clean (ce_name e) \<and> clean (ce_cmdline e))"

text \<open>What the driver relies on of \<open>fork\<close> and of the zoo's system calls.\<close>

definition run_ok :: "run_env \<Rightarrow> bool" where
  "run_ok env \<longleftrightarrow> 0 < re_pid env \<and> int_range (re_pid env) \<and> zoo_ok (re_zoo env)"

lemma slots_inv_set_cmd:
  assumes "slots_inv base cfg st" "i < length (running st)" "pgrp (running st ! i) = 0"
    and "\<And>s. pgrp (f s) = pgrp s"
  shows "slots_inv base cfg (set_slot i f st)" "groups (set_slot i f st) = groups st"
    "sched (set_slot i f st) = sched st" "length (running (set_slot i f st)) = length (running st)"
    "pgrp (running (set_slot i f st) ! i) = 0"
proof -
  have p: "map pgrp ((running st)[i := f (running st ! i)]) = map pgrp (running st)"
    using assms by (intro map_update_same) auto
  then show "groups (set_slot i f st) = groups st" by (simp add: groups_def set_slot_def)
  show "slots_inv base cfg (set_slot i f st)"
    using assms p by (auto simp: slots_inv_def core_of_def set_slot_def comp_def in_set_conv_nth nth_list_update)
      (metis nth_mem)+
qed (use assms in \<open>simp_all add: set_slot_def sched_def attempts_def\<close>)

lemma in_set_update:
  "i < length xs \<Longrightarrow> (\<forall>x \<in> set (xs[i := v]). P x) \<Longrightarrow> P v"
  by (simp add: set_update_memI)

lemma all_set_update: "\<forall>x \<in> set xs. P x \<Longrightarrow> P v \<Longrightarrow> \<forall>x \<in> set (xs[i := v]). P x"
  using set_update_subset_insert [of xs i v] by auto

lemma slots_inv_start:
  assumes "slots_inv base cfg st" "i < length (running st)" "pgrp (running st ! i) = 0"
    and "cmd (running st ! i) = Some e" "e \<in> set (coll cfg)" "p \<noteq> 0"
    and "zoo_inv z" "zoo_pids z = add_mset p (zoo_pids (zoofile st))"
  shows "slots_inv base cfg ((set_slot i (\<lambda>s. s\<lparr>pgrp := p, stopping := False\<rparr>) st)\<lparr>zoofile := z\<rparr>)"
    and "mset (groups ((set_slot i (\<lambda>s. s\<lparr>pgrp := p, stopping := False\<rparr>) st)\<lparr>zoofile := z\<rparr>)) = add_mset p (mset (groups st))"
proof -
  let ?xs = "map pgrp (running st)"
  have up: "map pgrp ((running st)[i := (running st ! i)\<lparr>pgrp := p, stopping := False\<rparr>]) = ?xs[i := p]"
    by (simp add: map_update)
  have live: "mset (live (?xs[i := p])) = add_mset p (mset (live ?xs))"
    using assms by (intro live_update_new) auto
  then show "mset (groups ((set_slot i (\<lambda>s. s\<lparr>pgrp := p, stopping := False\<rparr>) st)\<lparr>zoofile := z\<rparr>)) = add_mset p (mset (groups st))"
    by (simp add: groups_def set_slot_def up)
  have "\<forall>(q, c) \<in> set (map (\<lambda>s. (pgrp s, cmd s)) ((running st)[i := (running st ! i)\<lparr>pgrp := p, stopping := False\<rparr>])).
      q \<noteq> 0 \<longrightarrow> (\<exists>e \<in> set (coll cfg). c = Some e)"
    unfolding map_update using assms by (intro all_set_update) (auto simp: slots_inv_def core_of_def)
  then show "slots_inv base cfg ((set_slot i (\<lambda>s. s\<lparr>pgrp := p, stopping := False\<rparr>) st)\<lparr>zoofile := z\<rparr>)"
    using assms up live by (simp add: slots_inv_def core_of_def set_slot_def comp_def)
qed

text \<open>What a call of \<open>run_child\<close> on a free slot leaves: the invariant, and one more live group exactly
  when it returns the pid of a child.\<close>

definition started :: "pid multiset \<Rightarrow> pan_cfg \<Rightarrow> pid \<Rightarrow> pan_state \<Rightarrow> pan_state \<Rightarrow> bool" where
  "started base cfg cpid st st' \<longleftrightarrow> slots_inv base cfg st' \<and> sched st' = sched st
     \<and> length (running st') = length (running st)
     \<and> mset (groups st') = (if cpid = -1 then mset (groups st) else add_mset cpid (mset (groups st)))"

lemma started_core:
  assumes "slots_inv base cfg st" "core_of st' = core_of st"
  shows "started base cfg (-1) st st'"
  using assms(1) by (simp add: started_def core_facts [OF assms(2)])

lemma run_parent_started:
  assumes "slots_inv base cfg st" "i < length (running st)" "pgrp (running st ! i) = 0"
    and "cmd (running st ! i) = Some e" "e \<in> set (coll cfg)" "clean_coll cfg" "run_ok env"
    and "run_parent cfg env i e st = Some (Ret (cpid, st'))"
  shows "started base cfg cpid st st'"
proof (cases "re_fail env")
  case None
  have z: "zoo_inv (zoofile st)" using assms(1) by (simp add: slots_inv_def core_of_def)
  have "clean (ce_name e)" "clean (ce_cmdline e)" "zoo_ok (re_zoo env)" "int_range (re_pid env)" "re_pid env \<noteq> 0"
    "re_pid env \<noteq> -1"
    using assms by (auto simp: clean_coll_def run_ok_def)
  moreover then obtain z' where z': "zoo_mark_cmdline (re_zoo env) (zoofile st) (re_pid env) (ce_name e) (ce_cmdline e) = Some (0, z')"
    "zoo_inv z'" "zoo_pids z' = add_mset (re_pid env) (zoo_pids (zoofile st))"
    using zs.mark_law [OF z] by blast
  ultimately show ?thesis
    using assms(8) None slots_inv_start [OF assms(1-5) _ z'(2,3)]
    by (auto simp: run_parent_def set_slot_def Let_def started_def sched_def attempts_def)
next
  case (Some f)
  obtain errbuf status t where "f = (errbuf, status, t)" by (cases f)
  with Some assms(8) have "cpid = -1" "core_of st' = core_of st"
    by (auto simp: run_parent_def Let_def core_simps split: prod.splits if_splits)
  then show ?thesis using started_core [OF assms(1)] by simp
qed

lemma core_prepare_output:
  assumes "prepare_output cfg env i e st = Some (Ret (err, st'))"
  shows "core_of st' = core_of st"
proof -
  have "core_of (set_slot i (\<lambda>s. s\<lparr>out_file := path\<rparr>) (st\<lparr>cmdno := n\<rparr>)) = core_of st" for path n
    by (subst core_set_slot) (simp_all add: core_of_def sched_def attempts_def)
  then show ?thesis using assms by (auto simp: prepare_output_def outcome_simps split: option.splits)
qed

lemma core_slot:
  assumes "core_of st' = core_of st" "i < length (running st)"
  shows "pgrp (running st' ! i) = pgrp (running st ! i)" "cmd (running st' ! i) = cmd (running st ! i)"
proof -
  have len: "i < length (running st')" using assms(2) core_facts(7) [OF assms(1)] by simp
  have "fst (core_of st') ! i = fst (core_of st) ! i" using assms by simp
  then show "pgrp (running st' ! i) = pgrp (running st ! i)" "cmd (running st' ! i) = cmd (running st ! i)"
    using assms(2) len by (simp_all add: core_of_def)
qed

lemma started_trans:
  assumes "sched st1 = sched st" "length (running st1) = length (running st)" "groups st1 = groups st"
    and "started base cfg cpid st1 st'"
  shows "started base cfg cpid st st'"
  using assms by (simp add: started_def)

text \<open>A free slot of a state that satisfies the invariant.\<close>

definition free_slot :: "pid multiset \<Rightarrow> pan_cfg \<Rightarrow> nat \<Rightarrow> pan_state \<Rightarrow> bool" where
  "free_slot base cfg i st \<longleftrightarrow> slots_inv base cfg st \<and> i < length (running st) \<and> pgrp (running st ! i) = 0"

lemma free_slot_core:
  assumes "free_slot base cfg i st" "core_of st' = core_of st"
  shows "free_slot base cfg i st'"
  using assms(1) core_facts(1,7) [OF assms(2)] core_slot(1) [OF assms(2)] by (simp add: free_slot_def)

lemma launch_child_started:
  assumes free: "free_slot base cfg i st" and e: "e \<in> set (coll cfg)" "clean_coll cfg" "run_ok env"
    and run: "launch_child cfg env i e line st = Some (Ret (cpid, st'))"
  shows "started base cfg cpid st st'"
proof (cases "re_pipe env = 0")
  case False
  with run have "cpid = -1" "core_of st' = core_of st" by (auto simp: launch_child_def core_simps)
  then show ?thesis using started_core free by (simp add: free_slot_def)
next
  case True
  let ?f = "\<lambda>s. s\<lparr>mystime := re_time env, cmd := Some e\<rparr>"
  let ?st2 = "set_slot i ?f st"
  note s2 = slots_inv_set_cmd [of base cfg st i ?f, simplified]
  have f2: "free_slot base cfg i ?st2" using free s2 by (simp add: free_slot_def)
  obtain st3 where c3: "core_of st3 = core_of ?st2"
    and r3: "(if re_fork env \<noteq> 0 then Some (Ret (-1, discard_output cfg i st3))
          else run_parent cfg env i e (act [Spawn (re_pid env) line] st3)) = Some (Ret (cpid, st'))"
    using run True by (auto simp: launch_child_def Let_def outcome_simps dest: core_write_test_start split: if_splits)
  let ?st4 = "act [Spawn (re_pid env) line] st3"
  have c4: "core_of ?st4 = core_of ?st2" using c3 by (simp add: core_simps)
  have "started base cfg cpid ?st2 st'"
  proof (cases "re_fork env = 0")
    case True
    have "cmd (running ?st4 ! i) = Some e"
      using core_slot(2) [OF c4, of i] free s2 by (simp add: free_slot_def) (simp add: set_slot_def)
    then have "started base cfg cpid ?st4 st'"
      using run_parent_started [of base cfg ?st4 i e env] free_slot_core [OF f2 c4] e r3 True by (simp add: free_slot_def)
    then show ?thesis using core_facts [OF c4] by (simp add: started_def)
  next
    case False
    with r3 c3 have "cpid = -1" "core_of st' = core_of ?st2" by (auto simp: core_simps)
    then show ?thesis using started_core f2 by (simp add: free_slot_def)
  qed
  then show ?thesis by (rule started_trans [rotated 3]) (use free s2 in \<open>simp_all add: free_slot_def\<close>)
qed

lemma run_child_started:
  assumes free: "free_slot base cfg i st" and e: "e \<in> set (coll cfg)" "clean_coll cfg" "run_ok env"
    and run: "run_child cfg env i e st = Some (Ret (cpid, st'))"
  shows "started base cfg cpid (act [Attempt e] st) st'"
proof -
  from run obtain err st0 where p: "prepare_output cfg env i e (act [Attempt e] st) = Some (Ret (err, st0))"
    and r0: "err \<noteq> 0 \<Longrightarrow> cpid = -1 \<and> st' = st0"
    and r1: "err = 0 \<Longrightarrow> \<exists>line k. launch_child cfg env i e line (st0\<lparr>pcnt_no := k\<rparr>) = Some (Ret (cpid, st'))"
    by (auto simp: run_child_def outcome_simps split: if_splits)
  let ?st = "act [Attempt e] st"
  note c0 = core_prepare_output [OF p]
  have free: "free_slot base cfg i ?st" using free by (simp add: free_slot_def slots_inv_def core_of_def act_def)
  show ?thesis
  proof (cases "err = 0")
    case True
    then obtain line k where l: "launch_child cfg env i e line (st0\<lparr>pcnt_no := k\<rparr>) = Some (Ret (cpid, st'))"
      using r1 by blast
    have c1: "core_of (st0\<lparr>pcnt_no := k\<rparr>) = core_of ?st" using c0 by (simp add: core_of_def sched_def attempts_def)
    show ?thesis
      using launch_child_started [OF free_slot_core [OF free c1] e l] core_facts [OF c1] by (simp add: started_def)
  next
    case False
    then show ?thesis using started_core [OF _ c0, of base cfg] free r0 by (simp add: free_slot_def)
  qed
qed

subsection \<open>Signals and orphans\<close>

lemma check_orphans_law:
  assumes "zoo_inv z" "\<forall>p. zoo_ok (ze p)" "zoo_pids z = b + mset (live ps)"
  shows "\<exists>qs z' es. check_orphans ke ze sig ps z = Some (qs, z', es) \<and> zoo_inv z'
    \<and> zoo_pids z' = b + mset (live qs) \<and> length qs = length ps
    \<and> es = map (\<lambda>p. Kill_group p sig) (live ps)
    \<and> qs = map (\<lambda>p. if ke p = ESRCH then 0 else p) ps"
  using assms
proof (induction ps arbitrary: z b)
  case (Cons p ps)
  show ?case
  proof (cases "p \<noteq> 0 \<and> ke p = ESRCH")
    case True
    then have mem: "p \<in># zoo_pids z" using Cons.prems(3) by (simp add: live_def)
    obtain z1 where z1: "zoo_clear (ze p) z p = Some (0, z1)" "zoo_inv z1" "zoo_pids z1 = zoo_pids z - {#p#}"
      using zs.clear_law [OF Cons.prems(1) _ mem, of "ze p"] Cons.prems(2) by blast
    then have "zoo_pids z1 = b + mset (live ps)" using True Cons.prems(3) by (simp add: live_def)
    from Cons.IH [OF z1(2) Cons.prems(2) this] True z1(1) show ?thesis by (auto simp: live_def)
  next
    case False
    have "zoo_pids z = (b + mset (live [p])) + mset (live ps)" using Cons.prems(3) by (simp add: live_def)
    from Cons.IH [OF Cons.prems(1,2) this] False show ?thesis by (auto simp: live_def)
  qed
qed (simp add: live_def)

lemma slots_inv_alt:
  "slots_inv base cfg st \<longleftrightarrow> zoo_inv (zoofile st) \<and> zoo_pids (zoofile st) = base + mset (groups st) + mset (live (orphans st))
     \<and> orphans st \<noteq> [] \<and> (\<forall>s \<in> set (running st). pgrp s \<noteq> 0 \<longrightarrow> (\<exists>e \<in> set (coll cfg). cmd s = Some e))"
  by (auto simp: slots_inv_def core_of_def groups_def comp_def)

lemma run_check_orphans_law:
  assumes "slots_inv base cfg st" "\<forall>p. zoo_ok (ze p)"
  shows "\<exists>st'. run_check_orphans ke ze sig st = Some st' \<and> slots_inv base cfg st' \<and> running st' = running st
    \<and> sched st' = sched st \<and> orphans st' = map (\<lambda>p. if ke p = ESRCH then 0 else p) (orphans st)
    \<and> effects st' = effects st @ map (\<lambda>p. Kill_group p sig) (live (orphans st))
    \<and> (\<exists>qs z. st' = act (map (\<lambda>p. Kill_group p sig) (live (orphans st))) (st\<lparr>orphans := qs, zoofile := z\<rparr>))"
proof -
  have z: "zoo_inv (zoofile st)" "zoo_pids (zoofile st) = (base + mset (groups st)) + mset (live (orphans st))"
    using assms(1) by (simp_all add: slots_inv_alt)
  obtain qs z' es where c: "check_orphans ke ze sig (orphans st) (zoofile st) = Some (qs, z', es)" "zoo_inv z'"
    "zoo_pids z' = base + mset (groups st) + mset (live qs)" "es = map (\<lambda>p. Kill_group p sig) (live (orphans st))"
    "qs = map (\<lambda>p. if ke p = ESRCH then 0 else p) (orphans st)"
    using check_orphans_law [OF z(1) assms(2) z(2)] by blast
  let ?st = "act es (st\<lparr>orphans := qs, zoofile := z'\<rparr>)"
  have "slots_inv base cfg ?st"
    using assms(1) c by (auto simp: slots_inv_alt act_def groups_def)
  with c show ?thesis
    by (auto simp: run_check_orphans_def act_def sched_def attempts_def)
qed

lemma propagate_signal_law:
  assumes "slots_inv base cfg st" "\<forall>p. zoo_ok (ze p)"
  shows "\<exists>st'. propagate_signal ke ze st = Some st' \<and> slots_inv base cfg st' \<and> groups st' = groups st
    \<and> sched st' = sched st \<and> length (running st') = length (running st)
    \<and> orphans st' = map (\<lambda>p. if ke p = ESRCH then 0 else p) (orphans st)
    \<and> effects st' = effects st @ map (\<lambda>p. Kill_group p (send_signal st)) (groups st @ live (orphans st))
    \<and> rec_signal st' = 0 \<and> send_signal st' = 0 \<and> lastsent st' = lastsent st
    \<and> (\<forall>s \<in> set (running st'). pgrp s \<noteq> 0 \<longrightarrow> stopping s)"
proof -
  let ?st1 = "if rec_signal st = SIGALRM
       then put_out (''PAN stop Alarm was received'' @ [NL]) (st\<lparr>rec_signal := SIGTERM\<rparr>) else st"
  let ?run = "map (\<lambda>s. if pgrp s = 0 then s else s\<lparr>stopping := True\<rparr>) (running st)"
  let ?es = "map (\<lambda>s. Kill_group (pgrp s) (send_signal st)) (filter (\<lambda>s. pgrp s \<noteq> 0) (running st))"
  let ?st2 = "act ?es (?st1\<lparr>running := ?run\<rparr>)"
  have same: "orphans ?st2 = orphans st" "zoofile ?st2 = zoofile st" "sched ?st2 = sched st"
    "effects ?st2 = effects st @ ?es" "lastsent ?st2 = lastsent st" "running ?st2 = ?run"
    by (simp_all add: act_def put_out_def sched_def attempts_def)
  have pg: "map pgrp ?run = map pgrp (running st)" by (induction "running st") auto
  have g: "groups ?st2 = groups st" unfolding groups_def same pg ..
  have es: "?es = map (\<lambda>p. Kill_group p (send_signal st)) (groups st)"
    by (simp add: groups_def live_def filter_map comp_def)
  have "slots_inv base cfg ?st2"
    using assms(1) unfolding slots_inv_alt g same by auto
  from run_check_orphans_law [OF this assms(2), of ke "send_signal st"] obtain st3 where
    st3: "run_check_orphans ke ze (send_signal st) ?st2 = Some st3" "slots_inv base cfg st3"
    "running st3 = ?run" "sched st3 = sched st" "orphans st3 = map (\<lambda>p. if ke p = ESRCH then 0 else p) (orphans st)"
    "effects st3 = effects st @ ?es @ map (\<lambda>p. Kill_group p (send_signal st)) (live (orphans st))"
    and upd: "\<exists>qs z. st3 = act (map (\<lambda>p. Kill_group p (send_signal st)) (live (orphans st))) (?st2\<lparr>orphans := qs, zoofile := z\<rparr>)"
    unfolding same by auto
  have ls: "lastsent st3 = lastsent st" using upd same by (auto simp: act_def)
  have p: "propagate_signal ke ze st = Some (st3\<lparr>rec_signal := 0, send_signal := 0\<rparr>)"
    using st3(1) by (simp add: propagate_signal_def Let_def)
  have "slots_inv base cfg (st3\<lparr>rec_signal := 0, send_signal := 0\<rparr>)"
    using st3(2) by (simp add: slots_inv_alt groups_def)
  moreover have "groups (st3\<lparr>rec_signal := 0, send_signal := 0\<rparr>) = groups st"
    by (simp add: groups_def st3(3) pg del: map_map)
  moreover have "\<forall>s \<in> set (running (st3\<lparr>rec_signal := 0, send_signal := 0\<rparr>)). pgrp s \<noteq> 0 \<longrightarrow> stopping s"
    by (auto simp: st3(3))
  moreover have "sched (st3\<lparr>rec_signal := 0, send_signal := 0\<rparr>) = sched st"
    using st3(4) by (simp add: sched_def attempts_def)
  ultimately show ?thesis using p st3(5,6) ls es arg_cong [OF st3(3), of length]
    by (intro exI [of _ "st3\<lparr>rec_signal := 0, send_signal := 0\<rparr>"] conjI) simp_all
qed

subsection \<open>Collecting a child\<close>

text \<open>What the driver relies on of \<open>wait\<close>: it reports a terminated child, one of the groups it started
  and has not collected.\<close>

definition wait_ok :: "wait_env \<Rightarrow> pid list \<Rightarrow> bool" where
  "wait_ok env gs \<longleftrightarrow> zoo_ok (we_zclear env) \<and> zoo_ok (we_zmark env) \<and>
     (we_err env = 0 \<longrightarrow> we_pid env \<in> set gs \<and> int_range (we_pid env) \<and>
        (wifexited (we_status env) \<or> wifsignaled (we_status env)))"

lemma mset_remove_middle: "p \<in># g \<Longrightarrow> b + g + o1 - {#p#} = b + (g - {#p#}) + (o1 :: 'a multiset)"
  by (auto dest: multi_member_split)

lemma groups_memI: "i < length (running st) \<Longrightarrow> pgrp (running st ! i) \<noteq> 0 \<Longrightarrow> pgrp (running st ! i) \<in> set (groups st)"
  by (simp add: groups_def live_def)

lemma slots_inv_release:
  assumes "slots_inv base cfg st" "i < length (running st)" "pgrp (running st ! i) = p" "p \<noteq> 0"
    and "zoo_inv z" "zoo_pids z = zoo_pids (zoofile st) - {#p#}"
  shows "slots_inv base cfg ((set_slot i (\<lambda>s. s\<lparr>pgrp := 0\<rparr>) st)\<lparr>zoofile := z\<rparr>)"
    and "mset (groups ((set_slot i (\<lambda>s. s\<lparr>pgrp := 0\<rparr>) st)\<lparr>zoofile := z\<rparr>)) = mset (groups st) - {#p#}"
    and "p \<in># mset (groups st)"
proof -
  let ?xs = "map pgrp (running st)"
  have up: "map pgrp ((running st)[i := (running st ! i)\<lparr>pgrp := 0\<rparr>]) = ?xs[i := 0]"
    by (simp add: map_update)
  have live: "mset (live (?xs[i := 0])) = mset (live ?xs) - {#p#}"
    using live_update_gone [of i ?xs] assms by simp
  then show g: "mset (groups ((set_slot i (\<lambda>s. s\<lparr>pgrp := 0\<rparr>) st)\<lparr>zoofile := z\<rparr>)) = mset (groups st) - {#p#}"
    by (simp add: groups_def set_slot_def up)
  show m: "p \<in># mset (groups st)"
    using assms(2-4) by (auto simp: groups_def live_def)
  have "\<forall>s \<in> set ((running st)[i := (running st ! i)\<lparr>pgrp := 0\<rparr>]). pgrp s \<noteq> 0 \<longrightarrow> (\<exists>e \<in> set (coll cfg). cmd s = Some e)"
    using assms(1) by (intro all_set_update) (auto simp: slots_inv_alt)
  moreover have "base + mset (groups st) + mset (live (orphans st)) - {#p#} =
      base + (mset (groups st) - {#p#}) + mset (live (orphans st))"
    using m by (rule mset_remove_middle)
  ultimately show "slots_inv base cfg ((set_slot i (\<lambda>s. s\<lparr>pgrp := 0\<rparr>) st)\<lparr>zoofile := z\<rparr>)"
    using assms(1,5,6) g by (auto simp: slots_inv_alt set_slot_def)
qed

text \<open>A collected child: the invariant, one live group less.\<close>

definition collected :: "pid multiset \<Rightarrow> pan_cfg \<Rightarrow> pid \<Rightarrow> pan_state \<Rightarrow> pan_state \<Rightarrow> bool" where
  "collected base cfg p st st' \<longleftrightarrow> slots_inv base cfg st' \<and> sched st' = sched st
     \<and> length (running st') = length (running st) \<and> p \<in># mset (groups st) \<and> mset (groups st') = mset (groups st) - {#p#}"

lemma release_slot_law:
  assumes inv: "slots_inv base cfg st" and i: "i < length (running st)" "pgrp (running st ! i) = we_pid env"
    and p: "we_pid env \<noteq> 0" "int_range (we_pid env)" and zok: "zoo_ok (we_zclear env)" "zoo_ok (we_zmark env)"
    and e: "clean (ce_cmdline e)"
  shows "\<exists>st'. release_slot env i e st = Some (Ret st') \<and> collected base cfg (we_pid env) st st'"
proof -
  let ?p = "we_pid env"
  have "?p \<in># zoo_pids (zoofile st)"
    using inv groups_memI [OF i(1)] i(2) p(1) by (simp add: slots_inv_alt)
  moreover have zi: "zoo_inv (zoofile st)" using inv by (simp add: slots_inv_alt)
  ultimately obtain z where z: "zoo_clear (we_zclear env) (zoofile st) ?p = Some (0, z)" "zoo_inv z"
      "zoo_pids z = zoo_pids (zoofile st) - {#?p#}"
    using zs.clear_law zok(1) by blast
  let ?st1 = "(set_slot i (\<lambda>s. s\<lparr>pgrp := 0\<rparr>) st)\<lparr>zoofile := z\<rparr>"
  note r = slots_inv_release [OF inv i p(1) z(2,3)]
  have c: "collected base cfg ?p st ?st1" using r by (simp add: collected_def set_slot_def sched_def attempts_def)
  show ?thesis
  proof (cases "we_group env = 0 \<or> we_group env = EPERM")
    case True
    obtain z2 where z2: "zoo_mark_cmdline (we_zmark env) z ?p ''panorphan'' (ce_cmdline e) = Some (0, z2)" "zoo_inv z2"
        "zoo_pids z2 = add_mset ?p (zoo_pids z)"
      using zs.mark_law [OF z(2) zok(2) p(2) _ e, of "''panorphan''"] by (auto simp: clean_def)
    let ?st2 = "act [Kill_group ?p SIGTERM] (?st1\<lparr>zoofile := z2, orphans := mark_orphan (orphans st) ?p\<rparr>)"
    have "slots_inv base cfg ?st2"
      using r(1) z2 mset_live_mark_orphan [of "orphans st" ?p] p(1) by (auto simp: slots_inv_alt act_def set_slot_def groups_def)
    moreover have "groups ?st2 = groups ?st1" by (simp add: groups_def act_def)
    ultimately have "collected base cfg ?p st ?st2" using c by (simp add: collected_def act_def set_slot_def sched_def attempts_def)
    then show ?thesis using True z(1) z2(1) by (auto simp: release_slot_def set_slot_def)
  next
    case False
    then show ?thesis using z(1) c by (simp add: release_slot_def set_slot_def)
  qed
qed

lemma reap_slot_law:
  assumes inv: "slots_inv base cfg st" and i: "i < length (running st)" "pgrp (running st ! i) = we_pid env"
    and p: "we_pid env \<noteq> 0" "int_range (we_pid env)" and zok: "zoo_ok (we_zclear env)" "zoo_ok (we_zmark env)"
    and cc: "clean_coll cfg" and reap: "reap_slot cfg env i ret st = Some (Ret (r, st'))"
  shows "collected base cfg (we_pid env) st st'"
proof -
  have "\<forall>s \<in> set (running st). pgrp s \<noteq> 0 \<longrightarrow> (\<exists>e \<in> set (coll cfg). cmd s = Some e)"
    using inv by (simp add: slots_inv_alt)
  from bspec [OF this nth_mem [OF i(1)]] obtain e where e: "cmd (running st ! i) = Some e" "e \<in> set (coll cfg)"
    using i(2) p(1) by auto
  then have "clean (ce_cmdline e)" using cc by (simp add: clean_coll_def)
  obtain w how stx st1 where st1: "report_end cfg env i e w how stx = Some (Ret st1)" "core_of stx = core_of st"
    and rel: "release_slot env i e st1 = Some (Ret st')"
    using reap e(1) by (auto simp: reap_slot_def Let_def outcome_simps core_simps split: prod.splits)
  have c1: "core_of st1 = core_of st" using core_report_end [OF st1(1)] st1(2) by simp
  have "slots_inv base cfg st1" "i < length (running st1)" "pgrp (running st1 ! i) = we_pid env"
    using inv i core_facts(1,7) [OF c1] core_slot(1) [OF c1] by auto
  from release_slot_law [OF this p zok \<open>clean (ce_cmdline e)\<close>] rel
  have "collected base cfg (we_pid env) st1 st'" by auto
  then show ?thesis using core_facts [OF c1] by (simp add: collected_def)
qed

lemma child_status_over:
  "wifexited s \<or> wifsignaled s \<Longrightarrow> snd (child_status s) \<in> {''signaled'', ''exited''}"
  by (auto simp: child_status_def)

text \<open>The scheduling part of the state that \<open>check_pids\<close> keeps.\<close>

definition kept :: "pan_state \<Rightarrow> pan_state \<Rightarrow> bool" where
  "kept st st' \<longleftrightarrow> length (running st') = length (running st) \<and> snd (sched st') = snd (sched st)"

lemma kept_core: "core_of st' = core_of st \<Longrightarrow> kept st st'"
  using core_facts(7,8) [of st' st] by (simp add: kept_def)

lemma kept_trans: "kept st st1 \<Longrightarrow> kept st1 st2 \<Longrightarrow> kept st st2"
  by (simp add: kept_def)

lemma num_active_collected:
  assumes "collected base cfg p (st\<lparr>num_active := int (length (groups st)) - 1\<rparr>) st'"
  shows "pan_inv base cfg st' \<and> kept st st'"
proof -
  have g: "p \<in># mset (groups st)" "mset (groups st') = mset (groups st) - {#p#}"
    "sched st' = sched (st\<lparr>num_active := int (length (groups st)) - 1\<rparr>)"
    using assms by (simp_all add: collected_def groups_def)
  have "Suc (length (groups st')) = length (groups st)"
    using g(1,2) by (metis Suc_pred' length_pos_if_in_set set_mset_mset size_Diff_singleton size_mset)
  then show ?thesis using assms g(3) by (simp add: pan_inv_def collected_def sched_def kept_def attempts_def)
qed

lemma check_pids_law:
  assumes inv: "pan_inv base cfg st" and w: "wait_ok env (groups st)" and oz: "\<forall>p. zoo_ok (we_ozoo env p)"
    and cc: "clean_coll cfg" and cp: "check_pids cfg env st = Some (Ret (err, st'))"
  shows "pan_inv base cfg st' \<and> kept st st'"
proof -
  have si: "slots_inv base cfg st" and na: "num_active st = int (length (groups st))" using inv by (simp_all add: pan_inv_def)
  obtain st1 where st1: "run_check_orphans (we_orphans env) (we_ozoo env) 0 st = Some st1" "slots_inv base cfg st1"
      "running st1 = running st" "sched st1 = sched st"
    using run_check_orphans_law [OF si oz, of "we_orphans env" 0] by auto
  have g1: "groups st1 = groups st" "num_active st1 = int (length (groups st1))"
    using st1(3,4) na by (simp_all add: groups_def sched_def)
  have k1: "kept st st1" using st1(3,4) by (simp add: kept_def)
  show ?thesis
  proof (cases "we_err env = 0")
    case False
    with cp st1(1) have "core_of st' = core_of st1" by (auto simp: check_pids_def core_simps)
    then show ?thesis
      using core_facts(2) [of st' st1 base cfg] st1(2) g1 kept_trans [OF k1 kept_core] by (simp add: pan_inv_def)
  next
    case True
    let ?st2 = "st1\<lparr>num_active := int (length (groups st1)) - 1\<rparr>"
    have pid: "we_pid env \<in> set (groups st1)" "int_range (we_pid env)" "we_pid env \<noteq> 0"
      and over: "snd (child_status (we_status env)) \<in> {''signaled'', ''exited''}"
      using w True g1(1) child_status_over by (auto simp: wait_ok_def groups_def live_def)
    have "\<exists>s \<in> set (running st1). pgrp s = we_pid env" using pid(1) by (auto simp: groups_def live_def)
    then obtain i where i: "first_index (\<lambda>s. pgrp s = we_pid env) (running st1) = Some i"
      using first_index_None [of "\<lambda>s. pgrp s = we_pid env" "running st1"] by fastforce
    obtain ret r st3 where "reap_slot cfg env i ret ?st2 = Some (Ret (r, st3))" and d: "st' = deliver (we_sigs env) st3"
      using cp st1(1) True over i g1(2)
      by (auto simp: check_pids_def Let_def outcome_simps split: prod.splits)
    then have "collected base cfg (we_pid env) ?st2 st3"
      using first_index_Some [OF i] pid w cc st1(2)
      by (intro reap_slot_law) (auto simp: slots_inv_alt groups_def wait_ok_def)
    then have "pan_inv base cfg st3 \<and> kept st1 st3" by (rule num_active_collected)
    moreover have "core_of st' = core_of st3" by (simp add: d core_simps)
    ultimately show ?thesis
      using core_facts(2) [of st' st3 base cfg] kept_trans [OF kept_trans [OF k1, of st3] kept_core, of st'] by simp
  qed
qed

end
