(* ===== verification/Pan_Run.thy ===== *)
theory Pan_Run
  imports Pan_Spec
begin

section \<open>Whole runs of the driver\<close>

text \<open>
  The invariant of \<open>Pan_Spec\<close> through the scheduling loop, the wait for orphans and the end of
  \<open>main\<close>; the order in which a sequential run goes through its commands; the signal ratchet.
\<close>

subsection \<open>The scheduling loop\<close>

text \<open>The commands tried so far are the collection, read round and round from its start.\<close>

definition nth_round :: "pan_cfg \<Rightarrow> nat \<Rightarrow> coll_entry" where
  "nth_round cfg k = coll cfg ! (k mod length (coll cfg))"

definition in_order :: "pan_cfg \<Rightarrow> pan_state \<Rightarrow> bool" where
  "in_order cfg st \<longleftrightarrow> (sequential cfg \<longrightarrow>
     attempts st = map (nth_round cfg) [0..<length (attempts st)] \<and> cidx st = length (attempts st) mod length (coll cfg))"

text \<open>The number of starts left, where it is bounded.\<close>

definition counted :: "int \<Rightarrow> pan_cfg \<Rightarrow> pan_state \<Rightarrow> bool" where
  "counted s0 cfg st \<longleftrightarrow> (sequential cfg \<and> 0 < s0 \<longrightarrow> 0 \<le> starts st \<and> starts st + int (length (attempts st)) = s0)"

definition loop_inv :: "pid multiset \<Rightarrow> int \<Rightarrow> pan_cfg \<Rightarrow> pan_state \<Rightarrow> bool" where
  "loop_inv base s0 cfg st \<longleftrightarrow> pan_inv base cfg st \<and> in_order cfg st \<and> counted s0 cfg st"

lemma loop_inv_kept:
  assumes "loop_inv base s0 cfg st" "pan_inv base cfg st'" "kept st st'"
  shows "loop_inv base s0 cfg st'"
  using assms by (simp add: loop_inv_def in_order_def counted_def kept_def sched_def)

lemma loop_inv_core:
  assumes "loop_inv base s0 cfg st" "core_of st' = core_of st"
  shows "loop_inv base s0 cfg st'"
  using assms(1) loop_inv_kept [OF assms(1) _ kept_core [OF assms(2)]] core_facts(2) [OF assms(2)]
  by (simp add: loop_inv_def)

lemma next_index:
  assumes "0 < n" shows "(if k mod n + 1 \<ge> n then 0 else k mod n + 1) = Suc k mod (n :: nat)"
proof -
  have "k mod n < n" using assms by simp
  then show ?thesis by (simp add: mod_Suc)
qed

lemma count_start_law:
  assumes inv: "loop_inv base s0 cfg st" and cc: "clean_coll cfg" and st: "starts st \<noteq> 0"
    and c: "c = (if sequential cfg then cidx st else rnd mod length (coll cfg))"
    and s: "started base cfg cpid (act [Attempt (coll cfg ! c)] st) st1"
  shows "loop_inv base s0 cfg (count_start cfg c cpid st1)"
proof -
  let ?n = "length (coll cfg)"
  have n: "0 < ?n" using cc by (simp add: clean_coll_def)
  have sch: "num_active st1 = num_active st" "cidx st1 = cidx st" "starts st1 = starts st"
      "attempts st1 = attempts st @ [coll cfg ! c]" and g: "slots_inv base cfg st1"
      "mset (groups st1) = (if cpid = -1 then mset (groups st) else add_mset cpid (mset (groups st)))"
    using s by (simp_all add: started_def sched_def attempts_def act_def groups_def)
  have len: "length (groups st1) = length (groups st) + (if cpid = -1 then 0 else 1)"
    using arg_cong [OF g(2), of size] by (simp split: if_splits)
  have "pan_inv base cfg (count_start cfg c cpid st1)"
    using g(1) len inv sch(1)
    by (auto simp: pan_inv_def loop_inv_def count_start_def slots_inv_alt groups_def)
  moreover have "in_order cfg (count_start cfg c cpid st1)"
    using inv sch(4) n next_index [of ?n "length (attempts st)"]
    by (auto simp: loop_inv_def in_order_def count_start_def attempts_def c nth_round_def)
  moreover have "counted s0 cfg (count_start cfg c cpid st1)"
    using inv sch st by (auto simp: loop_inv_def counted_def count_start_def attempts_def)
  ultimately show ?thesis by (simp add: loop_inv_def)
qed

lemma start_children_law:
  assumes "loop_inv base s0 cfg st" "clean_coll cfg" "\<forall>(rnd, env) \<in> set envs. run_ok env"
    and "start_children cfg envs st = Some (Ret st')"
  shows "loop_inv base s0 cfg st'"
  using assms
proof (induction cfg envs st rule: start_children.induct)
  case (2 cfg rnd env envs st)
  let ?c = "if sequential cfg then cidx st else rnd mod length (coll cfg)"
  show ?case
  proof (cases "may_start st")
    case False
    with "2.prems" show ?thesis by simp
  next
    case True
    show ?thesis
    proof (cases "first_index (\<lambda>s. pgrp s = 0) (running st)")
      case None
      have "\<forall>s \<in> set (running st). pgrp s \<noteq> 0" using None by (simp add: first_index_None)
      then have "length (groups st) = length (running st)" by (simp add: groups_def live_def)
      with True "2.prems"(1) show ?thesis by (simp add: may_start_def loop_inv_def pan_inv_def)
    next
      case (Some i)
      obtain cpid st1 where r: "run_child cfg env i (coll cfg ! ?c) st = Some (Ret (cpid, st1))"
        and rest: "start_children cfg envs (deliver (re_sigs env) (count_start cfg ?c cpid st1)) = Some (Ret st')"
        using "2.prems"(4) True Some by (auto simp: Let_def outcome_simps)
      have free: "free_slot base cfg i st"
        using first_index_Some [OF Some] "2.prems"(1) by (simp add: free_slot_def loop_inv_def pan_inv_def)
      have "?c < length (coll cfg)"
        using "2.prems"(1,2) by (auto simp: clean_coll_def loop_inv_def in_order_def)
      then have s: "started base cfg cpid (act [Attempt (coll cfg ! ?c)] st) st1"
        using run_child_started [OF free _ "2.prems"(2) _ r] "2.prems"(3) by simp
      have "starts st \<noteq> 0" using True by (simp add: may_start_def)
      note law = count_start_law [OF "2.prems"(1,2) this refl s]
      have inv: "loop_inv base s0 cfg (deliver (re_sigs env) (count_start cfg ?c cpid st1))"
        by (rule loop_inv_core [OF law]) (simp add: core_simps)
      show ?thesis
        by (rule "2.IH" [OF _ refl Some inv "2.prems"(2) _ rest]) (use True "2.prems"(3) in auto)
    qed
  qed
qed (auto split: if_splits)

text \<open>What one turn of the loop relies on: the calls succeed as \<open>run_ok\<close> and \<open>wait_ok\<close> say.\<close>

definition kernel_turn :: "pan_cfg \<Rightarrow> iter_env \<Rightarrow> pan_state \<Rightarrow> bool" where
  "kernel_turn cfg ie st \<longleftrightarrow> (\<forall>(rnd, env) \<in> set (ie_starts ie). run_ok env) \<and> (\<forall>p. zoo_ok (ie_kzoo ie p))
     \<and> (\<forall>p. zoo_ok (we_ozoo (ie_wait ie) p))
     \<and> (case start_children cfg (ie_starts ie) st of Some (Ret st1) \<Rightarrow> wait_ok (ie_wait ie) (groups st1) | _ \<Rightarrow> True)"

fun kernel_ok :: "pan_cfg \<Rightarrow> iter_env list \<Rightarrow> pan_state \<Rightarrow> bool" where
  "kernel_ok cfg [] st \<longleftrightarrow> True"
| "kernel_ok cfg (ie # ies) st \<longleftrightarrow> kernel_turn cfg ie st \<and>
     (case loop_body cfg ie st of Some (Ret (fin, st1)) \<Rightarrow> fin \<or> kernel_ok cfg ies st1 | _ \<Rightarrow> True)"

lemma handle_signal_law:
  assumes inv: "loop_inv base s0 cfg st" and z: "\<forall>p. zoo_ok (ze p)" and h: "handle_signal ke ze st = Some st'"
  shows "loop_inv base s0 cfg st' \<and> groups st' = groups st"
proof -
  let ?st = "if rec_signal st = SIGUSR1 then st\<lparr>fork_in_road := False\<rparr> else st"
  have c: "core_of ?st = core_of st" by (simp add: core_of_def sched_def attempts_def)
  have u2: "core_of ((idle_or_stop st)\<lparr>rec_signal := 0, send_signal := 0\<rparr>) = core_of st"
    by (simp add: idle_or_stop_def core_of_def sched_def attempts_def)
  consider (no) "st' = st" | (usr2) "st' = (idle_or_stop st)\<lparr>rec_signal := 0, send_signal := 0\<rparr>"
    | (fwd) st1 where "propagate_signal ke ze ?st = Some st1" "st' = idle_or_stop st1"
    using h by (auto simp: handle_signal_def split: if_splits)
  then show ?thesis
  proof cases
    case no
    with inv show ?thesis by simp
  next
    case usr2
    then have "core_of st' = core_of st" using u2 by simp
    then show ?thesis using loop_inv_core [OF inv] core_facts(3) by blast
  next
    case fwd
    have inv2: "loop_inv base s0 cfg ?st" by (rule loop_inv_core [OF inv c])
    then have si: "slots_inv base cfg ?st" by (simp add: loop_inv_def pan_inv_def)
    obtain st1' where p: "propagate_signal ke ze ?st = Some st1'" "slots_inv base cfg st1'" "groups st1' = groups ?st"
        "sched st1' = sched ?st" "length (running st1') = length (running ?st)"
      using propagate_signal_law [OF si z] by blast
    have "pan_inv base cfg st1' \<and> kept ?st st1'"
      using inv2 p by (simp add: pan_inv_def loop_inv_def kept_def) (simp add: sched_def)
    then have "loop_inv base s0 cfg st1'" using loop_inv_kept [OF inv2] by blast
    moreover have "core_of st' = core_of st1'" using fwd p(1) by (simp add: core_simps)
    ultimately show ?thesis
      using loop_inv_core core_facts(3) [of st' st1'] p(3) core_facts(3) [OF c] by auto
  qed
qed

lemma end_of_turn_core:
  assumes "end_of_turn st = (fin, st')"
  shows "core_of st' = core_of st \<and> (fin \<longrightarrow> stop st' \<noteq> 0 \<and> num_active st' = 0)"
proof -
  have "core_of (st\<lparr>go_idle := 0\<rparr>) = core_of st" by (simp add: core_of_def sched_def attempts_def)
  then show ?thesis using assms by (auto simp: end_of_turn_def core_simps split: if_splits)
qed

lemma loop_body_law:
  assumes inv: "loop_inv base s0 cfg st" and cc: "clean_coll cfg" and k: "kernel_turn cfg ie st"
    and b: "loop_body cfg ie st = Some (Ret (fin, st'))"
  shows "loop_inv base s0 cfg st' \<and> (fin \<longrightarrow> stop st' \<noteq> 0 \<and> num_active st' = 0)"
proof -
  obtain st1 st2 err st3 where s1: "start_children cfg (ie_starts ie) st = Some (Ret st1)"
    and s2: "handle_signal (ie_kill ie) (ie_kzoo ie) (check_stop cfg (ie_stopfile ie) st1) = Some st2"
    and s3: "check_pids cfg (ie_wait ie) st2 = Some (Ret (err, st3))"
    and t: "end_of_turn (if err \<noteq> 0 then note_error cfg st3 else st3) = (fin, st')"
    using b by (auto simp: loop_body_def outcome_simps split: option.splits)
  have s4: "core_of st' = core_of st3" "fin \<longrightarrow> stop st' \<noteq> 0 \<and> num_active st' = 0"
    using end_of_turn_core [OF t] by (auto simp: core_simps split: if_splits)
  have i1: "loop_inv base s0 cfg st1"
    using start_children_law [OF inv cc _ s1] k by (simp add: kernel_turn_def)
  let ?c = "check_stop cfg (ie_stopfile ie) st1"
  have cc1: "core_of ?c = core_of st1" by (simp add: core_simps)
  have i2: "loop_inv base s0 cfg st2" "groups st2 = groups st1"
    using handle_signal_law [OF loop_inv_core [OF i1 cc1] _ s2] k core_facts(3) [OF cc1] by (auto simp: kernel_turn_def)
  have "wait_ok (ie_wait ie) (groups st2)" using k s1 i2(2) by (simp add: kernel_turn_def)
  then have "pan_inv base cfg st3 \<and> kept st2 st3"
    using check_pids_law [of base cfg st2, OF _ _ _ cc s3] i2(1) k by (simp add: loop_inv_def kernel_turn_def)
  then have "loop_inv base s0 cfg st3" using loop_inv_kept [OF i2(1)] by blast
  then show ?thesis using loop_inv_core s4 by blast
qed

lemma main_loop_law:
  assumes "loop_inv base s0 cfg st" "clean_coll cfg" "kernel_ok cfg ies st" "main_loop cfg ies st = Some (Ret st')"
  shows "loop_inv base s0 cfg st' \<and> stop st' \<noteq> 0 \<and> groups st' = []"
  using assms
proof (induction ies arbitrary: st)
  case (Cons ie ies)
  obtain fin st1 where b: "loop_body cfg ie st = Some (Ret (fin, st1))"
    and r: "(if fin then Some (Ret st1) else main_loop cfg ies st1) = Some (Ret st')"
    using Cons.prems(4) by (auto simp: outcome_simps)
  note law = loop_body_law [OF Cons.prems(1,2) _ b]
  show ?case
  proof (cases fin)
    case True
    then show ?thesis using r law Cons.prems(3) by (auto simp: loop_inv_def pan_inv_def)
  next
    case False
    then show ?thesis using r law Cons.prems(3) b by (intro Cons.IH [OF _ Cons.prems(2)]) auto
  qed
qed simp

subsection \<open>The wait for orphaned groups\<close>

definition armed :: "orphan_env \<Rightarrow> pan_state \<Rightarrow> pan_state" where
  "armed oe st = (let st1 = deliver (oe_sigs oe) st in if rec_signal st1 = 0 then wait_handler SIGINT st1 else st1)"

lemma core_armed: "core_of (armed oe st) = core_of st"
  by (simp add: armed_def Let_def core_simps)

lemma effects_armed: "effects (armed oe st) = effects st"
proof -
  have w: "effects (wait_handler sig st) = effects st" for sig st by (simp add: wait_handler_def Let_def)
  have "effects (deliver sigs st) = effects st" for sigs
    unfolding deliver_def by (induction sigs arbitrary: st) (simp_all add: w)
  then show ?thesis by (simp add: armed_def Let_def w)
qed

lemma orphan_round_law:
  assumes inv: "slots_inv base cfg st" and z: "\<forall>p. zoo_ok (oe_zoo oe p)"
  shows "\<exists>st'. orphan_round oe st = Some st' \<and> slots_inv base cfg st' \<and> groups st' = groups st \<and> sched st' = sched st
    \<and> orphans st' = map (\<lambda>p. if oe_kill oe p = ESRCH then 0 else p) (orphans st)
    \<and> effects st' = effects st @ map (\<lambda>p. Kill_group p (send_signal (armed oe st))) (groups st @ live (orphans st))
    \<and> rec_signal st' = 0 \<and> send_signal st' = 0 \<and> lastsent st' = lastsent (armed oe st)"
proof -
  note c = core_facts [OF core_armed [of oe st]]
  have "slots_inv base cfg (armed oe st)" using inv c(1) by simp
  from propagate_signal_law [OF this z, of "oe_kill oe"] show ?thesis
    unfolding c(3,4,8) effects_armed by (auto simp: orphan_round_def armed_def Let_def)
qed

lemma orphan_wait_law:
  assumes "slots_inv base cfg st" "\<forall>oe \<in> set oes. \<forall>p. zoo_ok (oe_zoo oe p)" "orphan_wait oes st = Some (Ret st')"
  shows "slots_inv base cfg st' \<and> groups st' = groups st \<and> sched st' = sched st \<and> live (orphans st') = []"
  using assms
proof (induction oes arbitrary: st)
  case Nil
  then show ?case by (subst (asm) orphan_wait.simps) (auto simp: live_def filter_empty_conv split: if_splits)
next
  case (Cons oe oes)
  show ?case
  proof (cases "\<forall>p \<in> set (orphans st). p = 0")
    case True
    with Cons.prems show ?thesis by (subst (asm) orphan_wait.simps) (auto simp: live_def filter_empty_conv)
  next
    case False
    obtain st1 where st1: "orphan_round oe st = Some st1" "slots_inv base cfg st1" "groups st1 = groups st" "sched st1 = sched st"
      using orphan_round_law [OF Cons.prems(1), of oe] Cons.prems(2) by auto
    have "orphan_wait oes st1 = Some (Ret st')"
      using Cons.prems(3) st1(1) False by (subst (asm) orphan_wait.simps) (simp split: if_splits)
    from Cons.IH [OF st1(2) _ this] Cons.prems(2) st1(3,4) show ?thesis by simp
  qed
qed

text \<open>How many further rounds the ratchet needs to reach \<open>SIGKILL\<close>.\<close>

definition rank :: "signo \<Rightarrow> nat" where
  "rank l = (if l = SIGHUP then 1 else if l = SIGTERM then 2 else if l = SIGINT then 3
             else if l = 0 \<or> l = SIGUSR1 then 4 else 5)"

lemma ratchet_step:
  assumes "rec_signal st = 0" "send_signal st = 0" "oe_sigs oe = []"
  shows "lastsent (armed oe st) = send_signal (armed oe st)"
    and "rank (lastsent st) = 1 \<longleftrightarrow> send_signal (armed oe st) = SIGKILL"
    and "rank (lastsent st) \<noteq> 1 \<Longrightarrow> rank (lastsent (armed oe st)) = rank (lastsent st) - 1"
  using assms by (auto simp: armed_def deliver_def wait_handler_def rank_def Let_def signal_numbers)

text \<open>What the wait relies on of the kernel: a group that was sent \<open>SIGKILL\<close> is gone by the next round.\<close>

fun reaping :: "orphan_env list \<Rightarrow> pan_state \<Rightarrow> bool" where
  "reaping [] st \<longleftrightarrow> True"
| "reaping (oe # oes) st \<longleftrightarrow> (\<forall>p. Kill_group p SIGKILL \<in> set (effects st) \<longrightarrow> oe_kill oe p = ESRCH)
     \<and> (case orphan_round oe st of None \<Rightarrow> True | Some st1 \<Rightarrow> reaping oes st1)"

lemma orphan_wait_step:
  assumes "orphan_round oe st = Some st1" "\<exists>st'. orphan_wait oes st1 = Some (Ret st')"
  shows "\<exists>st'. orphan_wait (oe # oes) st = Some (Ret st')"
  using assms by (subst orphan_wait.simps) (simp split: if_splits)

lemma orphan_wait_killed:
  assumes inv: "slots_inv base cfg st" and oes: "oes \<noteq> []" "\<forall>oe \<in> set oes. \<forall>p. zoo_ok (oe_zoo oe p)" "reaping oes st"
    and killed: "\<forall>p \<in> set (live (orphans st)). Kill_group p SIGKILL \<in> set (effects st)"
  shows "\<exists>st'. orphan_wait oes st = Some (Ret st')"
proof -
  obtain oe rest where o: "oes = oe # rest" using oes(1) by (cases oes) auto
  obtain st1 where st1: "orphan_round oe st = Some st1" "orphans st1 = map (\<lambda>p. if oe_kill oe p = ESRCH then 0 else p) (orphans st)"
    using orphan_round_law [OF inv, of oe] oes(2) o by auto
  have "\<forall>p \<in> set (orphans st1). p = 0"
    using oes(3) killed st1(2) by (auto simp: o live_def)
  then have "\<exists>st'. orphan_wait rest st1 = Some (Ret st')" by (subst orphan_wait.simps) simp
  then show ?thesis unfolding o by (rule orphan_wait_step [OF st1(1)])
qed

lemma orphan_wait_ends:
  assumes "slots_inv base cfg st" "rec_signal st = 0" "send_signal st = 0"
    and "\<forall>oe \<in> set oes. oe_sigs oe = [] \<and> (\<forall>p. zoo_ok (oe_zoo oe p))"
    and "reaping oes st" "rank (lastsent st) < length oes"
  shows "\<exists>st'. orphan_wait oes st = Some (Ret st')"
  using assms
proof (induction oes arbitrary: st)
  case (Cons oe oes)
  have z: "\<forall>p. zoo_ok (oe_zoo oe p)" and s: "oe_sigs oe = []" using Cons.prems(4) by auto
  obtain st1 where st1: "orphan_round oe st = Some st1" "slots_inv base cfg st1"
      "orphans st1 = map (\<lambda>p. if oe_kill oe p = ESRCH then 0 else p) (orphans st)"
      "effects st1 = effects st @ map (\<lambda>p. Kill_group p (send_signal (armed oe st))) (groups st @ live (orphans st))"
      "rec_signal st1 = 0" "send_signal st1 = 0" "lastsent st1 = lastsent (armed oe st)"
    using orphan_round_law [OF Cons.prems(1) z] by blast
  note step = ratchet_step [OF Cons.prems(2,3) s]
  have "\<exists>st'. orphan_wait oes st1 = Some (Ret st')"
  proof (cases "rank (lastsent st) = 1")
    case True
    then have "send_signal (armed oe st) = SIGKILL" using step(2) by blast
    then have k: "\<forall>p \<in> set (live (orphans st1)). Kill_group p SIGKILL \<in> set (effects st1)"
      using st1(3,4) by (auto simp: live_def)
    show ?thesis
      by (rule orphan_wait_killed [OF st1(2) _ _ _ k]) (use Cons.prems(4-6) True st1(1) in auto)
  next
    case False
    then have "rank (lastsent st1) < length oes" using step(3) st1(7) Cons.prems(6) by (auto simp: rank_def)
    then show ?thesis using Cons.IH [OF st1(2,5,6)] Cons.prems(4,5) st1(1) by simp
  qed
  then show ?case by (rule orphan_wait_step [OF st1(1)])
qed simp

subsection \<open>Setting up\<close>

lemma reserve_lines_mark_all:
  "zs.mark_all env z ps name [] = Some z' \<Longrightarrow> reserve_lines env name ps z = Some (Ret z')"
  by (induction env name ps z rule: reserve_lines.induct) (auto split: option.splits if_splits)

lemma give_back_clear_all:
  "zs.clear_all env z ps = Some z' \<Longrightarrow> give_back_lines env ps z = Some (Ret z')"
  by (induction env ps z rule: give_back_lines.induct) (auto split: option.splits if_splits)

lemma cat_args_fits: "argv \<noteq> [] \<Longrightarrow> cat_args_size argv = length (cat_args_text argv) + 1"
  by (induction argv rule: cat_args_text.induct) (auto simp: cat_args_size_def)

lemma clean_cat_args: "\<forall>a \<in> set argv. clean a \<Longrightarrow> clean (cat_args_text argv)"
  by (induction argv rule: cat_args_text.induct) (auto simp: clean_def)

lemma setup_zoo_law:
  assumes "zoo_inv z" "zoo_ok env" "int_range self" "clean name" "argv \<noteq> []" "\<forall>a \<in> set argv. clean a"
    and "int k \<le> INT_MAX"
  shows "\<exists>z'. setup_zoo True env self name argv k z = Some (Ret z') \<and> zoo_inv z' \<and> zoo_pids z' = add_mset self (zoo_pids z)"
proof -
  obtain z1 where z1: "zoo_mark_cmdline env z self name (cat_args_text argv) = Some (0, z1)" "zoo_inv z1"
      "zoo_pids z1 = add_mset self (zoo_pids z)"
    using zs.mark_law [OF assms(1-4) clean_cat_args [OF assms(6)]] by blast
  have m: "zoo_mark_args True env z self name argv = Ret (Some (0, z1))"
    using z1(1) cat_args_fits [OF assms(5)] by (simp add: zoo_mark_args_def cat_args_def)
  have r: "\<forall>p \<in> set (map int [0..<k]). int_range p"
    using assms(7) by (auto simp: int_range_def int_limits)
  have "clean []" by (simp add: clean_def)
  from zs.reserve_law [OF z1(2) assms(2) r assms(4) this] obtain z2 z3 where
    "zs.mark_all env z1 (map int [0..<k]) name [] = Some z2" "zs.clear_all env z2 (map int [0..<k]) = Some z3"
    "zoo_inv z3" "zoo_pids z3 = zoo_pids z1" by blast
  with m z1(3) reserve_lines_mark_all give_back_clear_all show ?thesis by (simp add: setup_zoo_def)
qed

lemma split_lines_no_NL: "l \<in> set (split_lines s) \<Longrightarrow> NL \<notin> set l \<and> set l \<subseteq> set s"
proof (induction s arbitrary: l)
  case (Cons c s)
  obtain m ms where "split_lines s = m # ms" by (cases "split_lines s") auto
  with Cons show ?case by (fastforce split: if_splits)
qed simp

lemma set_set_pcnt_s: "set (set_pcnt_s s) \<subseteq> insert (CHR ''s'') (set s)"
  by (induction s rule: set_pcnt_s.induct) auto

lemma clean_set_pcnt_s: "clean s \<Longrightarrow> clean (set_pcnt_s s)"
  using set_set_pcnt_s [of s] by (auto simp: clean_def)

lemma clean_coll_line:
  assumes "clean l" "coll_line l = Entry_line e"
  shows "clean (ce_name e) \<and> clean (ce_cmdline e)"
proof -
  let ?a = "set_pcnt_s l" and ?P = "\<lambda>c. \<not> is_delim c"
  have a: "clean ?a" by (rule clean_set_pcnt_s [OF assms(1)])
  have "e = \<lparr>ce_name = takeWhile ?P ?a, ce_cmdline = dropWhile is_space (tl (dropWhile ?P ?a)), ce_pcnt_f = has_pcnt_f l\<rparr>"
    using assms(2) by (auto simp: coll_line_def Let_def split: if_splits)
  moreover have "set (dropWhile is_space (tl (dropWhile ?P ?a))) \<subseteq> set ?a"
    using set_mono_suffix [OF suffix_order.trans [OF suffix_dropWhile suffix_order.trans [OF suffix_tl suffix_dropWhile]]] .
  ultimately show ?thesis using a by (auto simp: clean_def dest: set_takeWhileD)
qed

lemma clean_coll_lines:
  "\<forall>l \<in> set ls. clean l \<Longrightarrow> coll_lines ls = Some es \<Longrightarrow> \<forall>e \<in> set es. clean (ce_name e) \<and> clean (ce_cmdline e)"
proof (induction ls arbitrary: es)
  case (Cons l ls)
  then show ?case using clean_coll_line [of l] by (auto split: line_result.splits)
qed simp

lemma clean_fill_args:
  "clean work \<Longrightarrow> \<forall>a \<in> set as. clean a \<Longrightarrow> fill_args work left as = Ret r \<Longrightarrow> clean r"
proof (induction work left as rule: fill_args.induct)
  case (2 work left a as)
  have s: "clean w \<Longrightarrow> clean s \<Longrightarrow> strncat w s n = Ret t \<Longrightarrow> clean t" for w s n t
    by (auto simp: strncat_def Let_def clean_def split: if_splits dest: in_set_takeD)
  from "2.prems"(3) obtain w1 w2 where w: "strncat work a left = Ret w1" "strncat w1 '' '' (left - int (length a)) = Ret w2"
    "fill_args w2 (left - int (length a) - 1) as = Ret r" by (auto simp: outcome_simps)
  have "clean w1" using s [OF "2.prems"(1) _ w(1)] "2.prems"(2) by simp
  then have "clean w2" using s [OF _ _ w(2)] by (simp add: clean_def)
  then show ?case using "2.IH" [of w2] "2.prems"(2) w(3) by simp
qed simp

lemma clean_get_collection:
  assumes "get_collection env args = Ret (Some es)" "\<forall>a \<in> set args. clean a"
  shows "\<forall>e \<in> set es. clean (ce_name e) \<and> clean (ce_cmdline e)"
proof -
  from assms(1) obtain buf es0 where b: "coll_lines (split_lines (takeWhile (\<lambda>c. c \<noteq> NUL) buf)) = Some es0"
    and e: "es = es0 \<or> (\<exists>work. fill_args [] 1023 args = Ret work \<and>
        es = es0 @ [\<lparr>ce_name = ''cmdln'', ce_cmdline = set_pcnt_s work, ce_pcnt_f = has_pcnt_f work\<rparr>])"
    by (auto simp: get_collection_def outcome_simps split: option.splits if_splits)
  have "\<forall>l \<in> set (split_lines (takeWhile (\<lambda>c. c \<noteq> NUL) buf)). clean l"
    using split_lines_no_NL by (auto simp: clean_def dest: set_takeWhileD)
  then have "\<forall>e \<in> set es0. clean (ce_name e) \<and> clean (ce_cmdline e)" using clean_coll_lines b by blast
  moreover have "clean (set_pcnt_s work)" if "fill_args [] 1023 args = Ret work" for work
    using clean_set_pcnt_s [OF clean_fill_args [OF _ assms(2) that]] by (simp add: clean_def)
  moreover have "clean ''cmdln''" by (simp add: clean_def)
  ultimately show ?thesis using e by auto
qed

lemma time_option_name:
  assumes "time_option arg o1 = Ret o2"
  shows "o_panname o2 = o_panname o1"
proof -
  obtain ret n m where s: "sscanf_time arg (o_run_time o1) (o_modifier o1) = (ret, n, m)"
    by (cases "sscanf_time arg (o_run_time o1) (o_modifier o1)")
  consider "ret = 0" | "ret = 1" | "ret \<noteq> 0" "ret \<noteq> 1" by blast
  then show ?thesis using assms unfolding time_option_def s Let_def prod.case
    by cases (auto simp: bind_outcome_Ret_conv)
qed

lemma apply_option_name:
  assumes "apply_option (c, arg) o1 = Ret o2"
  shows "o_panname o2 = o_panname o1 \<or> o_panname o2 = Some arg"
proof (cases "c = CHR ''t''")
  case True
  with assms show ?thesis using time_option_name by (simp add: apply_option_def)
next
  case False
  with assms show ?thesis unfolding apply_option_def Let_def prod.case
    by (simp split: if_split_asm) (drule sym [of _ o2], simp)+
qed

lemma apply_options_name:
  assumes "\<forall>(c, a) \<in> set cas. clean a" "\<forall>n. o_panname o1 = Some n \<longrightarrow> clean n" "apply_options cas o1 = Ret o2"
  shows "\<forall>n. o_panname o2 = Some n \<longrightarrow> clean n"
  using assms
proof (induction cas arbitrary: o1)
  case (Cons ca cas)
  obtain c arg where ca: "ca = (c, arg)" by (cases ca)
  obtain o3 where o3: "apply_option (c, arg) o1 = Ret o3" "apply_options cas o3 = Ret o2"
    using Cons.prems(3) by (auto simp: ca outcome_simps)
  have h: "\<forall>n. o_panname o3 = Some n \<longrightarrow> clean n"
    using apply_option_name [OF o3(1)] Cons.prems(1,2) by (auto simp: ca)
  show ?case by (rule Cons.IH [OF _ h o3(2)]) (use Cons.prems(1) in simp)
qed simp

text \<open>What a run relies on besides the calls of the loop: a well-formed zoo, clean arguments, and zoo
  system calls that succeed.\<close>

definition main_ok :: "main_env \<Rightarrow> (char \<times> string) list \<Rightarrow> string list \<Rightarrow> string list \<Rightarrow> bool" where
  "main_ok me options argv args \<longleftrightarrow>
     zoo_ok (me_zenv me) \<and> zoo_ok (me_zlast me) \<and> me_zoo_mem me \<and> int_range (me_pid me)
     \<and> argv \<noteq> [] \<and> (\<forall>a \<in> set argv. clean a) \<and> (\<forall>a \<in> set args. clean a) \<and> (\<forall>(c, a) \<in> set options. clean a)
     \<and> (case me_zoo_open me of (e1, e2, e3, contents) \<Rightarrow>
          case fst (zoo_open e1 e2 e3 contents) of None \<Rightarrow> True | Some z \<Rightarrow> zoo_inv z)"

definition initial_zoo :: "main_env \<Rightarrow> zoo" where
  "initial_zoo me = (case me_zoo_open me of (e1, e2, e3, contents) \<Rightarrow> the (fst (zoo_open e1 e2 e3 contents)))"

lemma alloc_running_Ret:
  "alloc_running ok k = Ret slots \<Longrightarrow> slots = replicate (nat k) idle_slot \<and> int (length slots) \<le> max 0 k"
  by (auto simp: alloc_running_def split: if_splits)

lemma pan_setup_law:
  assumes ok: "main_ok me options argv args" and s: "pan_setup me options argv args = Some (Ret (cfg, st))"
    and k: "int (length (running st)) \<le> INT_MAX"
  shows "clean_coll cfg \<and> mypid cfg = me_pid me \<and> loop_inv (add_mset (me_pid me) (zoo_pids (initial_zoo me))) (starts st) cfg st
    \<and> lastsent st = 0 \<and> rec_signal st = 0 \<and> send_signal st = 0"
proof -
  obtain e1 e2 e3 contents where zo: "me_zoo_open me = (e1, e2, e3, contents)" by (cases "me_zoo_open me")
  from s zo obtain o1 name es slots z z1 where o: "apply_options options default_opts = Ret o1" "o_panname o1 = Some name"
    and col: "get_collection (me_slurp me) args = Ret (Some es)" "es \<noteq> []"
    and sl: "alloc_running (me_mem me) (o_keep_active o1) = Ret slots"
    and z: "fst (zoo_open e1 e2 e3 contents) = Some z"
    and z1: "setup_zoo (me_zoo_mem me) (me_zenv me) (me_pid me) name argv (length slots) z = Some (Ret z1)"
    and cfg: "cfg = make_cfg me o1 name es"
    and st: "\<exists>n lg. st = initial_state o1 slots n z1 lg"
    unfolding pan_setup_def by (simp only: bind_run_Ret_conv or_exit_Ret exit_if_Ret prod.case
        option.inject outcome.inject prod.inject) blast
  have "\<forall>n. o_panname o1 = Some n \<longrightarrow> clean n"
    by (rule apply_options_name [OF _ _ o(1)]) (use ok in \<open>auto simp: main_ok_def default_opts_def\<close>)
  then have nm: "clean name" using o(2) by simp
  have iz: "zoo_inv z" "initial_zoo me = z" using ok z zo by (simp_all add: main_ok_def initial_zoo_def)
  have run: "running st = slots" using st by (auto simp: initial_state_def)
  obtain z' where z': "setup_zoo True (me_zenv me) (me_pid me) name argv (length slots) z = Some (Ret z')" "zoo_inv z'"
      "zoo_pids z' = add_mset (me_pid me) (zoo_pids z)"
    using setup_zoo_law [OF iz(1) _ _ nm, of "me_zenv me" "me_pid me" argv "length slots"] ok k run
    by (auto simp: main_ok_def)
  have zz: "zoo_inv z1" "zoo_pids z1 = add_mset (me_pid me) (zoo_pids z)" using z' z1 ok by (auto simp: main_ok_def)
  have cc: "clean_coll cfg" using clean_get_collection [OF col(1)] col(2) ok by (simp add: cfg clean_coll_def make_cfg_def main_ok_def)
  have idle: "\<forall>s \<in> set slots. pgrp s = 0" "live (map pgrp slots) = []"
    using alloc_running_Ret [OF sl] by (auto simp: idle_slot_def live_def)
  have "loop_inv (add_mset (me_pid me) (zoo_pids z)) (starts st) cfg st"
    using st zz idle by (auto simp: loop_inv_def pan_inv_def slots_inv_alt groups_def in_order_def counted_def
        attempts_def initial_state_def live_def)
  with cc iz(2) st show ?thesis by (auto simp: cfg make_cfg_def initial_state_def)
qed

lemma finish_law:
  assumes inv: "slots_inv (add_mset (mypid cfg) b) cfg st" "groups st = []" "live (orphans st) = []" and z: "zoo_ok env"
  shows "\<exists>st'. finish cfg env un st = Some (Ret (exit_stat st, st')) \<and> zoo_pids (zoofile st') = b \<and> zoo_inv (zoofile st')
    \<and> groups st' = [] \<and> live (orphans st') = []"
proof -
  have "zoo_inv (zoofile st)" "zoo_pids (zoofile st) = add_mset (mypid cfg) b" using inv by (simp_all add: slots_inv_alt)
  then obtain z' where "zoo_clear env (zoofile st) (mypid cfg) = Some (0, z')" "zoo_inv z'" "zoo_pids z' = b"
    using zs.clear_law [of "zoofile st" env "mypid cfg"] z by auto
  with inv show ?thesis by (simp add: finish_def Let_def groups_def)
qed

end
