(* ===== verification/Pan_Props.thy ===== *)
theory Pan_Props
  imports Pan_Run
begin

section \<open>The properties of the driver\<close>

text \<open>
  The properties of whole runs of the driver, from the invariant of \<open>Pan_Spec\<close> and the lemmas of \<open>Pan_Run\<close>, with a
  concrete run on which their hypotheses hold.
\<close>

subsection \<open>A concrete run\<close>

text \<open>One command, run to its end, with system calls that all succeed.\<close>

definition run1_main :: main_env where
  "run1_main = \<lparr>me_zoo_var = None, me_log_err = 0, me_startup = [],
     me_slurp = \<lparr>sl_open = 0, sl_fstat = 0, sl_read_ok = True, sl_bytes = ''t ls'' @ [NL]\<rparr>,
     me_mem = True, me_stat = 0, me_isdir = True, me_access = 0, me_freopen = 0, me_failopen = 0, me_tconfopen = 0,
     me_zoo_open = (0, 0, 0, []), me_zoo_mem = True, me_zenv = good_env, me_pid = 100, me_zlast = good_env,
     me_uname = ([], [], [])\<rparr>"

definition run1_options :: "(char \<times> string) list" where
  "run1_options = [(CHR ''n'', ''pan''), (CHR ''a'', ''zoo''), (CHR ''S'', []), (CHR ''q'', [])]"

definition run1_start :: run_env where
  "run1_start = \<lparr>re_opens = [], re_pipe = 0, re_time = 5, re_kmsg = True, re_fork = 0, re_pid = 200, re_fail = None,
     re_zoo = good_env, re_sigs = []\<rparr>"

definition run1_wait :: wait_env where
  "run1_wait = \<lparr>we_orphans = (\<lambda>_. 0), we_ozoo = (\<lambda>_. good_env), we_err = 0, we_pid = 200, we_status = 0, we_time = 9,
     we_cu = 0, we_cs = 0, we_kmsg = True,
     we_output = \<lparr>sl_open = 0, sl_fstat = 0, sl_read_ok = True, sl_bytes = []\<rparr>,
     we_zclear = good_env, we_group = ESRCH, we_zmark = good_env, we_sigs = []\<rparr>"

definition run1_turn :: iter_env where
  "run1_turn = \<lparr>ie_starts = [(0, run1_start)], ie_stopfile = False, ie_kill = (\<lambda>_. 0), ie_kzoo = (\<lambda>_. good_env),
     ie_wait = run1_wait\<rparr>"

lemma run1_checks:
  "returns (pan_setup run1_main run1_options [''pan''] []) (\<lambda>(cfg, st0).
     length (running st0) = 1 \<and> sequential cfg \<and> starts st0 = int (length (coll cfg))
     \<and> returns (start_children cfg [(0, run1_start)] st0) (\<lambda>st1. wait_ok run1_wait (groups st1))
     \<and> returns (loop_body cfg run1_turn st0) (\<lambda>(fin, st1). fin \<and> starts st1 = 0))"
  by code_simp

lemma run1_returns:
  "returns (pan_main run1_main run1_options [''pan''] [] [run1_turn] []) (\<lambda>(status, st). status = 0)"
  by code_simp

lemma run1_main_ok: "main_ok run1_main run1_options [''pan''] []"
proof -
  have "zoo_inv (settled empty_zoo)" by (simp add: zoo_inv_def zoo_wf_def empty_zoo_def settled_def zoo_lines.simps)
  then have "zoo_inv \<lparr>zopen = True, zfile = [], zlocked = False, zmask = {}, zmsg = No_message\<rparr>"
    by (simp add: empty_zoo_def settled_def)
  then show ?thesis
    by (simp add: main_ok_def run1_main_def run1_options_def zoo_open_def int_range_def int_limits clean_def)
qed

lemma run1E:
  obtains cfg st0 where "pan_setup run1_main run1_options [''pan''] [] = Some (Ret (cfg, st0))"
    "int (length (running st0)) \<le> INT_MAX" "kernel_ok cfg [run1_turn] st0" "sequential cfg"
    "starts st0 = int (length (coll cfg))"
    "\<exists>st1. main_loop cfg [run1_turn] st0 = Some (Ret st1) \<and> starts st1 = 0"
proof -
  obtain cfg st0 where s: "pan_setup run1_main run1_options [''pan''] [] = Some (Ret (cfg, st0))"
    and c: "length (running st0) = 1" "sequential cfg" "starts st0 = int (length (coll cfg))"
      "returns (start_children cfg [(0, run1_start)] st0) (\<lambda>st1. wait_ok run1_wait (groups st1))"
      "returns (loop_body cfg run1_turn st0) (\<lambda>(fin, st1). fin \<and> starts st1 = 0)"
    using run1_checks unfolding returns_conv [of "pan_setup _ _ _ _"] by auto
  have "run_ok run1_start" by (simp add: run_ok_def run1_start_def int_range_def int_limits)
  moreover obtain st1 where st1: "start_children cfg [(0, run1_start)] st0 = Some (Ret st1)" "wait_ok run1_wait (groups st1)"
    using c(4) unfolding returns_conv by blast
  ultimately have kt: "kernel_turn cfg run1_turn st0"
    unfolding kernel_turn_def by (simp add: run1_turn_def del: start_children.simps) (simp add: run1_wait_def)
  obtain st2 where st2: "loop_body cfg run1_turn st0 = Some (Ret (True, st2))" "starts st2 = 0"
    using c(5) unfolding returns_conv by auto
  have "kernel_ok cfg [run1_turn] st0" "main_loop cfg [run1_turn] st0 = Some (Ret st2)" using kt st2 by simp_all
  then show ?thesis using that [OF s] c(1-3) st2(2) by (simp add: int_limits)
qed

subsection \<open>The whole run\<close>

text \<open>
  C1: a run of \<open>ltp-pan\<close> that comes to its end leaves the zoo file with exactly the process ids it found
  there: its own line, the reserved lines, the lines of all children and of all orphaned groups are
  given back, no slot is in use and no orphan is left.
\<close>

theorem pan_restores_zoo:
  assumes "main_ok me options argv args" and "pan_setup me options argv args = Some (Ret (cfg, st0))"
    and "int (length (running st0)) \<le> INT_MAX" and "kernel_ok cfg ies st0"
    and "\<forall>oe \<in> set oes. \<forall>p. zoo_ok (oe_zoo oe p)"
    and "pan_main me options argv args ies oes = Some (Ret (status, st'))"
  shows "zoo_inv (zoofile st') \<and> zoo_pids (zoofile st') = zoo_pids (initial_zoo me)
    \<and> groups st' = [] \<and> live (orphans st') = []"
proof -
  note su = pan_setup_law [OF assms(1-3)]
  obtain st1 st2 where st1: "main_loop cfg ies st0 = Some (Ret st1)" and st2: "orphan_wait oes st1 = Some (Ret st2)"
    and fin: "finish cfg (me_zlast me) (me_uname me) st2 = Some (Ret (status, st'))"
    using assms(2,6) by (auto simp: pan_main_def outcome_simps)
  have l: "loop_inv (add_mset (me_pid me) (zoo_pids (initial_zoo me))) (starts st0) cfg st1" "groups st1 = []"
    using main_loop_law [OF _ _ assms(4) st1] su by blast+
  then have "slots_inv (add_mset (mypid cfg) (zoo_pids (initial_zoo me))) cfg st2 \<and> groups st2 = [] \<and> live (orphans st2) = []"
    using orphan_wait_law [OF _ assms(5) st2] su by (auto simp: loop_inv_def pan_inv_def)
  moreover have "zoo_ok (me_zlast me)" using assms(1) by (simp add: main_ok_def)
  ultimately show ?thesis using finish_law [of cfg _ st2 "me_zlast me" "me_uname me"] fin by fastforce
qed

theorem pan_restores_zoo_witness:
  "\<exists>status st'. pan_main run1_main run1_options [''pan''] [] [run1_turn] [] = Some (Ret (status, st'))
     \<and> zoo_pids (zoofile st') = zoo_pids (initial_zoo run1_main)"
proof (rule run1E)
  fix cfg st0
  assume s: "pan_setup run1_main run1_options [''pan''] [] = Some (Ret (cfg, st0))"
    "int (length (running st0)) \<le> INT_MAX" "kernel_ok cfg [run1_turn] st0"
  obtain status st' where r: "pan_main run1_main run1_options [''pan''] [] [run1_turn] [] = Some (Ret (status, st'))"
    using run1_returns unfolding returns_conv by auto
  show ?thesis using pan_restores_zoo [OF run1_main_ok s _ r] r by auto
qed

subsection \<open>Every reachable state\<close>

text \<open>The states between the turns of the scheduling loop.\<close>

inductive driver_reach :: "pan_cfg \<Rightarrow> pan_state \<Rightarrow> pan_state \<Rightarrow> bool" for cfg st0 where
  start: "driver_reach cfg st0 st0"
| turn: "driver_reach cfg st0 st \<Longrightarrow> kernel_turn cfg ie st \<Longrightarrow> loop_body cfg ie st = Some (Ret (False, st'))
    \<Longrightarrow> driver_reach cfg st0 st'"

lemma driver_reach_inv:
  assumes "driver_reach cfg st0 st" "loop_inv base s0 cfg st0" "clean_coll cfg"
  shows "loop_inv base s0 cfg st"
  using assms
proof (induction rule: driver_reach.induct)
  case (turn st ie st')
  then show ?case using loop_body_law by blast
qed

lemma free_slot_exists:
  assumes "pan_inv base cfg st" "may_start st"
  shows "\<exists>i < length (running st). pgrp (running st ! i) = 0"
proof (rule ccontr)
  assume "\<not> ?thesis"
  then have "\<forall>s \<in> set (running st). pgrp s \<noteq> 0" by (auto simp: in_set_conv_nth)
  then have "length (groups st) = length (running st)" by (simp add: groups_def live_def)
  with assms show False by (simp add: pan_inv_def may_start_def)
qed

text \<open>
  C2: in every state the scheduling loop reaches, \<open>num_active\<close> is the number of slots in use, the zoo
  file holds the process ids it held before, the driver's own, those of the slots in use and those of
  the orphaned groups, and nothing else; and whenever the driver wants to start a test there is a free
  slot, so that the message "Aborting: i == keep_active" is never printed.
\<close>

theorem driver_slots_consistent:
  assumes "main_ok me options argv args" and "pan_setup me options argv args = Some (Ret (cfg, st0))"
    and "int (length (running st0)) \<le> INT_MAX" and "driver_reach cfg st0 st"
  shows "num_active st = int (length (filter (\<lambda>s. pgrp s \<noteq> 0) (running st)))
    \<and> zoo_pids (zoofile st) = add_mset (me_pid me) (zoo_pids (initial_zoo me)) + mset (groups st) + mset (live (orphans st))
    \<and> (may_start st \<longrightarrow> (\<exists>i < length (running st). pgrp (running st ! i) = 0))"
proof -
  note su = pan_setup_law [OF assms(1-3)]
  have "loop_inv (add_mset (me_pid me) (zoo_pids (initial_zoo me))) (starts st0) cfg st"
    using driver_reach_inv [OF assms(4)] su by blast
  then have p: "pan_inv (add_mset (me_pid me) (zoo_pids (initial_zoo me))) cfg st" by (simp add: loop_inv_def)
  moreover have "length (groups st) = length (filter (\<lambda>s. pgrp s \<noteq> 0) (running st))"
    by (simp add: groups_def live_def filter_map comp_def)
  ultimately show ?thesis using free_slot_exists [OF p] by (simp add: pan_inv_def slots_inv_alt)
qed

theorem driver_slots_consistent_witness:
  "\<exists>cfg st0. pan_setup run1_main run1_options [''pan''] [] = Some (Ret (cfg, st0))
     \<and> num_active st0 = int (length (filter (\<lambda>s. pgrp s \<noteq> 0) (running st0)))"
proof (rule run1E)
  fix cfg st0
  assume s: "pan_setup run1_main run1_options [''pan''] [] = Some (Ret (cfg, st0))" "int (length (running st0)) \<le> INT_MAX"
  show ?thesis using driver_slots_consistent [OF run1_main_ok s driver_reach.start] s(1) by blast
qed

text \<open>
  C3: with option \<open>-S\<close> the tests are started in the order of the collection, round and round: when the
  loop ends, the commands tried are the first \<open>n\<close> of that sequence, where \<open>n\<close> is the number of starts
  used up; with the default number of starts, all used up, every command was tried exactly once.
\<close>

theorem sequential_order:
  assumes "main_ok me options argv args" and "pan_setup me options argv args = Some (Ret (cfg, st0))"
    and "int (length (running st0)) \<le> INT_MAX" and "sequential cfg" and "0 < starts st0"
    and "kernel_ok cfg ies st0" and "main_loop cfg ies st0 = Some (Ret st)"
  shows "0 \<le> starts st \<and> attempts st = map (nth_round cfg) [0..<nat (starts st0 - starts st)]
    \<and> (starts st0 = int (length (coll cfg)) \<and> starts st = 0 \<longrightarrow> attempts st = coll cfg)"
proof -
  note su = pan_setup_law [OF assms(1-3)]
  have "loop_inv (add_mset (me_pid me) (zoo_pids (initial_zoo me))) (starts st0) cfg st"
    using main_loop_law [OF _ _ assms(6,7)] su by blast
  then have o: "attempts st = map (nth_round cfg) [0..<length (attempts st)]"
    and c: "0 \<le> starts st" "starts st + int (length (attempts st)) = starts st0"
    using assms(4,5) by (simp_all add: loop_inv_def in_order_def counted_def)
  have n: "length (attempts st) = nat (starts st0 - starts st)" using c by simp
  have "attempts st = coll cfg" if "starts st0 = int (length (coll cfg))" "starts st = 0"
  proof -
    have "map (nth_round cfg) [0..<length (coll cfg)] = map ((!) (coll cfg)) [0..<length (coll cfg)]"
      by (intro map_cong) (auto simp: nth_round_def)
    then show ?thesis using o n that by (simp add: map_nth)
  qed
  with o n c(1) show ?thesis by simp
qed

theorem sequential_order_witness:
  "\<exists>cfg st0 st. pan_setup run1_main run1_options [''pan''] [] = Some (Ret (cfg, st0))
     \<and> main_loop cfg [run1_turn] st0 = Some (Ret st) \<and> attempts st = coll cfg"
proof (rule run1E)
  fix cfg st0
  assume s: "pan_setup run1_main run1_options [''pan''] [] = Some (Ret (cfg, st0))" "int (length (running st0)) \<le> INT_MAX"
    and k: "kernel_ok cfg [run1_turn] st0" and q: "sequential cfg" "starts st0 = int (length (coll cfg))"
    and "\<exists>st1. main_loop cfg [run1_turn] st0 = Some (Ret st1) \<and> starts st1 = 0"
  then obtain st1 where m: "main_loop cfg [run1_turn] st0 = Some (Ret st1)" "starts st1 = 0" by blast
  have "0 < starts st0" using pan_setup_law [OF run1_main_ok s] q(2) by (simp add: clean_coll_def)
  from sequential_order [OF run1_main_ok s q(1) this k m(1)] q(2) m(2) have "attempts st1 = coll cfg" by blast
  with s(1) m(1) show ?thesis by blast
qed

subsection \<open>Signals\<close>


definition idle_state :: pan_state where
  "idle_state = initial_state default_opts [] 0 empty_zoo []"

definition calm :: orphan_env where
  "calm = \<lparr>oe_sigs = [], oe_kill = (\<lambda>_. ESRCH), oe_zoo = (\<lambda>_. good_env)\<rparr>"


fun sent_by :: "signo list \<Rightarrow> pan_state \<Rightarrow> signo list" where
  "sent_by [] st = []"
| "sent_by (s # ss) st =
     (let st1 = wait_handler s st in send_signal st1 # sent_by ss (st1\<lparr>rec_signal := 0, send_signal := 0\<rparr>))"

text \<open>
  Repeated interrupts escalate: from the reset ratchet, five deliveries of \<open>SIGINT\<close>, each followed by
  the propagation that clears the signal variables, send \<open>SIGINT\<close>, \<open>SIGTERM\<close>, \<open>SIGHUP\<close>, \<open>SIGKILL\<close> and
  then signal 0, after which the ratchet starts anew; the alarm of option \<open>-t\<close> is passed on as
  \<open>SIGALRM\<close>, as the assignment of \<open>SIGTERM\<close> goes to the variable that is not sent.
\<close>

theorem signal_ratchet:
  assumes "lastsent st = 0" and "rec_signal st = 0" and "send_signal st = 0" and "slots_inv base cfg st"
    and "\<forall>p. zoo_ok (ze p)"
  shows "sent_by [SIGINT, SIGINT, SIGINT, SIGINT, SIGINT, SIGINT] st = [SIGINT, SIGTERM, SIGHUP, SIGKILL, 0, SIGINT]
    \<and> (\<exists>st'. propagate_signal ke ze (wait_handler SIGALRM st) = Some st' \<and>
         effects st' = effects st @ map (\<lambda>p. Kill_group p SIGALRM) (groups st @ live (orphans st)))"
proof -
  let ?st = "wait_handler SIGALRM st"
  have c: "core_of ?st = core_of st" by (simp add: core_simps)
  have a: "send_signal ?st = SIGALRM" "effects ?st = effects st"
    using assms(1) by (simp_all add: wait_handler_def signal_numbers Let_def)
  have "slots_inv base cfg ?st" using assms(4) core_facts(1) [OF c] by simp
  from propagate_signal_law [OF this assms(5), of ke] have
    "\<exists>st'. propagate_signal ke ze ?st = Some st' \<and>
         effects st' = effects st @ map (\<lambda>p. Kill_group p SIGALRM) (groups st @ live (orphans st))"
    unfolding a core_facts(3,4) [OF c] by blast
  moreover have "sent_by [SIGINT, SIGINT, SIGINT, SIGINT, SIGINT, SIGINT] st = [SIGINT, SIGTERM, SIGHUP, SIGKILL, 0, SIGINT]"
    using assms(1-3) by (simp add: wait_handler_def signal_numbers Let_def)
  ultimately show ?thesis by blast
qed

theorem signal_ratchet_witness:
  "sent_by [SIGINT, SIGINT, SIGINT, SIGINT, SIGINT, SIGINT] idle_state = [SIGINT, SIGTERM, SIGHUP, SIGKILL, 0, SIGINT]"
proof -
  have "slots_inv {#} (make_cfg run1_main default_opts [] []) idle_state"
    by (simp add: slots_inv_alt idle_state_def initial_state_def groups_def live_def)
  then show ?thesis
    using signal_ratchet [of idle_state "{#}" "make_cfg run1_main default_opts [] []" "\<lambda>_. good_env" "\<lambda>_. 0"]
    by (simp add: idle_state_def initial_state_def)
qed

subsection \<open>Results of tests\<close>

text \<open>The verdict on a collected child.\<close>

definition child_failed :: "bool \<Rightarrow> nat \<Rightarrow> bool" where
  "child_failed stopped_by_driver status \<longleftrightarrow>
     (if wifexited status
      then wexitstatus status \<notin> {0, PAN_TCONF} \<and> \<not> (wexitstatus status = 130 \<and> stopped_by_driver)
      else \<not> stopped_by_driver)"

lemma reap_slot_verdict:
  assumes "reap_slot cfg env i ret st = Some (Ret (r, st'))"
  shows "r = ret - (if fst (child_status (we_status env)) = 130 \<and> stopping (running st ! i) \<and> snd (child_status (we_status env)) = ''exited'' then 1 else 0)
    + (if snd (child_status (we_status env)) = ''signaled'' \<and> \<not> stopping (running st ! i) then 1 else 0)"
  using assms by (auto simp: reap_slot_def Let_def outcome_simps split: prod.splits option.splits)

lemma check_orphans_running: "run_check_orphans ke ze sig st = Some st' \<Longrightarrow> running st' = running st"
  by (auto simp: run_check_orphans_def act_def)

text \<open>
  C29: \<open>check_pids\<close> reports a failure for a collected test exactly when the test exited with a status
  other than 0 and \<open>TCONF\<close>, or was killed by a signal, except that a test the driver is stopping may be
  killed or exit with 130; when \<open>wait\<close> fails nothing is reported.
\<close>

theorem check_pids_verdict:
  assumes "check_pids cfg env st = Some (Ret (err, st'))"
    and "we_err env = 0 \<Longrightarrow> wifexited (we_status env) \<or> wifsignaled (we_status env)"
    and "first_index (\<lambda>s. pgrp s = we_pid env) (running st) = Some i"
  shows "err = (if we_err env = 0 \<and> child_failed (stopping (running st ! i)) (we_status env) then 1 else 0)"
proof (cases "we_err env = 0")
  case False
  then show ?thesis using assms(1) by (auto simp: check_pids_def split: option.splits)
next
  case True
  let ?w = "fst (child_status (we_status env))" and ?how = "snd (child_status (we_status env))"
  obtain st1 where st1: "run_check_orphans (we_orphans env) (we_ozoo env) 0 st = Some st1"
    using assms(1) by (auto simp: check_pids_def split: option.splits)
  have i: "first_index (\<lambda>s. pgrp s = we_pid env) (running st1) = Some i"
    using assms(3) check_orphans_running [OF st1] by simp
  obtain st2 st3 where r: "reap_slot cfg env i (if ?how = ''signaled'' \<or> ?how = ''exited'' \<and> (?w = 0 \<or> ?w = PAN_TCONF) then 0 else 1) st2
      = Some (Ret (err, st3))" "running st2 = running st"
    using assms(1) True st1 i check_orphans_running [OF st1]
    by (auto simp: check_pids_def Let_def outcome_simps split: prod.splits option.splits if_splits)
  have over: "wifexited (we_status env) \<or> wifsignaled (we_status env)" using assms(2) True by blast
  show ?thesis
    using reap_slot_verdict [OF r(1)] r(2) True over
    by (auto simp: child_failed_def child_status_def PAN_TCONF_def wifexited_def wifsignaled_def split: if_splits)
qed

definition one_running :: pan_state where
  "one_running = idle_state\<lparr>num_active := 1,
     running := [idle_slot\<lparr>pgrp := 200, cmd := Some \<lparr>ce_name = ''t'', ce_cmdline = ''ls'', ce_pcnt_f = False\<rparr>\<rparr>],
     zoofile := snd (the (zoo_mark_cmdline good_env empty_zoo 200 ''t'' ''ls''))\<rparr>"

definition quiet_cfg :: pan_cfg where
  "quiet_cfg = make_cfg run1_main (default_opts\<lparr>o_quiet := True\<rparr>) [] []"

lemma one_running_returns:
  "returns (check_pids quiet_cfg (run1_wait\<lparr>we_status := 256\<rparr>) one_running) (\<lambda>_. True)"
  by code_simp

theorem check_pids_verdict_witness:
  "\<exists>st'. check_pids quiet_cfg (run1_wait\<lparr>we_status := 256\<rparr>) one_running = Some (Ret (1, st'))"
proof -
  let ?env = "run1_wait\<lparr>we_status := 256\<rparr>"
  obtain err st' where c: "check_pids quiet_cfg ?env one_running = Some (Ret (err, st'))"
    using one_running_returns unfolding returns_conv by auto
  have i: "first_index (\<lambda>s. pgrp s = we_pid ?env) (running one_running) = Some 0"
    by (simp add: run1_wait_def one_running_def)
  have s: "wifexited (we_status ?env)" "child_failed (stopping (running one_running ! 0)) (we_status ?env)" "we_err ?env = 0"
    by (simp_all add: run1_wait_def child_failed_def one_running_def wifexited_def wtermsig_def wexitstatus_def PAN_TCONF_def)
  from check_pids_verdict [OF c _ i] s have "err = 1" by simp
  with c show ?thesis by blast
qed

end
