(* ===== verification/Kvercmp.thy ===== *)
theory Kvercmp
  imports Ltp_Prelude
begin

section \<open>lib/tst_kvercmp.c: comparing kernel versions\<close>

text \<open>
  Parsing of version strings and the two comparisons built on it: by packing three numbers into one
  \<open>int\<close>, and number by number for distribution kernels.  The release string of \<open>uname\<close> is an argument.
  The warning that \<open>tst_kvcmp\<close> prints for a string that does not parse is left out; it goes on with the
  numbers read so far.
\<close>

definition peek :: "string \<Rightarrow> char" where
  "peek s = (case s of [] \<Rightarrow> NUL | c # _ \<Rightarrow> c)"

definition parse_digit :: "string \<Rightarrow> (int \<times> string) option" where
  "parse_digit str =
     (let (v, rest, _) = strtoul10 str
      in if rest = str then None else if v > INT_MAX then None else Some (v, rest))"

text \<open>Return value and the three numbers.\<close>

definition tst_parse_kver :: "string \<Rightarrow> int \<times> int \<times> int \<times> int" where
  "tst_parse_kver str_kver =
     (case parse_digit str_kver of
        None \<Rightarrow> (1, 0, 0, 0)
      | Some (v1, s1) \<Rightarrow>
        if peek s1 \<noteq> CHR ''.'' then (1, v1, 0, 0)
        else case parse_digit (tl s1) of
          None \<Rightarrow> (1, v1, 0, 0)
        | Some (v2, s2) \<Rightarrow>
          if peek s2 = SPACE \<or> peek s2 = NUL then (0, v1, v2, 0)
          else if peek s2 \<noteq> CHR ''.'' then (1, v1, v2, 0)
          else case parse_digit (tl s2) of
            None \<Rightarrow> (1, v1, v2, 0)
          | Some (v3, _) \<Rightarrow> (0, v1, v2, v3))"

text \<open>Left shift and addition of \<open>int\<close> are undefined outside its range.\<close>

definition in_int :: "int \<Rightarrow> int outcome" where
  "in_int x = (if INT_MIN \<le> x \<and> x \<le> INT_MAX then Ret x else Undefined ''signed overflow'')"

definition shl :: "int \<Rightarrow> nat \<Rightarrow> int outcome" where
  "shl x n = (if x < 0 then Undefined ''shift of a negative value'' else in_int (x * 2 ^ n))"

definition pack_ver :: "int \<Rightarrow> int \<Rightarrow> int \<Rightarrow> int outcome" where
  "pack_ver r1 r2 r3 =
     bind_outcome (shl r1 16) (\<lambda>a. bind_outcome (shl r2 8) (\<lambda>b.
     bind_outcome (in_int (a + b)) (\<lambda>ab. in_int (ab + r3))))"

definition tst_kvcmp :: "string \<Rightarrow> int \<Rightarrow> int \<Rightarrow> int \<Rightarrow> int outcome" where
  "tst_kvcmp cur_kver r1 r2 r3 =
     (let (_, a1, a2, a3) = tst_parse_kver cur_kver
      in bind_outcome (pack_ver r1 r2 r3) (\<lambda>testver.
         bind_outcome (pack_ver a1 a2 a3) (\<lambda>currver. in_int (currver - testver))))"

definition tst_kvercmp :: "string \<Rightarrow> int \<Rightarrow> int \<Rightarrow> int \<Rightarrow> int outcome" where
  "tst_kvercmp release r1 r2 r3 = tst_kvcmp release r1 r2 r3"

subsection \<open>Five numbers\<close>

text \<open>\<open>sscanf (s, "%d.%d.%d-%d.%d", ...)\<close>: the numbers converted before the first mismatch.\<close>

definition scan_int :: "string \<Rightarrow> (int \<times> string) option" where
  "scan_int s = (let (v, rest, _) = strtol10 s in if rest = s then None else Some (wrap32 v, rest))"

fun scan_fields :: "char list \<Rightarrow> string \<Rightarrow> int list" where
  "scan_fields seps s =
     (case scan_int s of
        None \<Rightarrow> []
      | Some (v, rest) \<Rightarrow>
          v # (case seps of [] \<Rightarrow> []
               | c # cs \<Rightarrow> if peek rest = c \<and> rest \<noteq> [] then scan_fields cs (tl rest) else []))"

declare scan_fields.simps [simp del]

definition scan_version :: "string \<Rightarrow> int list" where
  "scan_version s = (let fs = scan_fields ''..-.'' s in fs @ replicate (5 - length fs) 0)"

text \<open>\<open>if ((ret = c - t)) return ret;\<close> for each pair, the last difference being returned as it is.\<close>

fun first_diff :: "int list \<Rightarrow> int list \<Rightarrow> int outcome" where
  "first_diff (c # cs) (t # ts) =
     bind_outcome (in_int (c - t)) (\<lambda>d. if d \<noteq> 0 \<or> cs = [] then Ret d else first_diff cs ts)"
| "first_diff cs ts = Ret 0"

definition tst_kvexcmp :: "string \<Rightarrow> string \<Rightarrow> int outcome" where
  "tst_kvexcmp tst_exv cur_ver = first_diff (scan_version cur_ver) (scan_version tst_exv)"

definition tst_kvcmp_distname :: "string \<Rightarrow> string option" where
  "tst_kvcmp_distname kver =
     (if strstr kver ''.el5uek'' \<noteq> None then Some ''OL5UEK''
      else if strstr kver ''.el5'' \<noteq> None then Some ''RHEL5''
      else if strstr kver ''.el6uek'' \<noteq> None then Some ''OL6UEK''
      else if strstr kver ''.el6'' \<noteq> None then Some ''RHEL6''
      else None)"

definition tst_kvercmp2 :: "string \<Rightarrow> int \<Rightarrow> int \<Rightarrow> int \<Rightarrow> (string \<times> string) list \<Rightarrow> int outcome" where
  "tst_kvercmp2 kver r1 r2 r3 vers =
     (case tst_kvcmp_distname kver of
        None \<Rightarrow> tst_kvercmp kver r1 r2 r3
      | Some cur_dist_name \<Rightarrow>
          (case find (\<lambda>v. fst v = cur_dist_name) vers of
             Some (_, extra_ver) \<Rightarrow> tst_kvexcmp extra_ver kver
           | None \<Rightarrow> tst_kvcmp kver r1 r2 r3))"

subsection \<open>Parsing\<close>

lemma parse_digit_show_nat:
  assumes "nondigit_head r" "int n \<le> INT_MAX"
  shows "parse_digit (show_nat n @ r) = Some (int n, r)"
  using strtoul10_show_nat [OF assms(1), of n] assms(2) by (simp add: parse_digit_def int_limits)

lemma nondigit_dot: "nondigit_head (CHR ''.'' # s)"
  by (simp add: nondigit_head_def is_digit_def)

lemma scan_int_show_int:
  assumes "nondigit_head r" "INT_MIN \<le> i" "i \<le> INT_MAX"
  shows "scan_int (show_int i @ r) = Some (i, r)"
proof -
  have "strtol10 (show_int i @ r) = (i, r, False)"
    by (rule strtol10_show_int [OF assms(1)]) (use assms(2,3) in \<open>simp_all add: int_limits\<close>)
  moreover have "show_int i \<noteq> []" by (simp add: show_int_def)
  ultimately show ?thesis using assms(2,3) by (simp add: scan_int_def wrap32_id)
qed

text \<open>Lexicographic comparison.\<close>

fun lex_less :: "int list \<Rightarrow> int list \<Rightarrow> bool" where
  "lex_less (a # as) (b # bs) \<longleftrightarrow> a < b \<or> a = b \<and> lex_less as bs"
| "lex_less _ _ \<longleftrightarrow> False"

lemma pack_ver_small:
  assumes "0 \<le> r1" "r1 < 2 ^ 15" "0 \<le> r2" "r2 < 2 ^ 8" "0 \<le> r3" "r3 < 2 ^ 8"
  shows "pack_ver r1 r2 r3 = Ret (r1 * 2 ^ 16 + r2 * 2 ^ 8 + r3)"
  using assms by (simp add: pack_ver_def shl_def in_int_def int_limits)

lemma pack_order:
  fixes a1 a2 a3 b1 b2 b3 :: int
  assumes "0 \<le> a2" "a2 < 2 ^ 8" "0 \<le> a3" "a3 < 2 ^ 8" "0 \<le> b2" "b2 < 2 ^ 8" "0 \<le> b3" "b3 < 2 ^ 8"
  shows "a1 * 2 ^ 16 + a2 * 2 ^ 8 + a3 < b1 * 2 ^ 16 + b2 * 2 ^ 8 + b3 \<longleftrightarrow> lex_less [a1, a2, a3] [b1, b2, b3]"
  using assms by (auto simp: not_less)

lemma first_diff_order:
  assumes "length cs = length ts" "first_diff cs ts = Ret d"
  shows "(d < 0 \<longleftrightarrow> lex_less cs ts) \<and> (d > 0 \<longleftrightarrow> lex_less ts cs) \<and> (d = 0 \<longleftrightarrow> cs = ts)"
  using assms
proof (induction cs ts rule: first_diff.induct)
  case (1 c cs t ts)
  show ?case
  proof (cases "c = t \<and> cs \<noteq> []")
    case True
    then show ?thesis using 1 by (auto simp: in_int_def int_limits)
  next
    case False
    then show ?thesis using "1.prems" by (auto simp: in_int_def outcome_simps split: if_splits)
  qed
qed auto

subsection \<open>Verified properties\<close>

text \<open>
  A version printed as \<open>a.b.c\<close> followed by anything that does not begin with a digit, and the short
  form \<open>a.b\<close>, are parsed back to their numbers with return value 0.
\<close>

theorem parse_kver_roundtrip:
  assumes "int a \<le> INT_MAX" and "int b \<le> INT_MAX" and "int c \<le> INT_MAX" and "nondigit_head ext"
  shows "tst_parse_kver (show_nat a @ ''.'' @ show_nat b @ ''.'' @ show_nat c @ ext) = (0, int a, int b, int c)
    \<and> tst_parse_kver (show_nat a @ ''.'' @ show_nat b) = (0, int a, int b, 0)"
proof -
  have "nondigit_head []" by (simp add: nondigit_head_def)
  then show ?thesis
    using assms parse_digit_show_nat [of "[]" b]
    by (simp add: tst_parse_kver_def parse_digit_show_nat nondigit_dot peek_def)
qed

theorem parse_kver_roundtrip_witness:
  "tst_parse_kver (show_nat 4 @ ''.'' @ show_nat 8 @ ''.'' @ show_nat 1 @ ''-52-default'') = (0, 4, 8, 1)"
  using parse_kver_roundtrip [of 4 8 1 "''-52-default''"] by (simp add: int_limits nondigit_head_def is_digit_def)

text \<open>
  On versions whose second and third numbers are below 256 and whose first is below 32768, the sign of
  \<open>tst_kvcmp\<close> is the lexicographic order of the versions: negative exactly when the running kernel is
  older, 0 exactly when the versions are equal.
\<close>

theorem kvcmp_order:
  assumes "tst_parse_kver kver = (p, a1, a2, a3)"
    and "0 \<le> a1" "a1 < 2 ^ 15" "0 \<le> a2" "a2 < 2 ^ 8" "0 \<le> a3" "a3 < 2 ^ 8"
    and "0 \<le> r1" "r1 < 2 ^ 15" "0 \<le> r2" "r2 < 2 ^ 8" "0 \<le> r3" "r3 < 2 ^ 8"
  shows "\<exists>d. tst_kvcmp kver r1 r2 r3 = Ret d \<and> (d < 0 \<longleftrightarrow> lex_less [a1, a2, a3] [r1, r2, r3])
    \<and> (d > 0 \<longleftrightarrow> lex_less [r1, r2, r3] [a1, a2, a3]) \<and> (d = 0 \<longleftrightarrow> [a1, a2, a3] = [r1, r2, r3])"
proof -
  let ?a = "a1 * 2 ^ 16 + a2 * 2 ^ 8 + a3" and ?r = "r1 * 2 ^ 16 + r2 * 2 ^ 8 + r3"
  have d: "tst_kvcmp kver r1 r2 r3 = Ret (?a - ?r)"
    using assms by (simp add: tst_kvcmp_def pack_ver_small in_int_def int_limits)
  have lt: "?a < ?r \<longleftrightarrow> lex_less [a1, a2, a3] [r1, r2, r3]" and gt: "?r < ?a \<longleftrightarrow> lex_less [r1, r2, r3] [a1, a2, a3]"
    using assms by (intro pack_order; simp)+
  have "(?a - ?r = 0) = ([a1, a2, a3] = [r1, r2, r3])" using lt gt by auto
  moreover have "(?a - ?r < 0) = (?a < ?r)" "(0 < ?a - ?r) = (?r < ?a)" by linarith+
  ultimately show ?thesis using d lt gt by blast
qed

theorem kvcmp_order_witness:
  "\<exists>d. tst_kvcmp ''4.9.200'' 4 10 0 = Ret d \<and> (d < 0 \<longleftrightarrow> lex_less [4, 9, 200] [4, 10, 0])"
proof -
  have "tst_parse_kver ''4.9.200'' = (0, 4, 9, 200)" by code_simp
  from kvcmp_order [OF this, of 4 10 0] show ?thesis by auto
qed

text \<open>
  Beyond those bounds the packed comparison is wrong: kernel 4.9.256 compares equal to 4.10.0, and
  4.9.300 as newer, although both are older.
\<close>

theorem kvcmp_patchlevel_overflow:
  "tst_kvcmp ''4.9.256'' 4 10 0 = Ret 0 \<and> tst_kvcmp ''4.9.300'' 4 10 0 = Ret 44
    \<and> lex_less [4, 9, 256] [4, 10, 0] \<and> lex_less [4, 9, 300] [4, 10, 0]"
  by code_simp

text \<open>
  \<open>tst_kvexcmp\<close> returns a value whose sign is the lexicographic order of the five numbers scanned
  from the two version strings, missing numbers counting as 0.
\<close>

theorem kvexcmp_order:
  assumes "tst_kvexcmp tst_exv cur_ver = Ret d"
  shows "(d < 0 \<longleftrightarrow> lex_less (scan_version cur_ver) (scan_version tst_exv))
    \<and> (d > 0 \<longleftrightarrow> lex_less (scan_version tst_exv) (scan_version cur_ver))
    \<and> (d = 0 \<longleftrightarrow> scan_version cur_ver = scan_version tst_exv)"
proof (rule first_diff_order)
  have "length (scan_fields seps s) \<le> Suc (length seps)" for seps s
  proof (induction seps s rule: scan_fields.induct)
    case (1 seps s)
    then show ?case by (subst scan_fields.simps) (auto split: option.splits list.splits)
  qed
  from this [of "''..-.''"] have "length (scan_fields ''..-.'' s) \<le> 5" for s by (simp add: eval_nat_numeral)
  then have "length (scan_version s) = 5" for s by (simp add: scan_version_def Let_def)
  then show "length (scan_version cur_ver) = length (scan_version tst_exv)" by simp
qed (use assms in \<open>simp add: tst_kvexcmp_def\<close>)

theorem kvexcmp_order_witness:
  "tst_kvexcmp ''2.6.32-220.4'' ''2.6.32-131.0.15.el6'' = Ret (-89) \<and>
     ((-89 :: int) < 0 \<longleftrightarrow> lex_less (scan_version ''2.6.32-131.0.15.el6'') (scan_version ''2.6.32-220.4''))"
proof -
  have d: "tst_kvexcmp ''2.6.32-220.4'' ''2.6.32-131.0.15.el6'' = Ret (-89)" by code_simp
  from kvexcmp_order [OF d] d show ?thesis by blast
qed

end
