(* ===== verification/Checksum.thy ===== *)
theory Checksum
  imports Ltp_Prelude
begin

section \<open>lib/tst_checksum.c: CRC32C\<close>

text \<open>
  The table-driven checksum on 32-bit words, and its equivalence with the bit-by-bit division by the
  reflected polynomial 0x82f63b78 that defines CRC32C.
\<close>

unbundle bit_operations_syntax

definition crc32c_table :: "32 word list" where
  "crc32c_table = [
     0x00000000, 0xf26b8303, 0xe13b70f7, 0x1350f3f4, 0xc79a971f, 0x35f1141c, 0x26a1e7e8, 0xd4ca64eb,
     0x8ad958cf, 0x78b2dbcc, 0x6be22838, 0x9989ab3b, 0x4d43cfd0, 0xbf284cd3, 0xac78bf27, 0x5e133c24,
     0x105ec76f, 0xe235446c, 0xf165b798, 0x030e349b, 0xd7c45070, 0x25afd373, 0x36ff2087, 0xc494a384,
     0x9a879fa0, 0x68ec1ca3, 0x7bbcef57, 0x89d76c54, 0x5d1d08bf, 0xaf768bbc, 0xbc267848, 0x4e4dfb4b,
     0x20bd8ede, 0xd2d60ddd, 0xc186fe29, 0x33ed7d2a, 0xe72719c1, 0x154c9ac2, 0x061c6936, 0xf477ea35,
     0xaa64d611, 0x580f5512, 0x4b5fa6e6, 0xb93425e5, 0x6dfe410e, 0x9f95c20d, 0x8cc531f9, 0x7eaeb2fa,
     0x30e349b1, 0xc288cab2, 0xd1d83946, 0x23b3ba45, 0xf779deae, 0x05125dad, 0x1642ae59, 0xe4292d5a,
     0xba3a117e, 0x4851927d, 0x5b016189, 0xa96ae28a, 0x7da08661, 0x8fcb0562, 0x9c9bf696, 0x6ef07595,
     0x417b1dbc, 0xb3109ebf, 0xa0406d4b, 0x522bee48, 0x86e18aa3, 0x748a09a0, 0x67dafa54, 0x95b17957,
     0xcba24573, 0x39c9c670, 0x2a993584, 0xd8f2b687, 0x0c38d26c, 0xfe53516f, 0xed03a29b, 0x1f682198,
     0x5125dad3, 0xa34e59d0, 0xb01eaa24, 0x42752927, 0x96bf4dcc, 0x64d4cecf, 0x77843d3b, 0x85efbe38,
     0xdbfc821c, 0x2997011f, 0x3ac7f2eb, 0xc8ac71e8, 0x1c661503, 0xee0d9600, 0xfd5d65f4, 0x0f36e6f7,
     0x61c69362, 0x93ad1061, 0x80fde395, 0x72966096, 0xa65c047d, 0x5437877e, 0x4767748a, 0xb50cf789,
     0xeb1fcbad, 0x197448ae, 0x0a24bb5a, 0xf84f3859, 0x2c855cb2, 0xdeeedfb1, 0xcdbe2c45, 0x3fd5af46,
     0x7198540d, 0x83f3d70e, 0x90a324fa, 0x62c8a7f9, 0xb602c312, 0x44694011, 0x5739b3e5, 0xa55230e6,
     0xfb410cc2, 0x092a8fc1, 0x1a7a7c35, 0xe811ff36, 0x3cdb9bdd, 0xceb018de, 0xdde0eb2a, 0x2f8b6829,
     0x82f63b78, 0x709db87b, 0x63cd4b8f, 0x91a6c88c, 0x456cac67, 0xb7072f64, 0xa457dc90, 0x563c5f93,
     0x082f63b7, 0xfa44e0b4, 0xe9141340, 0x1b7f9043, 0xcfb5f4a8, 0x3dde77ab, 0x2e8e845f, 0xdce5075c,
     0x92a8fc17, 0x60c37f14, 0x73938ce0, 0x81f80fe3, 0x55326b08, 0xa759e80b, 0xb4091bff, 0x466298fc,
     0x1871a4d8, 0xea1a27db, 0xf94ad42f, 0x0b21572c, 0xdfeb33c7, 0x2d80b0c4, 0x3ed04330, 0xccbbc033,
     0xa24bb5a6, 0x502036a5, 0x4370c551, 0xb11b4652, 0x65d122b9, 0x97baa1ba, 0x84ea524e, 0x7681d14d,
     0x2892ed69, 0xdaf96e6a, 0xc9a99d9e, 0x3bc21e9d, 0xef087a76, 0x1d63f975, 0x0e330a81, 0xfc588982,
     0xb21572c9, 0x407ef1ca, 0x532e023e, 0xa145813d, 0x758fe5d6, 0x87e466d5, 0x94b49521, 0x66df1622,
     0x38cc2a06, 0xcaa7a905, 0xd9f75af1, 0x2b9cd9f2, 0xff56bd19, 0x0d3d3e1a, 0x1e6dcdee, 0xec064eed,
     0xc38d26c4, 0x31e6a5c7, 0x22b65633, 0xd0ddd530, 0x0417b1db, 0xf67c32d8, 0xe52cc12c, 0x1747422f,
     0x49547e0b, 0xbb3ffd08, 0xa86f0efc, 0x5a048dff, 0x8ecee914, 0x7ca56a17, 0x6ff599e3, 0x9d9e1ae0,
     0xd3d3e1ab, 0x21b862a8, 0x32e8915c, 0xc083125f, 0x144976b4, 0xe622f5b7, 0xf5720643, 0x07198540,
     0x590ab964, 0xab613a67, 0xb831c993, 0x4a5a4a90, 0x9e902e7b, 0x6cfbad78, 0x7fab5e8c, 0x8dc0dd8f,
     0xe330a81a, 0x115b2b19, 0x020bd8ed, 0xf0605bee, 0x24aa3f05, 0xd6c1bc06, 0xc5914ff2, 0x37faccf1,
     0x69e9f0d5, 0x9b8273d6, 0x88d28022, 0x7ab90321, 0xae7367ca, 0x5c18e4c9, 0x4f48173d, 0xbd23943e,
     0xf36e6f75, 0x0105ec76, 0x12551f82, 0xe03e9c81, 0x34f4f86a, 0xc69f7b69, 0xd5cf889d, 0x27a40b9e,
     0x79b737ba, 0x8bdcb4b9, 0x988c474d, 0x6ae7c44e, 0xbe2da0a5, 0x4c4623a6, 0x5f16d052, 0xad7d5351]"

text \<open>One turn of the loop, and the loop over the buffer.\<close>

definition crc_byte :: "32 word \<Rightarrow> 8 word \<Rightarrow> 32 word" where
  "crc_byte crc b = (crc32c_table ! unat ((crc XOR ucast b) AND 0xff)) XOR drop_bit 8 crc"

definition tst_crc32c :: "8 word list \<Rightarrow> 32 word" where
  "tst_crc32c buf = NOT (foldl crc_byte 0xffffffff buf)"

subsection \<open>The definition by division\<close>

text \<open>A step of the division shifts one bit out and subtracts the polynomial if that bit was set.\<close>

definition crc_step :: "32 word \<Rightarrow> 32 word" where
  "crc_step x = (if bit x 0 then drop_bit 1 x XOR 0x82f63b78 else drop_bit 1 x)"

definition bitwise_byte :: "32 word \<Rightarrow> 8 word \<Rightarrow> 32 word" where
  "bitwise_byte crc b = (crc_step ^^ 8) (crc XOR ucast b)"

definition bitwise_crc32c :: "8 word list \<Rightarrow> 32 word" where
  "bitwise_crc32c buf = NOT (foldl bitwise_byte 0xffffffff buf)"

subsection \<open>The steps are linear\<close>

lemma crc_step_xor: "crc_step (x XOR y) = crc_step x XOR crc_step y"
  by (auto simp: crc_step_def drop_bit_xor bit_xor_iff ac_simps)

lemma crc_steps_xor: "(crc_step ^^ n) (x XOR y) = (crc_step ^^ n) x XOR (crc_step ^^ n) y"
  by (induction n) (simp_all add: crc_step_xor)

lemma crc_steps_shift:
  "\<forall>i < n. \<not> bit y i \<Longrightarrow> (crc_step ^^ n) y = drop_bit n y"
proof (induction n)
  case (Suc n)
  then have "(crc_step ^^ Suc n) y = crc_step (drop_bit n y)" by simp
  also have "\<dots> = drop_bit 1 (drop_bit n y)" using Suc.prems by (simp add: crc_step_def bit_drop_bit_eq)
  finally show ?case by (simp add: drop_bit_drop_bit)
qed simp

text \<open>The table entries of the powers of two determine the others: doubling a table.\<close>

fun xor_table :: "32 word list \<Rightarrow> 32 word list" where
  "xor_table [] = [0]"
| "xor_table (c # cs) = (let t = xor_table cs in t @ map (\<lambda>x. x XOR c) t)"

lemma crc32c_table_doubling:
  "crc32c_table = xor_table [0x82f63b78, 0x417b1dbc, 0x20bd8ede, 0x105ec76f, 0x8ad958cf, 0xc79a971f, 0xe13b70f7, 0xf26b8303]"
  by (simp add: crc32c_table_def)

lemma funpow_8: "(f ^^ 8) x = f (f (f (f (f (f (f (f x)))))))"
  by (simp add: eval_nat_numeral)

lemma crc_powers:
  "(crc_step ^^ 8) 0x80 = 0x82f63b78" "(crc_step ^^ 8) 0x40 = 0x417b1dbc" "(crc_step ^^ 8) 0x20 = 0x20bd8ede"
  "(crc_step ^^ 8) 0x10 = 0x105ec76f" "(crc_step ^^ 8) 8 = 0x8ad958cf" "(crc_step ^^ 8) 4 = 0xc79a971f"
  "(crc_step ^^ 8) 2 = 0xe13b70f7" "(crc_step ^^ 8) 1 = 0xf26b8303"
  unfolding funpow_8 by (simp_all add: crc_step_def)

fun powers :: "nat \<Rightarrow> 32 word list" where
  "powers 0 = []"
| "powers (Suc n) = 2 ^ n # powers n"

lemma word_of_nat_split:
  assumes "j < 2 ^ n"
  shows "(word_of_nat (2 ^ n + j) :: 32 word) = word_of_nat j XOR 2 ^ n"
proof -
  have "\<not> bit j n" using assms by (simp add: bit_iff_odd)
  then have "(2 ^ n :: 32 word) AND word_of_nat j = 0"
    by (intro bit_word_eqI) (auto simp: bit_and_iff bit_exp_iff bit_of_nat_iff)
  then show ?thesis by (simp add: disjunctive_add_eq_xor ac_simps)
qed

lemma length_xor_table [simp]: "length (xor_table cs) = 2 ^ length cs"
  by (induction cs) (simp_all add: Let_def)

lemma length_powers [simp]: "length (powers n) = n"
  by (induction n) simp_all

lemma xor_table_nth:
  assumes lin: "\<And>x y. T (x XOR y) = T x XOR T y"
  shows "i < 2 ^ n \<Longrightarrow> xor_table (map T (powers n)) ! i = T (word_of_nat i)"
proof (induction n arbitrary: i)
  case 0
  have "T 0 = 0" using lin [of 0 0] by simp
  with 0 show ?case by simp
next
  case (Suc n)
  show ?case
  proof (cases "i < 2 ^ n")
    case True
    with Suc.IH show ?thesis by (simp add: Let_def nth_append)
  next
    case False
    define j where "j = i - 2 ^ n"
    have j: "i = 2 ^ n + j" "j < 2 ^ n" using False Suc.prems by (auto simp: j_def)
    have "xor_table (map T (powers (Suc n))) ! i = T (word_of_nat j) XOR T (2 ^ n)"
      using Suc.IH [OF j(2)] j by (simp add: Let_def nth_append)
    also have "\<dots> = T (word_of_nat i)" by (simp only: j(1) word_of_nat_split [OF j(2)] lin)
    finally show ?thesis .
  qed
qed

lemma crc32c_table_nth: "i < 256 \<Longrightarrow> crc32c_table ! i = (crc_step ^^ 8) (word_of_nat i)"
proof -
  assume "i < 256"
  then have "xor_table (map (crc_step ^^ 8) (powers 8)) ! i = (crc_step ^^ 8) (word_of_nat i)"
    by (intro xor_table_nth [OF crc_steps_xor]) simp
  moreover have "powers 8 = [0x80, 0x40, 0x20, 0x10, 8, 4, 2, 1]" by (simp add: eval_nat_numeral)
  ultimately show ?thesis by (simp only: list.map crc_powers crc32c_table_doubling)
qed

lemma crc_byte_bitwise: "crc_byte crc b = bitwise_byte crc b"
proof -
  let ?x = "crc XOR ucast b" and ?m = "0xff :: 32 word"
  have split: "?x = (?x AND ?m) XOR (?x AND NOT ?m)"
    by (rule bit_word_eqI) (auto simp: bit_simps)
  have m: "?m = mask 8" by (simp add: mask_eq_exp_minus_1)
  have "unat (?x AND ?m) = take_bit 8 (unat ?x)"
    unfolding m take_bit_eq_mask [symmetric] by (rule unsigned_take_bit_eq)
  then have lt: "unat (?x AND ?m) < 256" using take_bit_nat_less_exp [of 8 "unat ?x"] by simp
  have hi: "(crc_step ^^ 8) (?x AND NOT ?m) = drop_bit 8 (?x AND NOT ?m)"
    by (rule crc_steps_shift) (auto simp: m bit_simps)
  have hi2: "drop_bit 8 (?x AND NOT ?m) = drop_bit 8 crc"
    by (rule bit_word_eqI) (auto simp: m bit_simps dest: bit_imp_le_length)
  have "bitwise_byte crc b = (crc_step ^^ 8) (?x AND ?m) XOR (crc_step ^^ 8) (?x AND NOT ?m)"
    unfolding bitwise_byte_def by (subst split) (rule crc_steps_xor)
  also have "(crc_step ^^ 8) (?x AND ?m) = crc32c_table ! unat (?x AND ?m)"
    using crc32c_table_nth [OF lt] by simp
  finally show ?thesis by (simp only: crc_byte_def hi hi2)
qed

subsection \<open>Verified properties\<close>

text \<open>
  C6: the table-driven \<open>tst_crc32c\<close> computes CRC32C as defined bit by bit: the reflected division by
  0x82f63b78 with initial value and final complement all ones, on every buffer.
\<close>

theorem crc32c_equals_bitwise: "tst_crc32c buf = bitwise_crc32c buf"
proof -
  have "crc_byte = bitwise_byte" by (intro ext) (rule crc_byte_bitwise)
  then show ?thesis by (simp add: tst_crc32c_def bitwise_crc32c_def)
qed

lemma xor_cancel_left: "(x :: 32 word) XOR y = x XOR z \<longleftrightarrow> y = z"
proof
  assume "x XOR y = x XOR z"
  then have "x XOR (x XOR y) = x XOR (x XOR z)" by simp
  then show "y = z" by (simp add: xor.assoc [symmetric])
qed simp

lemma crc_step_inj: "crc_step x = crc_step y \<Longrightarrow> x = y"
proof -
  assume eq: "crc_step x = crc_step y"
  have top: "bit (crc_step z) 31 \<longleftrightarrow> bit z 0" for z
    using bit_imp_le_length [of z 32] by (auto simp: crc_step_def bit_xor_iff bit_drop_bit_eq)
  have low: "bit x 0 \<longleftrightarrow> bit y 0" using top [of x] top [of y] eq by simp
  then have "drop_bit 1 x = drop_bit 1 y"
    using eq xor_cancel_left [of "0x82f63b78" "drop_bit 1 x" "drop_bit 1 y"]
    by (auto simp: crc_step_def ac_simps split: if_splits)
  then have "bit (drop_bit 1 x) n = bit (drop_bit 1 y) n" for n by simp
  then have high: "bit x (Suc n) = bit y (Suc n)" for n by (simp add: bit_drop_bit_eq)
  show "x = y"
  proof (rule bit_word_eqI)
    fix n
    show "bit x n = bit y n" using low high by (cases n) auto
  qed
qed

lemma crc_steps_inj: "(crc_step ^^ n) x = (crc_step ^^ n) y \<Longrightarrow> x = y"
  by (induction n) (auto dest: crc_step_inj)

lemma bitwise_byte_inj:
  "bitwise_byte crc a = bitwise_byte crc b \<longleftrightarrow> a = b"
  "bitwise_byte c1 a = bitwise_byte c2 a \<longleftrightarrow> c1 = c2"
proof -
  have "a = b" if eq: "ucast a = (ucast b :: 32 word)"
  proof (rule bit_word_eqI)
    fix n
    assume "n < LENGTH(8)"
    moreover have "bit (ucast a :: 32 word) n = bit (ucast b :: 32 word) n" using eq by simp
    ultimately show "bit a n = bit b n" by (simp add: bit_ucast_iff)
  qed
  then show "bitwise_byte crc a = bitwise_byte crc b \<longleftrightarrow> a = b"
    by (auto simp: bitwise_byte_def xor_cancel_left dest: crc_steps_inj)
  show "bitwise_byte c1 a = bitwise_byte c2 a \<longleftrightarrow> c1 = c2"
    using xor_cancel_left [of "ucast a" c1 c2] by (auto simp: bitwise_byte_def ac_simps dest: crc_steps_inj)
qed

lemma foldl_bitwise_inj: "foldl bitwise_byte c1 buf = foldl bitwise_byte c2 buf \<longleftrightarrow> c1 = c2"
  by (induction buf arbitrary: c1 c2) (simp_all add: bitwise_byte_inj)

text \<open>
  A change of one byte of the buffer, whatever comes before and after it, changes the checksum.
\<close>

theorem crc32c_detects_byte:
  assumes "a \<noteq> b"
  shows "tst_crc32c (pre @ a # post) \<noteq> tst_crc32c (pre @ b # post)"
proof -
  have "crc_byte = bitwise_byte" by (intro ext) (rule crc_byte_bitwise)
  then show ?thesis
    using assms by (simp add: tst_crc32c_def foldl_bitwise_inj bitwise_byte_inj)
qed

theorem crc32c_detects_byte_witness:
  "tst_crc32c ([1, 2] @ 3 # [4]) \<noteq> tst_crc32c ([1, 2] @ 7 # [4])"
  by (rule crc32c_detects_byte) simp

end
