(* ===== verification/Bitmask.thy ===== *)
theory Bitmask
  imports Ltp_Prelude
begin

section \<open>libbitmask: bit masks of any length\<close>

text \<open>
  \<open>libbitmask.c\<close> of the cpuset library.  A mask is its length in bits and an array of 64-bit
  words.  Only \<open>_getbit\<close> and \<open>_setbit\<close> know the layout; the locale \<open>bit_array\<close> states what
  they promise and everything else is derived from it.  Operations whose result is written
  through a pointer that may equal one of the operands work on a store of masks, so the lemmas
  cover the calls that write a mask over its own operand.
  An \<open>unsigned int\<close> is a natural number with the wrap-around at 32 bits written out.
\<close>

unbundle bit_operations_syntax

subsection \<open>Layout\<close>

record bitmask =
  bm_size :: nat
  maskp :: "64 word list"

definition bitsperlong :: nat where "bitsperlong = 64"

definition howmany :: "nat \<Rightarrow> nat \<Rightarrow> nat" where
  "howmany x y = (x + (y - 1)) div y"

definition longsperbits :: "nat \<Rightarrow> nat" where
  "longsperbits n = howmany n bitsperlong"

definition u32 :: "int \<Rightarrow> nat" where
  "u32 x = nat (x mod 2 ^ 32)"

definition getbit :: "bitmask \<Rightarrow> nat \<Rightarrow> bool" where
  "getbit bmp n =
     (if n < bm_size bmp
      then drop_bit (n mod bitsperlong) (maskp bmp ! (n div bitsperlong)) AND 1 = 1
      else False)"

definition setbit :: "bitmask \<Rightarrow> nat \<Rightarrow> bool \<Rightarrow> bitmask" where
  "setbit bmp n v =
     (if n < bm_size bmp
      then let k = n div bitsperlong; w = maskp bmp ! k; one = push_bit (n mod bitsperlong) 1
           in bmp\<lparr>maskp := (maskp bmp)[k := if v then w OR one else w AND NOT one]\<rparr>
      else bmp)"

text \<open>What \<open>malloc\<close> and \<open>calloc\<close> answer is an argument.\<close>

definition bitmask_alloc :: "bool \<Rightarrow> bool \<Rightarrow> nat \<Rightarrow> bitmask option" where
  "bitmask_alloc got_struct got_words n =
     (if \<not> got_struct then None
      else if \<not> got_words then None
      else Some \<lparr>bm_size = n, maskp = replicate (longsperbits n) 0\<rparr>)"

text \<open>\<open>live\<close> holds the addresses of the allocated masks.\<close>

definition bitmask_free :: "nat option \<Rightarrow> nat set \<Rightarrow> nat set outcome" where
  "bitmask_free bmp live =
     (case bmp of
        None \<Rightarrow> Ret live
      | Some p \<Rightarrow> if p \<in> live then Ret (live - {p}) else Undefined ''invalid free'')"

subsection \<open>Assignments\<close>

text \<open>
  The loops that write one mask bit by bit.  \<open>h\<close> maps addresses to masks, \<open>p\<close> is the mask
  written, \<open>f\<close> computes the new bit from the current store.
\<close>

type_synonym bm_store = "nat \<Rightarrow> bitmask"

definition store_bits :: "nat \<Rightarrow> (bm_store \<Rightarrow> nat \<Rightarrow> bool) \<Rightarrow> nat list \<Rightarrow> bm_store \<Rightarrow> bm_store" where
  "store_bits p f is h = fold (\<lambda>i h. h(p := setbit (h p) i (f h i))) is h"

definition bitmask_copy :: "nat \<Rightarrow> nat \<Rightarrow> bm_store \<Rightarrow> bm_store" where
  "bitmask_copy p1 p2 h = store_bits p1 (\<lambda>h i. getbit (h p2) i) [0..<bm_size (h p1)] h"

definition bitmask_setall :: "bitmask \<Rightarrow> bitmask" where
  "bitmask_setall bmp = fold (\<lambda>i b. setbit b i True) [0..<bm_size bmp] bmp"

definition bitmask_clearall :: "bitmask \<Rightarrow> bitmask" where
  "bitmask_clearall bmp = fold (\<lambda>i b. setbit b i False) [0..<bm_size bmp] bmp"

definition bitmask_nbytes :: "bitmask \<Rightarrow> nat" where
  "bitmask_nbytes bmp = longsperbits (bm_size bmp) * 8"

definition bitmask_mask :: "bitmask \<Rightarrow> 64 word list" where
  "bitmask_mask bmp = maskp bmp"

subsection \<open>Queries\<close>

definition bitmask_nbits :: "bitmask \<Rightarrow> nat" where
  "bitmask_nbits bmp = bm_size bmp"

definition bitmask_weight :: "bitmask \<Rightarrow> nat" where
  "bitmask_weight bmp = fold (\<lambda>i w. if getbit bmp i then Suc w else w) [0..<bm_size bmp] 0"

definition bitmask_isbitset :: "bitmask \<Rightarrow> nat \<Rightarrow> bool" where
  "bitmask_isbitset bmp i = getbit bmp i"

definition bitmask_isbitclear :: "bitmask \<Rightarrow> nat \<Rightarrow> bool" where
  "bitmask_isbitclear bmp i = (\<not> getbit bmp i)"

text \<open>The loops that return at the first bit that settles the question.\<close>

definition bitmask_isallset :: "bitmask \<Rightarrow> bool" where
  "bitmask_isallset bmp = list_all (\<lambda>i. \<not> \<not> getbit bmp i) [0..<bm_size bmp]"

definition bitmask_isallclear :: "bitmask \<Rightarrow> bool" where
  "bitmask_isallclear bmp = list_all (\<lambda>i. \<not> getbit bmp i) [0..<bm_size bmp]"

definition bitmask_setbit :: "bitmask \<Rightarrow> nat \<Rightarrow> bitmask" where
  "bitmask_setbit bmp i = setbit bmp i True"

definition bitmask_clearbit :: "bitmask \<Rightarrow> nat \<Rightarrow> bitmask" where
  "bitmask_clearbit bmp i = setbit bmp i False"

definition bitmask_equal :: "bitmask \<Rightarrow> bitmask \<Rightarrow> bool" where
  "bitmask_equal b1 b2 =
     list_all (\<lambda>i. getbit b1 i = getbit b2 i) [0..<max (bm_size b1) (bm_size b2)]"

definition bitmask_subset :: "bitmask \<Rightarrow> bitmask \<Rightarrow> bool" where
  "bitmask_subset b1 b2 = list_all (\<lambda>i. \<not> (getbit b1 i \<and> \<not> getbit b2 i)) [0..<bm_size b1]"

definition bitmask_disjoint :: "bitmask \<Rightarrow> bitmask \<Rightarrow> bool" where
  "bitmask_disjoint b1 b2 = list_all (\<lambda>i. \<not> (getbit b1 i \<and> getbit b2 i)) [0..<bm_size b1]"

definition bitmask_intersects :: "bitmask \<Rightarrow> bitmask \<Rightarrow> bool" where
  "bitmask_intersects b1 b2 = list_ex (\<lambda>i. getbit b1 i \<and> getbit b2 i) [0..<bm_size b1]"

subsection \<open>Ranges\<close>

definition bitmask_setrange :: "bitmask \<Rightarrow> nat \<Rightarrow> nat \<Rightarrow> bitmask" where
  "bitmask_setrange bmp i j = fold (\<lambda>n b. setbit b n True) [i..<j] bmp"

definition bitmask_clearrange :: "bitmask \<Rightarrow> nat \<Rightarrow> nat \<Rightarrow> bitmask" where
  "bitmask_clearrange bmp i j = fold (\<lambda>n b. setbit b n False) [i..<j] bmp"

definition bitmask_keeprange :: "bitmask \<Rightarrow> nat \<Rightarrow> nat \<Rightarrow> bitmask" where
  "bitmask_keeprange bmp i j =
     (let b = bitmask_clearrange bmp 0 i in bitmask_clearrange b j (bm_size b))"

subsection \<open>Operations on two and three masks\<close>

definition bitmask_complement :: "nat \<Rightarrow> nat \<Rightarrow> bm_store \<Rightarrow> bm_store" where
  "bitmask_complement p1 p2 h =
     store_bits p1 (\<lambda>h i. \<not> getbit (h p2) i) [0..<bm_size (h p1)] h"

text \<open>The index \<open>i + n\<close> and, in the left shift, \<open>i - n\<close> is an \<open>unsigned int\<close>.  The left shift
  counts an \<open>int\<close> down from \<open>size - 1\<close>, which is negative when the size exceeds \<open>2 ^ 31\<close>.\<close>

definition bitmask_shiftright :: "nat \<Rightarrow> nat \<Rightarrow> nat \<Rightarrow> bm_store \<Rightarrow> bm_store" where
  "bitmask_shiftright p1 p2 n h =
     store_bits p1 (\<lambda>h i. getbit (h p2) (u32 (int i + int n))) [0..<bm_size (h p1)] h"

definition bitmask_shiftleft :: "nat \<Rightarrow> nat \<Rightarrow> nat \<Rightarrow> bm_store \<Rightarrow> bm_store" where
  "bitmask_shiftleft p1 p2 n h =
     store_bits p1 (\<lambda>h i. getbit (h p2) (u32 (int i - int n)))
       (rev [0..<nat (wrap32 (int (bm_size (h p1)) - 1) + 1)]) h"

definition bitmask_and :: "nat \<Rightarrow> nat \<Rightarrow> nat \<Rightarrow> bm_store \<Rightarrow> bm_store" where
  "bitmask_and p1 p2 p3 h =
     store_bits p1 (\<lambda>h i. getbit (h p2) i \<and> getbit (h p3) i) [0..<bm_size (h p1)] h"

definition bitmask_andnot :: "nat \<Rightarrow> nat \<Rightarrow> nat \<Rightarrow> bm_store \<Rightarrow> bm_store" where
  "bitmask_andnot p1 p2 p3 h =
     store_bits p1 (\<lambda>h i. getbit (h p2) i \<and> \<not> getbit (h p3) i) [0..<bm_size (h p1)] h"

definition bitmask_or :: "nat \<Rightarrow> nat \<Rightarrow> nat \<Rightarrow> bm_store \<Rightarrow> bm_store" where
  "bitmask_or p1 p2 p3 h =
     store_bits p1 (\<lambda>h i. getbit (h p2) i \<or> getbit (h p3) i) [0..<bm_size (h p1)] h"

definition bitmask_eor :: "nat \<Rightarrow> nat \<Rightarrow> nat \<Rightarrow> bm_store \<Rightarrow> bm_store" where
  "bitmask_eor p1 p2 p3 h =
     store_bits p1 (\<lambda>h i. getbit (h p2) i \<noteq> getbit (h p3) i) [0..<bm_size (h p1)] h"

subsection \<open>Iteration\<close>

function bitmask_next :: "bitmask \<Rightarrow> nat \<Rightarrow> nat" where
  "bitmask_next bmp n =
     (if n < bm_size bmp then (if getbit bmp n then n else bitmask_next bmp (Suc n)) else n)"
  by pat_completeness auto
termination by (relation "measure (\<lambda>(b, n). bm_size b - n)") auto

declare bitmask_next.simps [simp del]

definition bitmask_first :: "bitmask \<Rightarrow> nat" where
  "bitmask_first bmp = bitmask_next bmp 0"

text \<open>\<open>n--\<close> is only evaluated on a set bit; the loop ends when the old value was 0.\<close>

fun rel_to_abs :: "bitmask \<Rightarrow> nat list \<Rightarrow> nat \<Rightarrow> nat" where
  "rel_to_abs bmp [] n = bm_size bmp"
| "rel_to_abs bmp (i # is) n =
     (if getbit bmp i then (if n = 0 then i else rel_to_abs bmp is (n - 1))
      else rel_to_abs bmp is n)"

definition bitmask_rel_to_abs_pos :: "bitmask \<Rightarrow> nat \<Rightarrow> nat" where
  "bitmask_rel_to_abs_pos bmp n = rel_to_abs bmp [0..<bm_size bmp] n"

definition bitmask_abs_to_rel_pos :: "bitmask \<Rightarrow> nat \<Rightarrow> nat" where
  "bitmask_abs_to_rel_pos bmp n =
     (if \<not> getbit bmp n then bm_size bmp
      else fold (\<lambda>i w. if getbit bmp i then Suc w else w) [0..<n] 0)"

definition bitmask_last :: "bitmask \<Rightarrow> nat" where
  "bitmask_last bmp = fold (\<lambda>i m. if getbit bmp i then i else m) [0..<bm_size bmp] (bm_size bmp)"

subsection \<open>What the layout promises\<close>

definition bm_ok :: "bitmask \<Rightarrow> bool" where
  "bm_ok b \<longleftrightarrow> bm_size b < 2 ^ 32 \<and> length (maskp b) = longsperbits (bm_size b)"

text \<open>The set of bits a mask stands for.\<close>

definition bits :: "bitmask \<Rightarrow> nat set" where
  "bits b = {i. getbit b i}"

locale bit_array =
  fixes get :: "'b \<Rightarrow> nat \<Rightarrow> bool"
    and put :: "'b \<Rightarrow> nat \<Rightarrow> bool \<Rightarrow> 'b"
    and size_of :: "'b \<Rightarrow> nat"
    and ok :: "'b \<Rightarrow> bool"
  assumes get_bound: "get b n \<Longrightarrow> n < size_of b"
    and get_put: "ok b \<Longrightarrow> get (put b n v) m = (if m = n \<and> n < size_of b then v else get b m)"
    and size_put: "size_of (put b n v) = size_of b"
    and ok_put: "ok b \<Longrightarrow> ok (put b n v)"
begin

lemma fold_put:
  assumes "ok b"
  shows "ok (fold (\<lambda>i b. put b i v) is b) \<and> size_of (fold (\<lambda>i b. put b i v) is b) = size_of b \<and>
    (\<forall>m. get (fold (\<lambda>i b. put b i v) is b) m =
       (if m \<in> set is \<and> m < size_of b then v else get b m))"
  using assms
proof (induction "is" arbitrary: b)
  case (Cons i "is")
  then show ?case by (auto simp: get_put size_put ok_put)
qed simp

text \<open>A loop that writes the mask at \<open>p\<close> computes each bit from the store as it was before the
  loop, when what the loop body reads has not been overwritten yet.\<close>

lemma fold_store:
  fixes h :: "nat \<Rightarrow> 'b"
  assumes "ok (h p)" and "distinct is" and "\<forall>i \<in> set is. i < size_of (h p)"
    and stable: "\<And>k h'. \<lbrakk>k < length is; \<forall>q. q \<noteq> p \<longrightarrow> h' q = h q;
      \<forall>j. j \<notin> set (take k is) \<longrightarrow> get (h' p) j = get (h p) j\<rbrakk> \<Longrightarrow> f h' (is ! k) = f h (is ! k)"
  shows "(\<forall>q. q \<noteq> p \<longrightarrow> fold (\<lambda>i h. h(p := put (h p) i (f h i))) is h q = h q) \<and>
    ok (fold (\<lambda>i h. h(p := put (h p) i (f h i))) is h p) \<and>
    size_of (fold (\<lambda>i h. h(p := put (h p) i (f h i))) is h p) = size_of (h p) \<and>
    (\<forall>j. get (fold (\<lambda>i h. h(p := put (h p) i (f h i))) is h p) j =
       (if j \<in> set is then f h j else get (h p) j))"
  using assms(2,3) stable
proof (induction "is" rule: rev_induct)
  case Nil
  then show ?case using assms(1) by simp
next
  case (snoc x xs)
  define g where "g = fold (\<lambda>i h. h(p := put (h p) i (f h i))) xs h"
  have IH: "(\<forall>q. q \<noteq> p \<longrightarrow> g q = h q) \<and> ok (g p) \<and> size_of (g p) = size_of (h p) \<and>
      (\<forall>j. get (g p) j = (if j \<in> set xs then f h j else get (h p) j))"
    unfolding g_def
  proof (rule snoc.IH)
    show "f h' (xs ! k) = f h (xs ! k)"
      if "k < length xs" "\<forall>q. q \<noteq> p \<longrightarrow> h' q = h q"
        "\<forall>j. j \<notin> set (take k xs) \<longrightarrow> get (h' p) j = get (h p) j" for k h'
      using snoc.prems(3) [of k h'] that by (simp add: nth_append)
  qed (use snoc.prems in simp_all)
  have "f g x = f h x"
    using snoc.prems(3) [of "length xs" g] IH by simp
  moreover have "fold (\<lambda>i h. h(p := put (h p) i (f h i))) (xs @ [x]) h = g(p := put (g p) x (f g x))"
    by (simp only: fold_append g_def o_apply fold_simps)
  ultimately show ?case using IH snoc.prems(1,2)
    by (simp only:) (auto simp: get_put size_put ok_put)
qed

end

lemma getbit_iff: "getbit b n \<longleftrightarrow> n < bm_size b \<and> bit (maskp b ! (n div 64)) (n mod 64)"
  by (simp add: getbit_def bitsperlong_def bit_iff_and_drop_bit_eq_1)

lemma div_lt_longs: "n < s \<Longrightarrow> n div 64 < longsperbits s"
  by (simp add: longsperbits_def howmany_def bitsperlong_def less_eq_div_iff_mult_less_eq
      div_less_iff_less_mult)

lemma getbit_setbit:
  assumes "bm_ok b"
  shows "getbit (setbit b n v) m = (if m = n \<and> n < bm_size b then v else getbit b m)"
proof (cases "n < bm_size b \<and> m < bm_size b \<and> m div 64 = n div 64")
  case True
  then have "n div 64 < length (maskp b)" using assms by (simp add: bm_ok_def div_lt_longs)
  moreover have "m = n \<longleftrightarrow> m mod 64 = n mod 64"
    using True by (metis mult_div_mod_eq)
  ultimately show ?thesis using True
    by (auto simp: getbit_iff setbit_def bitsperlong_def Let_def bit_simps)
next
  case False
  then show ?thesis by (auto simp: getbit_iff setbit_def bitsperlong_def Let_def)
qed

interpretation bma: bit_array getbit setbit bm_size bm_ok
proof
  show "getbit (setbit b n v) m = (if m = n \<and> n < bm_size b then v else getbit b m)"
    if "bm_ok b" for b n v m using that by (rule getbit_setbit)
qed (auto simp: getbit_iff setbit_def bm_ok_def Let_def split: if_splits)

subsection \<open>Masks as sets\<close>

lemma mem_bits [simp]: "i \<in> bits b \<longleftrightarrow> getbit b i"
  by (simp add: bits_def)

lemma bits_bound: "i \<in> bits b \<Longrightarrow> i < bm_size b"
  by (auto dest: bma.get_bound)

text \<open>\<open>h'\<close> is \<open>h\<close> with the mask at \<open>p\<close> assigned the set \<open>S\<close>, cut to its size.\<close>

definition assigned :: "nat \<Rightarrow> nat set \<Rightarrow> bm_store \<Rightarrow> bm_store \<Rightarrow> bool" where
  "assigned p S h h' \<longleftrightarrow> (\<forall>q. q \<noteq> p \<longrightarrow> h' q = h q) \<and> bm_ok (h' p) \<and>
     bm_size (h' p) = bm_size (h p) \<and> bits (h' p) = S \<inter> {..<bm_size (h p)}"

lemma store_bits_assigned:
  assumes "bm_ok (h p)" and "distinct is" and "set is = {..<bm_size (h p)}"
    and "\<And>k h'. \<lbrakk>k < length is; \<forall>q. q \<noteq> p \<longrightarrow> h' q = h q;
      \<forall>j. j \<notin> set (take k is) \<longrightarrow> getbit (h' p) j = getbit (h p) j\<rbrakk> \<Longrightarrow> f h' (is ! k) = f h (is ! k)"
  shows "assigned p {i. f h i} h (store_bits p f is h)"
proof -
  have b: "\<forall>i \<in> set is. i < bm_size (h p)" using assms(3) by simp
  have "(\<forall>q. q \<noteq> p \<longrightarrow> store_bits p f is h q = h q) \<and> bm_ok (store_bits p f is h p) \<and>
    bm_size (store_bits p f is h p) = bm_size (h p) \<and>
    (\<forall>j. getbit (store_bits p f is h p) j = (if j \<in> set is then f h j else getbit (h p) j))"
    unfolding store_bits_def by (rule bma.fold_store [of h p "is" f, OF assms(1,2) b assms(4)])
  then show ?thesis
    unfolding assigned_def assms(3) using bma.get_bound [of "h p"] by (auto simp: bits_def)
qed

text \<open>Loops whose body reads of each mask only the bit with the number it writes.\<close>

lemma store_bits_pointwise:
  assumes "bm_ok (h p)"
    and "\<And>i h'. \<forall>q. getbit (h' q) i = getbit (h q) i \<Longrightarrow> f h' i = f h i"
  shows "assigned p {i. f h i} h (store_bits p f [0..<bm_size (h p)] h)"
proof (rule store_bits_assigned [of h p _ f, OF assms(1)])
  show "f h' ([0..<bm_size (h p)] ! k) = f h ([0..<bm_size (h p)] ! k)"
    if "k < length [0..<bm_size (h p)]" and q: "\<forall>q. q \<noteq> p \<longrightarrow> h' q = h q"
      and j: "\<forall>j. j \<notin> set (take k [0..<bm_size (h p)]) \<longrightarrow> getbit (h' p) j = getbit (h p) j" for k h'
  proof (rule assms(2), rule allI)
    have "getbit (h' p) ([0..<bm_size (h p)] ! k) = getbit (h p) ([0..<bm_size (h p)] ! k)"
      using j that(1) by simp
    with q show "getbit (h' r) ([0..<bm_size (h p)] ! k) = getbit (h r) ([0..<bm_size (h p)] ! k)" for r
      by (cases "r = p") simp_all
  qed
qed auto

text \<open>
  C9: \<open>bitmask_copy\<close>, \<open>bitmask_complement\<close>, \<open>bitmask_and\<close>, \<open>bitmask_andnot\<close>, \<open>bitmask_or\<close> and
  \<open>bitmask_eor\<close> implement the operations on sets of bit numbers, cut to the size of the mask
  written, for masks of different sizes and for every aliasing of the three pointers.  No
  other mask changes and the mask written stays well formed.
\<close>

theorem bitmask_ops_refine:
  assumes "bm_ok (h p1)"
  shows "assigned p1 (bits (h p2)) h (bitmask_copy p1 p2 h) \<and>
    assigned p1 (- bits (h p2)) h (bitmask_complement p1 p2 h) \<and>
    assigned p1 (bits (h p2) \<inter> bits (h p3)) h (bitmask_and p1 p2 p3 h) \<and>
    assigned p1 (bits (h p2) - bits (h p3)) h (bitmask_andnot p1 p2 p3 h) \<and>
    assigned p1 (bits (h p2) \<union> bits (h p3)) h (bitmask_or p1 p2 p3 h) \<and>
    assigned p1 (bits (h p2) - bits (h p3) \<union> (bits (h p3) - bits (h p2))) h
      (bitmask_eor p1 p2 p3 h)"
proof -
  note pointwise = store_bits_pointwise [of h p1, OF assms]
  have "assigned p1 {i. getbit (h p2) i} h (bitmask_copy p1 p2 h)"
    unfolding bitmask_copy_def by (intro pointwise) simp
  moreover have "assigned p1 {i. \<not> getbit (h p2) i} h (bitmask_complement p1 p2 h)"
    unfolding bitmask_complement_def by (intro pointwise) simp
  moreover have "assigned p1 {i. getbit (h p2) i \<and> getbit (h p3) i} h (bitmask_and p1 p2 p3 h)"
    unfolding bitmask_and_def by (intro pointwise) simp
  moreover have "assigned p1 {i. getbit (h p2) i \<and> \<not> getbit (h p3) i} h (bitmask_andnot p1 p2 p3 h)"
    unfolding bitmask_andnot_def by (intro pointwise) simp
  moreover have "assigned p1 {i. getbit (h p2) i \<or> getbit (h p3) i} h (bitmask_or p1 p2 p3 h)"
    unfolding bitmask_or_def by (intro pointwise) simp
  moreover have "assigned p1 {i. getbit (h p2) i \<noteq> getbit (h p3) i} h (bitmask_eor p1 p2 p3 h)"
    unfolding bitmask_eor_def by (intro pointwise) simp
  moreover have "{i. \<not> getbit (h p2) i} = - bits (h p2)"
    "{i. getbit (h p2) i \<and> getbit (h p3) i} = bits (h p2) \<inter> bits (h p3)"
    "{i. getbit (h p2) i \<and> \<not> getbit (h p3) i} = bits (h p2) - bits (h p3)"
    "{i. getbit (h p2) i \<or> getbit (h p3) i} = bits (h p2) \<union> bits (h p3)"
    "{i. getbit (h p2) i \<noteq> getbit (h p3) i} =
       bits (h p2) - bits (h p3) \<union> (bits (h p3) - bits (h p2))"
    by auto
  ultimately show ?thesis by (simp only: bits_def)
qed

definition ex_mask :: "nat \<Rightarrow> bitmask" where
  "ex_mask w = \<lparr>bm_size = 5, maskp = [of_nat w]\<rparr>"

definition ex_store :: bm_store where
  "ex_store = (\<lambda>_. ex_mask 0)(1 := ex_mask 0b10110, 2 := ex_mask 0b00011)"

lemma ex_mask_ok: "bm_ok (ex_mask w)"
  by (simp add: bm_ok_def ex_mask_def longsperbits_def howmany_def bitsperlong_def)

lemma ex_store_ok: "bm_ok (ex_store p)"
  by (simp add: ex_store_def ex_mask_ok)

theorem bitmask_ops_refine_witness:
  "assigned 1 (bits (ex_store 1) \<inter> bits (ex_store 2)) ex_store (bitmask_and 1 1 2 ex_store)"
  using bitmask_ops_refine [of ex_store 1 1 2, OF ex_store_ok] by blast

subsection \<open>Shifts\<close>

lemma u32_id: "n < 2 ^ 32 \<Longrightarrow> u32 (int n) = n"
  by (simp add: u32_def)

lemma u32_neg: "m < n \<Longrightarrow> n < 2 ^ 32 \<Longrightarrow> u32 (int m - int n) = 2 ^ 32 - (n - m)"
proof -
  assume "m < n" "n < 2 ^ 32"
  then have "(int m - int n) mod 2 ^ 32 = int m - int n + 2 ^ 32"
    by (subst mod_add_self2 [symmetric]) (rule mod_pos_pos_trivial, simp_all)
  then show ?thesis using \<open>m < n\<close> \<open>n < 2 ^ 32\<close> by (simp add: u32_def nat_diff_distrib)
qed

lemma shiftright_assigned:
  assumes "bm_ok (h p1)" and "bm_size (h p1) + n \<le> 2 ^ 32"
  shows "assigned p1 {i. u32 (int i + int n) \<in> bits (h p2)} h (bitmask_shiftright p1 p2 n h)"
  unfolding bitmask_shiftright_def mem_bits
proof (rule store_bits_assigned [of h p1 _ "\<lambda>h i. getbit (h p2) (u32 (int i + int n))", OF assms(1)])
  fix k h'
  assume k: "k < length [0..<bm_size (h p1)]" and q: "\<forall>q. q \<noteq> p1 \<longrightarrow> h' q = h q"
    and j: "\<forall>j. j \<notin> set (take k [0..<bm_size (h p1)]) \<longrightarrow> getbit (h' p1) j = getbit (h p1) j"
  have "u32 (int ([0..<bm_size (h p1)] ! k) + int n) = k + n"
    using k assms(2) u32_id [of "k + n"] by simp
  moreover have "getbit (h' p1) (k + n) = getbit (h p1) (k + n)"
    using j k by (metis add_lessD1 atLeastLessThan_iff le_less_trans less_irrefl not_add_less1
        set_upt take_upt add_0 length_upt minus_nat.diff_0 less_imp_le)
  ultimately show "getbit (h' p2) (u32 (int ([0..<bm_size (h p1)] ! k) + int n)) =
      getbit (h p2) (u32 (int ([0..<bm_size (h p1)] ! k) + int n))"
    using q by (cases "p2 = p1") simp_all
qed auto

lemma shiftleft_assigned:
  assumes "bm_ok (h p1)" and "bm_size (h p1) \<le> 2 ^ 31" and "n < 2 ^ 32"
    and "bm_size (h p2) + n \<le> 2 ^ 32"
  shows "assigned p1 {i. n \<le> i \<and> i - n \<in> bits (h p2)} h (bitmask_shiftleft p1 p2 n h)"
proof -
  let ?s = "bm_size (h p1)"
  have s: "nat (wrap32 (int ?s - 1) + 1) = ?s"
    using assms(2) by (subst wrap32_id) (auto simp: int_limits)
  have low: "\<not> getbit (h p2) (u32 (int i - int n))" if "i < n" for i
  proof -
    have "bm_size (h p2) \<le> u32 (int i - int n)"
      using that assms(3,4) u32_neg [of i n] by simp
    then show ?thesis using bma.get_bound [of "h p2"] by (meson leD)
  qed
  have idx: "u32 (int i - int n) = i - n" if "n \<le> i" "i < ?s" for i
    using that assms(2) u32_id [of "i - n"] by (simp add: of_nat_diff)
  have pt: "getbit (h p2) (u32 (int i - int n)) = (n \<le> i \<and> getbit (h p2) (i - n))" if "i < ?s" for i
    using idx [OF _ that] low [of i] by (cases "n \<le> i") simp_all
  have "assigned p1 {i. getbit (h p2) (u32 (int i - int n))} h
      (store_bits p1 (\<lambda>h i. getbit (h p2) (u32 (int i - int n))) (rev [0..<?s]) h)"
  proof (rule store_bits_assigned [of h p1 _ "\<lambda>h i. getbit (h p2) (u32 (int i - int n))", OF assms(1)])
    fix k h'
    assume k: "k < length (rev [0..<?s])" and q: "\<forall>q. q \<noteq> p1 \<longrightarrow> h' q = h q"
      and j: "\<forall>j. j \<notin> set (take k (rev [0..<?s])) \<longrightarrow> getbit (h' p1) j = getbit (h p1) j"
    define i where "i = rev [0..<?s] ! k"
    have i: "i = ?s - Suc k" "i < ?s" using k by (simp_all add: i_def rev_nth)
    have "getbit (h' p1) (u32 (int i - int n)) = getbit (h p1) (u32 (int i - int n))" if "p2 = p1"
    proof -
      have "u32 (int i - int n) \<le> i \<or> ?s \<le> u32 (int i - int n)"
        using idx [OF _ i(2)] u32_neg [of i n] assms(3,4) that
        by (cases "n \<le> i") (simp_all, linarith)
      then have "u32 (int i - int n) \<notin> set (take k (rev [0..<?s]))"
        using i(1) k by (auto simp: take_rev)
      with j show ?thesis by blast
    qed
    then show "getbit (h' p2) (u32 (int (rev [0..<?s] ! k) - int n)) =
        getbit (h p2) (u32 (int (rev [0..<?s] ! k) - int n))"
      using q unfolding i_def by (cases "p2 = p1") simp_all
  qed auto
  moreover have "{i. getbit (h p2) (u32 (int i - int n))} \<inter> {..<?s} =
      {i. n \<le> i \<and> i - n \<in> bits (h p2)} \<inter> {..<?s}"
    using pt by auto
  ultimately show ?thesis by (simp add: assigned_def bitmask_shiftleft_def s)
qed

text \<open>
  C32: \<open>bitmask_shiftright\<close> and \<open>bitmask_shiftleft\<close> move every bit by \<open>n\<close> places, drop the
  bits that leave the mask and shift in zeros, also when a mask is shifted onto itself (the two
  loops run in opposite directions for that).  The bounds are needed: the bit numbers are
  32-bit and the left shift counts with a signed number.
\<close>

theorem bitmask_shifts_refine:
  assumes "bm_ok (h p1)" and "bm_size (h p1) \<le> 2 ^ 31" and "n < 2 ^ 32"
    and "bm_size (h p1) + n \<le> 2 ^ 32" and "bm_size (h p2) + n \<le> 2 ^ 32"
  shows "assigned p1 {i. i + n \<in> bits (h p2)} h (bitmask_shiftright p1 p2 n h) \<and>
    assigned p1 ((\<lambda>i. i + n) ` bits (h p2)) h (bitmask_shiftleft p1 p2 n h)"
proof
  have "{i. u32 (int i + int n) \<in> bits (h p2)} \<inter> {..<bm_size (h p1)} =
      {i. i + n \<in> bits (h p2)} \<inter> {..<bm_size (h p1)}"
    using assms(4) u32_id [of "_ + n"] by auto
  then show "assigned p1 {i. i + n \<in> bits (h p2)} h (bitmask_shiftright p1 p2 n h)"
    using shiftright_assigned [of h p1 n p2, OF assms(1,4)] by (simp add: assigned_def)
  have "{i. n \<le> i \<and> i - n \<in> bits (h p2)} = (\<lambda>i. i + n) ` bits (h p2)"
    by (force simp: image_iff)
  then show "assigned p1 ((\<lambda>i. i + n) ` bits (h p2)) h (bitmask_shiftleft p1 p2 n h)"
    using shiftleft_assigned [of h p1 n p2, OF assms(1,2,3,5)] by simp
qed

theorem bitmask_shifts_refine_witness:
  "assigned 1 {i. i + 2 \<in> bits (ex_store 1)} ex_store (bitmask_shiftright 1 1 2 ex_store) \<and>
    assigned 1 ((\<lambda>i. i + 2) ` bits (ex_store 1)) ex_store (bitmask_shiftleft 1 1 2 ex_store)"
  by (rule bitmask_shifts_refine [of ex_store 1 2 1, OF ex_store_ok]) (simp_all add: ex_store_def ex_mask_def)

subsection \<open>Single masks\<close>

lemmas fold_put_ok = bma.fold_put [THEN conjunct1]
lemmas fold_put_size = bma.fold_put [THEN conjunct2, THEN conjunct1]
lemmas fold_put_get = bma.fold_put [THEN conjunct2, THEN conjunct2, rule_format]

lemma bitmask_alloc_empty:
  assumes "bitmask_alloc a c n = Some b" and "n < 2 ^ 32"
  shows "bm_ok b \<and> bm_size b = n \<and> bits b = {}"
proof -
  have b: "b = \<lparr>bm_size = n, maskp = replicate (longsperbits n) 0\<rparr>"
    using assms(1) by (auto simp: bitmask_alloc_def split: if_splits)
  have "\<not> getbit b i" for i
    using div_lt_longs [of i n] by (auto simp: b getbit_iff)
  then show ?thesis using assms(2) by (auto simp: b bm_ok_def bits_def)
qed

lemma bits_setall: "bm_ok b \<Longrightarrow> bits (bitmask_setall b) = {..<bm_size b}"
  using bits_bound [of _ b] by (auto simp: bitmask_setall_def fold_put_get split: if_splits)

lemma clearall_laws:
  assumes "bm_ok b"
  shows "bm_ok (bitmask_clearall b) \<and> bm_size (bitmask_clearall b) = bm_size b \<and>
    bits (bitmask_clearall b) = {}"
  using assms bits_bound [of _ b]
  by (auto simp: bitmask_clearall_def fold_put_ok fold_put_size fold_put_get bits_def
      split: if_splits)

lemma bits_setrange: "bm_ok b \<Longrightarrow> bits (bitmask_setrange b i j) = bits b \<union> {i..<j} \<inter> {..<bm_size b}"
  by (auto simp: bitmask_setrange_def fold_put_get split: if_splits)

lemma bits_clearrange: "bm_ok b \<Longrightarrow> bits (bitmask_clearrange b i j) = bits b - {i..<j}"
  using bits_bound [of _ b] by (auto simp: bitmask_clearrange_def fold_put_get split: if_splits)

lemma bits_keeprange:
  assumes "bm_ok b"
  shows "bits (bitmask_keeprange b i j) = bits b \<inter> {i..<j}"
proof -
  have "bm_ok (bitmask_clearrange b 0 i)" "bm_size (bitmask_clearrange b 0 i) = bm_size b"
    using assms by (simp_all add: bitmask_clearrange_def fold_put_ok fold_put_size)
  then show ?thesis using assms bits_bound [of _ b]
    by (auto simp: bitmask_keeprange_def Let_def bits_clearrange simp del: mem_bits)
qed

lemma bits_setbit:
  "bm_ok b \<Longrightarrow> i < bm_size b \<Longrightarrow> bits (bitmask_setbit b i) = insert i (bits b)"
  by (auto simp: bitmask_setbit_def bma.get_put split: if_splits)

lemma bits_clearbit: "bm_ok b \<Longrightarrow> bits (bitmask_clearbit b i) = bits b - {i}"
  using bits_bound [of _ b] by (auto simp: bitmask_clearbit_def bma.get_put split: if_splits)

text \<open>A loop over all bit numbers decides a property of all numbers that holds beyond the
  masks.\<close>

lemma all_upt: "(\<And>i. n \<le> i \<Longrightarrow> P i) \<Longrightarrow> list_all P [0..<n] \<longleftrightarrow> (\<forall>i. P i)"
  by (auto simp: list_all_iff not_less [symmetric])

lemma getbit_beyond: "bm_size b \<le> i \<Longrightarrow> \<not> getbit b i"
  by (simp add: getbit_def)

lemma isallset_iff: "bitmask_isallset b \<longleftrightarrow> bits b = {..<bm_size b}"
  using bma.get_bound [of b] by (auto simp: bitmask_isallset_def list_all_iff)

lemma isallclear_iff: "bitmask_isallclear b \<longleftrightarrow> bits b = {}"
  unfolding bitmask_isallclear_def by (subst all_upt) (simp_all add: getbit_beyond set_eq_iff)

lemma equal_iff: "bitmask_equal b c \<longleftrightarrow> bits b = bits c"
  unfolding bitmask_equal_def by (subst all_upt) (simp_all add: getbit_beyond set_eq_iff)

lemma subset_iff_bits: "bitmask_subset b c \<longleftrightarrow> bits b \<subseteq> bits c"
  unfolding bitmask_subset_def by (subst all_upt) (auto simp: getbit_beyond)

lemma disjoint_iff_bits: "bitmask_disjoint b c \<longleftrightarrow> bits b \<inter> bits c = {}"
  unfolding bitmask_disjoint_def by (subst all_upt) (simp_all add: getbit_beyond set_eq_iff)

lemma intersects_iff: "bitmask_intersects b c \<longleftrightarrow> bits b \<inter> bits c \<noteq> {}"
  unfolding disjoint_iff_bits [symmetric]
  by (simp add: bitmask_intersects_def bitmask_disjoint_def list_ex_iff list_all_iff)

lemmas bitmask_queries =
  isallset_iff isallclear_iff equal_iff subset_iff_bits disjoint_iff_bits intersects_iff

lemma finite_bits [simp]: "finite (bits b)"
  by (rule finite_subset [of _ "{..<bm_size b}"]) (auto dest: bma.get_bound)

text \<open>The set bits in increasing order.\<close>

definition bit_list :: "bitmask \<Rightarrow> nat list" where
  "bit_list b = filter (getbit b) [0..<bm_size b]"

lemma bit_list_laws: "set (bit_list b) = bits b" "sorted (bit_list b)" "distinct (bit_list b)"
  by (auto simp: bit_list_def sorted_wrt_filter dest: bma.get_bound)

lemma fold_count: "fold (\<lambda>i w. if P i then Suc w else w) is w = w + length (filter P is)"
  by (induction "is" arbitrary: w) auto

lemma rel_to_abs_nth:
  "rel_to_abs b is n =
     (if n < length (filter (getbit b) is) then filter (getbit b) is ! n else bm_size b)"
  by (induction b "is" n rule: rel_to_abs.induct) auto

lemma weight_bit_list: "bitmask_weight b = length (bit_list b)"
  by (simp add: bitmask_weight_def fold_count bit_list_def)

lemma weight_card: "bitmask_weight b = card (bits b)"
  by (metis weight_bit_list bit_list_laws(1,3) distinct_card)

lemma abs_to_rel_split:
  assumes "getbit b n"
  shows "bit_list b = filter (getbit b) [0..<n] @ n # filter (getbit b) [Suc n..<bm_size b]"
proof -
  have "[0..<bm_size b] = [0..<n] @ n # [Suc n..<bm_size b]"
    using bma.get_bound [OF assms] upt_add_eq_append [of 0 n "bm_size b - n"]
      upt_conv_Cons [of n "bm_size b"] by simp
  then show ?thesis using assms by (simp add: bit_list_def)
qed

lemma abs_to_rel_nth:
  assumes "getbit b n"
  shows "bitmask_abs_to_rel_pos b n < length (bit_list b) \<and> bit_list b ! bitmask_abs_to_rel_pos b n = n"
  using assms
  by (simp add: abs_to_rel_split [OF assms] bitmask_abs_to_rel_pos_def fold_count nth_append)

text \<open>
  The relative and the absolute position are inverse to each other: \<open>bitmask_weight\<close> is the
  number of set bits, \<open>bitmask_abs_to_rel_pos\<close> maps the set bits onto the numbers below it and
  \<open>bitmask_rel_to_abs_pos\<close> maps them back; everything else is mapped to the size.
\<close>

theorem bitmask_positions:
  "bitmask_weight b = card (bits b) \<and>
   bij_betw (bitmask_abs_to_rel_pos b) (bits b) {..<bitmask_weight b} \<and>
   bij_betw (bitmask_rel_to_abs_pos b) {..<bitmask_weight b} (bits b) \<and>
   (\<forall>n \<in> bits b. bitmask_rel_to_abs_pos b (bitmask_abs_to_rel_pos b n) = n) \<and>
   (\<forall>k < bitmask_weight b. bitmask_abs_to_rel_pos b (bitmask_rel_to_abs_pos b k) = k) \<and>
   (\<forall>k \<ge> bitmask_weight b. bitmask_rel_to_abs_pos b k = bm_size b)"
proof -
  have ra: "bitmask_rel_to_abs_pos b k =
      (if k < bitmask_weight b then bit_list b ! k else bm_size b)" for k
    by (simp add: bitmask_rel_to_abs_pos_def rel_to_abs_nth weight_bit_list bit_list_def)
  have 1: "\<forall>n \<in> bits b. bitmask_rel_to_abs_pos b (bitmask_abs_to_rel_pos b n) = n"
    and ar: "\<forall>n \<in> bits b. bitmask_abs_to_rel_pos b n < bitmask_weight b"
    using abs_to_rel_nth [of b] by (simp_all add: ra weight_bit_list)
  have in_bits: "bit_list b ! k \<in> bits b" if "k < bitmask_weight b" for k
    using that bit_list_laws(1) nth_mem weight_bit_list by metis
  have 2: "bitmask_abs_to_rel_pos b (bitmask_rel_to_abs_pos b k) = k" if "k < bitmask_weight b" for k
    using that abs_to_rel_nth [of b "bit_list b ! k"] in_bits [OF that]
      nth_eq_iff_index_eq [OF bit_list_laws(3), of "bitmask_abs_to_rel_pos b (bit_list b ! k)" b k]
    by (simp add: ra weight_bit_list)
  have "bij_betw (bitmask_abs_to_rel_pos b) (bits b) {..<bitmask_weight b}"
    using 1 2 ar in_bits by (intro bij_betw_byWitness [of _ "bitmask_rel_to_abs_pos b"]) (auto simp: ra)
  moreover have "bij_betw (bitmask_rel_to_abs_pos b) {..<bitmask_weight b} (bits b)"
    using 1 2 ar in_bits by (intro bij_betw_byWitness [of _ "bitmask_abs_to_rel_pos b"]) (auto simp: ra)
  ultimately show ?thesis using 1 2 weight_card by (auto simp: ra)
qed

lemma ex_mask_bits: "bits (ex_mask 0b10110) = {1, 2, 4}"
proof -
  have "bit_list (ex_mask 0b10110) = [1, 2, 4]"
    by (simp add: bit_list_def ex_mask_def getbit_iff upt_rec)
  then show ?thesis using bit_list_laws(1) [of "ex_mask 0b10110"] by simp
qed

theorem bitmask_positions_witness:
  "bitmask_weight (ex_mask 0b10110) = 3 \<and>
   bitmask_rel_to_abs_pos (ex_mask 0b10110) (bitmask_abs_to_rel_pos (ex_mask 0b10110) 4) = 4"
  using bitmask_positions [of "ex_mask 0b10110"] unfolding ex_mask_bits by simp

end
