(* ===== verification/Bitmask_Text.thy ===== *)
theory Bitmask_Text
  imports Bitmask
begin

section \<open>libbitmask: masks as text\<close>

text \<open>
  The list format (\<open>0-3,8,10-20:5\<close>) and the hexadecimal format of masks, printed into a bounded
  buffer and parsed back.  A pointer into the text is the rest of the text from there on, so
  of two pointers the one with the longer rest comes first.  \<open>len\<close> is a natural number: it counts
  the characters that a buffer of at most \<open>INT_MAX\<close> bytes would have to hold.
\<close>

unbundle bit_operations_syntax

subsection \<open>Printing\<close>

text \<open>\<open>len += snprintf (buf + len, MAX (buflen - len, 0), s)\<close> on \<open>(len, buf)\<close>.\<close>

definition snprintf_at :: "int \<Rightarrow> string \<Rightarrow> nat \<times> string \<Rightarrow> nat \<times> string" where
  "snprintf_at buflen s st =
     (let (len, buf) = st; room = nat (max (buflen - int len) 0)
      in (len + length s, if room = 0 then buf else take len buf @ take (room - 1) s))"

definition emit :: "int \<Rightarrow> int \<Rightarrow> int \<Rightarrow> nat \<times> string \<Rightarrow> nat \<times> string" where
  "emit buflen rbot rtop st =
     (let st1 = (if 0 < fst st then snprintf_at buflen '','' st else st)
      in if rbot = rtop then snprintf_at buflen (show_int rbot) st1
         else snprintf_at buflen (show_int rbot @ ''-'' @ show_int rtop) st1)"

lemma bitmask_next_ge: "n \<le> bitmask_next b n"
proof (induction b n rule: bitmask_next.induct)
  case (1 b n)
  then show ?case by (subst bitmask_next.simps) (auto intro: Suc_leD)
qed

function display_loop :: "bitmask \<Rightarrow> int \<Rightarrow> nat \<Rightarrow> nat \<Rightarrow> nat \<times> string \<Rightarrow> nat \<times> string" where
  "display_loop bmp buflen cur rbot st =
     (if cur < bm_size bmp
      then let rtop = cur; cur' = bitmask_next bmp (cur + 1)
           in if cur' \<ge> bm_size bmp \<or> cur' > rtop + 1
              then display_loop bmp buflen cur' cur'
                     (emit buflen (wrap32 (int rbot)) (wrap32 (int rtop)) st)
              else display_loop bmp buflen cur' rbot st
      else st)"
  by pat_completeness auto
termination
proof (relation "measure (\<lambda>(b, _, cur, _). bm_size b - cur)", simp, goal_cases)
  case (1 bmp buflen cur rbot st rtop cur')
  then show ?case using bitmask_next_ge [of "cur + 1" bmp] by simp
next
  case (2 bmp buflen cur rbot st rtop cur')
  then show ?case using bitmask_next_ge [of "cur + 1" bmp] by auto
qed

declare display_loop.simps [simp del]

text \<open>\<open>buf\<close> holds what was in the buffer before; the result is the length and the buffer.\<close>

definition bitmask_displaylist :: "string \<Rightarrow> int \<Rightarrow> bitmask \<Rightarrow> nat \<times> string" where
  "bitmask_displaylist buf buflen bmp =
     (let buf0 = (if buflen > 0 then [] else buf); cur = bitmask_first bmp
      in display_loop bmp buflen cur cur (0, buf0))"

fun hex_fixed :: "nat \<Rightarrow> nat \<Rightarrow> string" where
  "hex_fixed 0 v = []"
| "hex_fixed (Suc k) v = hex_fixed k (v div 16) @ [hex_digit (v mod 16)]"

definition HEXCHUNKSZ :: nat where "HEXCHUNKSZ = 32"
definition HEXCHARSZ :: nat where "HEXCHARSZ = 8"

definition chunk_val :: "bitmask \<Rightarrow> nat \<Rightarrow> 32 word" where
  "chunk_val bmp chunk =
     fold (\<lambda>bit val. push_bit 1 val OR of_bool (getbit bmp (chunk * HEXCHUNKSZ + bit)))
       (rev [0..<HEXCHUNKSZ]) 0"

definition hex_chunk :: "bitmask \<Rightarrow> int \<Rightarrow> nat \<Rightarrow> (nat \<times> string) \<times> string \<Rightarrow> (nat \<times> string) \<times> string" where
  "hex_chunk bmp buflen chunk s =
     (case s of (st, sep) \<Rightarrow>
        (snprintf_at buflen (sep @ hex_fixed HEXCHARSZ (unat (chunk_val bmp chunk))) st, '',''))"

text \<open>\<open>howmany (bmp->size, HEXCHUNKSZ)\<close> adds 32-bit numbers.\<close>

definition hex_nchunks :: "bitmask \<Rightarrow> nat" where
  "hex_nchunks bmp = u32 (int (bm_size bmp) + (int HEXCHUNKSZ - 1)) div HEXCHUNKSZ"

definition bitmask_displayhex :: "string \<Rightarrow> int \<Rightarrow> bitmask \<Rightarrow> nat \<times> string" where
  "bitmask_displayhex buf buflen bmp =
     (if buflen < 1 then (0, buf)
      else fst (fold (hex_chunk bmp buflen) (rev [0..<hex_nchunks bmp]) ((0, []), [])))"

subsection \<open>Parsing\<close>

definition nexttoken :: "string option \<Rightarrow> char \<Rightarrow> string option" where
  "nexttoken q sep =
     (case q of None \<Rightarrow> None
      | Some s \<Rightarrow> (case strchr s sep of None \<Rightarrow> None | Some t \<Rightarrow> Some (tl t)))"

text \<open>\<open>c1 != NULL && (c2 == NULL || c1 < c2)\<close>.\<close>

definition before :: "string option \<Rightarrow> string option \<Rightarrow> bool" where
  "before c1 c2 =
     (case c1 of None \<Rightarrow> False
      | Some x \<Rightarrow> (case c2 of None \<Rightarrow> True | Some y \<Rightarrow> length y < length x))"

text \<open>\<open>sscanf (s, "%u%c", &a, &nextc)\<close>: the number of conversions (-1 at the end of the
  input), the number read, and the next character when there is one.\<close>

definition sscanf_u :: "string \<Rightarrow> int \<times> nat \<times> char" where
  "sscanf_u s =
     (let t = dropWhile is_space s; (v, r, e) = strtoul10 t
      in if t = [] then (-1, 0, NUL)
         else if r = t then (0, 0, NUL)
         else (case r of [] \<Rightarrow> (1, u32 v, NUL) | c # _ \<Rightarrow> (2, u32 v, c)))"

definition scan_was_ok :: "int \<Rightarrow> char \<Rightarrow> string \<Rightarrow> bool" where
  "scan_was_ok sret nextc ok_next_chars =
     (sret = 1 \<or> (sret = 2 \<and> strchr ok_next_chars nextc \<noteq> None))"

text \<open>The end of the range and the stride; \<open>None\<close> is the jump to \<open>err\<close>.\<close>

definition range_part :: "nat \<Rightarrow> string option \<Rightarrow> string option \<Rightarrow> (nat \<times> nat) option" where
  "range_part a c1 c2 =
     (if before c1 c2
      then let (sret, b, nextc) = sscanf_u (the c1)
           in if \<not> scan_was_ok sret nextc '',:'' then None
              else let c1' = nexttoken c1 (CHR '':'')
                   in if before c1' c2
                      then let (sret, s, nextc) = sscanf_u (the c1')
                           in if \<not> scan_was_ok sret nextc '','' then None else Some (b, s)
                      else Some (b, 1)
      else Some (a, 1))"

text \<open>\<open>while (a <= b) { _setbit (bmp, a, 1); a += s; }\<close>: no result when it never ends.\<close>

partial_function (option) set_stride :: "nat \<Rightarrow> nat \<Rightarrow> nat \<Rightarrow> bitmask \<Rightarrow> bitmask option" where
  "set_stride a b s bmp =
     (if a \<le> b then set_stride (u32 (int a + int s)) b s (setbit bmp a True) else Some bmp)"

text \<open>One pass of the loop: whether to go on, and the mask; \<open>None\<close> when the pass never ends.\<close>

definition parse_term :: "string \<Rightarrow> bitmask \<Rightarrow> (bool \<times> bitmask) option" where
  "parse_term p bmp =
     (let (sret, a, nextc) = sscanf_u p
      in if \<not> scan_was_ok sret nextc '',-'' then Some (False, bmp)
         else (case range_part a (nexttoken (Some p) (CHR ''-'')) (nexttoken (Some p) COMMA) of
             None \<Rightarrow> Some (False, bmp)
           | Some (b, s) \<Rightarrow>
               if \<not> a \<le> b then Some (False, bmp)
               else if b \<ge> bm_size bmp then Some (False, bmp)
               else map_option (\<lambda>m. (True, m)) (set_stride a b s bmp)))"

lemma nexttoken_shorter:
  assumes "nexttoken (Some s) c = Some t"
  shows "length t < length s"
proof -
  obtain u where u: "strchr s c = Some u" "t = tl u"
    using assms by (auto simp: nexttoken_def split: option.splits)
  from strchr_Some [OF u(1)] u(2) show ?thesis by auto
qed

function parse_terms :: "string option \<Rightarrow> bitmask \<Rightarrow> (bool \<times> bitmask) option" where
  "parse_terms None bmp = Some (True, bmp)"
| "parse_terms (Some p) bmp =
     (case parse_term p bmp of
        None \<Rightarrow> None
      | Some (go_on, b) \<Rightarrow>
          if go_on then parse_terms (nexttoken (Some p) COMMA) b else Some (False, b))"
  by pat_completeness auto
termination
proof (relation "measure (\<lambda>(q, _). case q of None \<Rightarrow> 0 | Some s \<Rightarrow> Suc (length s))", simp, goal_cases)
  case (1 p bmp x go_on b)
  then show ?case by (auto split: option.split dest: nexttoken_shorter)
qed

definition bitmask_parselist :: "string \<Rightarrow> bitmask \<Rightarrow> (int \<times> bitmask) option" where
  "bitmask_parselist buf bmp =
     (case parse_terms (Some buf) (bitmask_clearall bmp) of
        None \<Rightarrow> None
      | Some (True, b) \<Rightarrow> Some (0, b)
      | Some (False, b) \<Rightarrow> Some (-1, bitmask_clearall b))"

text \<open>\<open>strtoul (p, &endptr, 16)\<close>: the value and the rest at \<open>endptr\<close>.\<close>

definition hex_val :: "char \<Rightarrow> nat option" where
  "hex_val c =
     (let n = (of_char c :: nat)
      in if 48 \<le> n \<and> n \<le> 57 then Some (n - 48)
         else if 97 \<le> n \<and> n \<le> 102 then Some (n - 87)
         else if 65 \<le> n \<and> n \<le> 70 then Some (n - 55) else None)"

definition is_hex :: "char \<Rightarrow> bool" where
  "is_hex c \<longleftrightarrow> hex_val c \<noteq> None"

definition hex_num :: "string \<Rightarrow> nat" where
  "hex_num ds = foldl (\<lambda>a c. 16 * a + the (hex_val c)) 0 ds"

definition skip_0x :: "string \<Rightarrow> string" where
  "skip_0x u = (case u of c0 # x # d # r \<Rightarrow>
       if c0 = CHR ''0'' \<and> (x = CHR ''x'' \<or> x = CHR ''X'') \<and> is_hex d then d # r else u
     | _ \<Rightarrow> u)"

definition strtoul16 :: "string \<Rightarrow> int \<times> string" where
  "strtoul16 s =
     (let (neg, u) = read_sign (dropWhile is_space s); w = skip_0x u;
          ds = takeWhile is_hex w; r = dropWhile is_hex w
      in if ds = [] then (0, s)
         else let v = int (hex_num ds)
              in if v > ULONG_MAX then (ULONG_MAX, r)
                 else if neg then ((- v) mod 2 ^ 64, r) else (v, r))"

function count_chunks :: "string option \<Rightarrow> nat" where
  "count_chunks None = 0"
| "count_chunks (Some p) = Suc (count_chunks (nexttoken (Some p) COMMA))"
  by pat_completeness auto
termination
proof (relation "measure (\<lambda>q. case q of None \<Rightarrow> 0 | Some s \<Rightarrow> Suc (length s))", simp, goal_cases)
  case (1 p)
  then show ?case by (auto split: option.split dest: nexttoken_shorter)
qed

text \<open>The inner loop stops at the first bit number beyond the words of the mask.\<close>

fun set_chunk :: "nat \<Rightarrow> nat \<Rightarrow> 32 word \<Rightarrow> nat list \<Rightarrow> bitmask \<Rightarrow> bool \<times> bitmask" where
  "set_chunk nbits chunk val [] bmp = (True, bmp)"
| "set_chunk nbits chunk val (k # ks) bmp =
     (let n = u32 (int (chunk * HEXCHUNKSZ + k))
      in if n \<ge> nbits then (False, bmp)
         else set_chunk nbits chunk val ks (setbit bmp n (drop_bit k val AND 1 = 1)))"

definition parse_chunk :: "nat \<Rightarrow> nat \<Rightarrow> string \<Rightarrow> bitmask \<Rightarrow> bool \<times> bitmask" where
  "parse_chunk nbits chunk p bmp =
     (let q = nexttoken (Some p) COMMA; (v, endptr) = strtoul16 p; val = word_of_int v;
          nchars_read = length p - length endptr
      in if nchars_read < 1 \<or> nchars_read > HEXCHARSZ then (False, bmp)
         else if q \<noteq> None \<and> int (length endptr) - int (length (the q)) \<noteq> 1 then (False, bmp)
         else set_chunk nbits chunk val (rev [0..<HEXCHUNKSZ]) bmp)"

function parse_chunks :: "nat \<Rightarrow> nat \<Rightarrow> string option \<Rightarrow> bitmask \<Rightarrow> bool \<times> bitmask" where
  "parse_chunks nbits nchunks None bmp = (True, bmp)"
| "parse_chunks nbits nchunks (Some p) bmp =
     (let (go_on, b) = parse_chunk nbits (nchunks - 1) p bmp
      in if go_on then parse_chunks nbits (nchunks - 1) (nexttoken (Some p) COMMA) b else (False, b))"
  by pat_completeness auto
termination
proof (relation "measure (\<lambda>(_, _, q, _). case q of None \<Rightarrow> 0 | Some s \<Rightarrow> Suc (length s))", simp, goal_cases)
  case (1 nbits nchunks p bmp x go_on b)
  then show ?case by (auto split: option.split dest: nexttoken_shorter)
qed

definition bitmask_parsehex :: "string \<Rightarrow> bitmask \<Rightarrow> int \<times> bitmask" where
  "bitmask_parsehex buf bmp =
     (let b0 = bitmask_clearall bmp; nbits = u32 (int (longsperbits (bm_size b0) * 64));
          (success, b) = parse_chunks nbits (count_chunks (Some buf)) (Some buf) b0
      in if success then (0, b) else (-1, bitmask_clearall b))"

subsection \<open>Reading one term of the list format\<close>

lemma nexttoken_append: "c \<notin> set p \<Longrightarrow> nexttoken (Some (p @ t)) c = nexttoken (Some t) c"
  by (simp add: nexttoken_def strchr_append)

lemma nexttoken_simps [simp]:
  "nexttoken None c = None" "nexttoken (Some []) c = None" "nexttoken (Some (c # t)) c = Some t"
  "d \<noteq> c \<Longrightarrow> nexttoken (Some (d # t)) c = nexttoken (Some t) c"
  by (simp_all add: nexttoken_def)

lemma nexttoken_none: "c \<notin> set p \<Longrightarrow> nexttoken (Some p) c = None"
  by (simp add: nexttoken_def strchr_None_iff split: option.split)

lemma not_in_show_nat: "\<not> is_digit c \<Longrightarrow> c \<notin> set (show_nat n)"
  using show_nat_digits by blast

lemma separators_not_digits [simp]:
  "\<not> is_digit COMMA" "\<not> is_digit (CHR ''-'')" "\<not> is_digit (CHR '':'')"
  by (simp_all add: is_digit_def)

lemmas separators_not_in_show_nat [simp] = separators_not_digits [THEN not_in_show_nat]

lemma dropWhile_space_show_nat: "dropWhile is_space (show_nat n @ r) = show_nat n @ r"
proof -
  obtain c cs where "show_nat n = c # cs" "is_digit c" using show_nat_Cons by blast
  then show ?thesis by (simp add: digit_not_space)
qed

lemma sscanf_u_show:
  assumes "n < 2 ^ 32" and "nondigit_head r"
  shows "sscanf_u (show_nat n @ r) = (case r of [] \<Rightarrow> (1, n, NUL) | c # _ \<Rightarrow> (2, n, c))"
proof -
  have "strtoul10 (show_nat n @ r) = (int n, r, False)"
    using assms by (intro strtoul10_show_nat) (simp_all add: int_limits)
  then show ?thesis
    using u32_id [OF assms(1)] by (simp add: sscanf_u_def dropWhile_space_show_nat split: list.split)
qed

definition end_of_term :: "string \<Rightarrow> bool" where
  "end_of_term r \<longleftrightarrow> (r = [] \<or> hd r = COMMA)"

definition after_term :: "string \<Rightarrow> string option" where
  "after_term r = (case r of [] \<Rightarrow> None | _ # t \<Rightarrow> Some t)"

lemma end_of_term_cases:
  assumes "end_of_term r"
  obtains "r = []" | t where "r = COMMA # t"
  using assms by (cases r) (auto simp: end_of_term_def)

lemma end_of_term_nondigit: "end_of_term r \<Longrightarrow> nondigit_head r"
  by (auto simp: end_of_term_def nondigit_head_def)

lemma nexttoken_comma:
  "COMMA \<notin> set p \<Longrightarrow> end_of_term r \<Longrightarrow> nexttoken (Some (p @ r)) COMMA = after_term r"
  by (erule end_of_term_cases) (simp_all add: nexttoken_append nexttoken_none after_term_def)

lemma not_before_comma:
  assumes "end_of_term r" and "c \<noteq> COMMA" and "c \<notin> set p"
  shows "\<not> before (nexttoken (Some (p @ r)) c) (after_term r)"
  using assms(1)
proof (cases rule: end_of_term_cases)
  case (2 t)
  then have "nexttoken (Some (p @ r)) c = nexttoken (Some t) c"
    using assms by (simp add: nexttoken_append)
  then show ?thesis using 2 nexttoken_shorter [of t c]
    by (auto simp: before_def after_term_def split: option.split)
qed (use assms in \<open>simp add: nexttoken_none before_def\<close>)

lemma before_comma: "end_of_term r \<Longrightarrow> before (Some (p @ r)) (after_term r)"
  by (erule end_of_term_cases) (simp_all add: before_def after_term_def)

text \<open>The text of a range with its stride, in the shortest form.\<close>

definition show_term :: "nat \<times> nat \<times> nat \<Rightarrow> string" where
  "show_term t =
     (case t of (a, b, s) \<Rightarrow> show_nat a @
        (if a = b \<and> s = 1 then []
         else CHR ''-'' # show_nat b @ (if s = 1 then [] else CHR '':'' # show_nat s)))"

lemma comma_not_in_show_term: "COMMA \<notin> set (show_term t)"
  by (cases t) (simp add: show_term_def)

lemma range_part_show:
  assumes "end_of_term r" and "b < 2 ^ 32" and "s < 2 ^ 32"
  shows "range_part a (Some (show_nat b @ (if s = 1 then [] else CHR '':'' # show_nat s) @ r))
      (after_term r) = Some (b, s)"
proof (cases "s = 1")
  case True
  have "before (Some (show_nat b @ r)) (after_term r)" by (rule before_comma [OF assms(1)])
  moreover have "\<not> before (nexttoken (Some (show_nat b @ r)) (CHR '':'')) (after_term r)"
    by (rule not_before_comma [OF assms(1)]) simp_all
  ultimately show ?thesis using True assms
    by (auto simp: range_part_def sscanf_u_show end_of_term_nondigit scan_was_ok_def
        elim: end_of_term_cases)
next
  case False
  have "before (Some (show_nat b @ (CHR '':'' # show_nat s) @ r)) (after_term r)"
    using before_comma [OF assms(1), of "show_nat b @ CHR '':'' # show_nat s"] by simp
  moreover have "nexttoken (Some (show_nat b @ (CHR '':'' # show_nat s) @ r)) (CHR '':'') =
      Some (show_nat s @ r)"
    by (simp add: nexttoken_append)
  moreover have "before (Some (show_nat s @ r)) (after_term r)" by (rule before_comma [OF assms(1)])
  moreover have "sscanf_u (show_nat b @ (CHR '':'' # show_nat s) @ r) = (2, b, CHR '':'')"
    using assms(2) by (subst sscanf_u_show) (simp_all add: nondigit_head_def)
  ultimately show ?thesis using False assms
    by (auto simp: range_part_def sscanf_u_show end_of_term_nondigit scan_was_ok_def
        elim: end_of_term_cases)
qed

lemma parse_term_show:
  assumes "end_of_term r" and "a \<le> b" and "b < bm_size bmp" and "bm_size bmp \<le> 2 ^ 32" and "s < 2 ^ 32"
  shows "parse_term (show_term (a, b, s) @ r) bmp =
      map_option (\<lambda>m. (True, m)) (set_stride a b s bmp)"
proof (cases "a = b \<and> s = 1")
  case True
  have t: "range_part a (nexttoken (Some (show_nat a @ r)) (CHR ''-''))
      (nexttoken (Some (show_nat a @ r)) COMMA) = Some (a, 1)"
    using not_before_comma [OF assms(1), of "CHR ''-''" "show_nat a"] assms(1)
    by (simp add: range_part_def nexttoken_comma)
  show ?thesis
    by (rule end_of_term_cases [OF assms(1)])
      (use True assms t in \<open>simp_all add: parse_term_def show_term_def sscanf_u_show
          end_of_term_nondigit scan_was_ok_def del: nexttoken_simps append_Nil2\<close>)
next
  case False
  define u where "u = show_nat b @ (if s = 1 then [] else CHR '':'' # show_nat s) @ r"
  have p: "show_term (a, b, s) @ r = show_nat a @ CHR ''-'' # u"
    using False by (auto simp: show_term_def u_def)
  have "sscanf_u (show_nat a @ CHR ''-'' # u) = (2, a, CHR ''-'')"
    using assms by (subst sscanf_u_show) (simp_all add: nondigit_head_def)
  moreover have "nexttoken (Some (show_nat a @ CHR ''-'' # u)) (CHR ''-'') = Some u"
    by (simp add: nexttoken_append)
  moreover have "nexttoken (Some (show_nat a @ CHR ''-'' # u)) COMMA = after_term r"
    using nexttoken_comma [OF comma_not_in_show_term assms(1), of "(a, b, s)"] p by simp
  moreover have "range_part a (Some u) (after_term r) = Some (b, s)"
    unfolding u_def using assms by (intro range_part_show) simp_all
  ultimately show ?thesis using assms(2,3) unfolding p
    by (simp add: parse_term_def scan_was_ok_def)
qed

subsection \<open>Strides\<close>

definition stride_set :: "nat \<Rightarrow> nat \<Rightarrow> nat \<Rightarrow> nat set" where
  "stride_set a b s = {a + k * s | k. a + k * s \<le> b}"

lemma stride_set_step:
  assumes "a \<le> b"
  shows "stride_set a b s = insert a (stride_set (a + s) b s)"
proof -
  have "x \<in> stride_set a b s \<longleftrightarrow> x = a \<or> x \<in> stride_set (a + s) b s" for x
  proof
    assume "x \<in> stride_set a b s"
    then obtain k where k: "x = a + k * s" "x \<le> b" by (auto simp: stride_set_def)
    then show "x = a \<or> x \<in> stride_set (a + s) b s"
      by (cases k) (auto simp: stride_set_def)
  next
    assume "x = a \<or> x \<in> stride_set (a + s) b s"
    then show "x \<in> stride_set a b s"
    proof
      assume "x = a"
      then show ?thesis using assms by (auto simp: stride_set_def intro: exI [of _ 0])
    next
      assume "x \<in> stride_set (a + s) b s"
      then obtain k where "x = a + s + k * s" "x \<le> b" by (auto simp: stride_set_def)
      then have "x = a + Suc k * s" "x \<le> b" by simp_all
      then show ?thesis unfolding stride_set_def by blast
    qed
  qed
  then show ?thesis by blast
qed

lemma stride_set_empty: "b < a \<Longrightarrow> stride_set a b s = {}"
  by (auto simp: stride_set_def)

lemma stride_set_one: "stride_set a b 1 = {a..b}"
proof -
  have "x \<in> stride_set a b 1" if "a \<le> x" "x \<le> b" for x
    using that by (auto simp: stride_set_def intro: exI [of _ "x - a"])
  then show ?thesis by (auto simp: stride_set_def)
qed

lemma set_stride_Some:
  "set_stride a b s bmp = Some m \<Longrightarrow> s = 0 \<longrightarrow> a < 2 ^ 32 \<longrightarrow> \<not> a \<le> b"
  by (erule set_stride.raw_induct [rotated]) (auto split: if_splits simp: u32_id)

lemma set_stride_zero: "a \<le> b \<Longrightarrow> a < 2 ^ 32 \<Longrightarrow> set_stride a b 0 bmp = None"
  using set_stride_Some [of a b 0 bmp] by (cases "set_stride a b 0 bmp") auto

lemma set_stride_bits:
  assumes "0 < s" and "b + s < 2 ^ 32" and "b < bm_size bmp" and "bm_ok bmp"
  shows "\<exists>m. set_stride a b s bmp = Some m \<and> bm_ok m \<and> bm_size m = bm_size bmp \<and>
    bits m = bits bmp \<union> stride_set a b s"
  using assms(3,4)
proof (induction "Suc b - a" arbitrary: a bmp rule: less_induct)
  case less
  show ?case
  proof (cases "a \<le> b")
    case True
    let ?m = "setbit bmp a True"
    have "u32 (int a + int s) = a + s" using True assms(2) u32_id [of "a + s"] by simp
    then have step: "set_stride a b s bmp = set_stride (a + s) b s ?m"
      using True by (subst set_stride.simps) simp
    have m: "bm_ok ?m" "bm_size ?m = bm_size bmp" "bits ?m = insert a (bits bmp)"
      using less.prems True bits_setbit [of bmp a]
      by (simp_all add: bma.ok_put bma.size_put bitmask_setbit_def)
    have "\<exists>m'. set_stride (a + s) b s ?m = Some m' \<and> bm_ok m' \<and> bm_size m' = bm_size ?m \<and>
        bits m' = bits ?m \<union> stride_set (a + s) b s"
      by (rule less.hyps) (use True assms(1) less.prems m in auto)
    then show ?thesis unfolding step using m stride_set_step [OF True] by auto
  next
    case False
    then show ?thesis using less.prems by (subst set_stride.simps) (simp add: stride_set_empty)
  qed
qed

subsection \<open>Reading the list format\<close>

fun show_list :: "(nat \<times> nat \<times> nat) list \<Rightarrow> string" where
  "show_list [] = []"
| "show_list [t] = show_term t"
| "show_list (t # u # ts) = show_term t @ COMMA # show_list (u # ts)"

definition term_fits :: "nat \<Rightarrow> nat \<times> nat \<times> nat \<Rightarrow> bool" where
  "term_fits n t \<longleftrightarrow> (case t of (a, b, s) \<Rightarrow> a \<le> b \<and> b < n \<and> b + s < 2 ^ 32)"

definition terms_set :: "(nat \<times> nat \<times> nat) list \<Rightarrow> nat set" where
  "terms_set ts = (\<Union>(a, b, s) \<in> set ts. stride_set a b s)"

definition stride_of :: "nat \<times> nat \<times> nat \<Rightarrow> nat" where
  "stride_of t = snd (snd t)"

lemma parse_term_fits:
  assumes "end_of_term r" and "term_fits (bm_size bmp) t" and "bm_ok bmp"
  shows "if stride_of t = 0 then parse_term (show_term t @ r) bmp = None
    else \<exists>m. parse_term (show_term t @ r) bmp = Some (True, m) \<and> bm_ok m \<and>
      bm_size m = bm_size bmp \<and> bits m = bits bmp \<union> terms_set [t]"
proof -
  obtain a b s where t: "t = (a, b, s)" by (cases t)
  then have fits: "a \<le> b" "b < bm_size bmp" "b + s < 2 ^ 32" using assms(2) by (auto simp: term_fits_def)
  then have p: "parse_term (show_term t @ r) bmp = map_option (\<lambda>m. (True, m)) (set_stride a b s bmp)"
    unfolding t using assms(1,3) by (intro parse_term_show) (auto simp: bm_ok_def)
  show ?thesis
  proof (cases "s = 0")
    case True
    then show ?thesis using p fits set_stride_zero [of a b bmp] by (simp add: t stride_of_def)
  next
    case False
    then show ?thesis using p fits set_stride_bits [of s b bmp a] assms(3)
      by (auto simp: t stride_of_def terms_set_def)
  qed
qed

lemma parse_terms_show:
  assumes "ts \<noteq> []" and "\<forall>t \<in> set ts. term_fits (bm_size bmp) t" and "bm_ok bmp"
  shows "if \<exists>t \<in> set ts. stride_of t = 0 then parse_terms (Some (show_list ts)) bmp = None
    else \<exists>m. parse_terms (Some (show_list ts)) bmp = Some (True, m) \<and> bm_ok m \<and>
      bm_size m = bm_size bmp \<and> bits m = bits bmp \<union> terms_set ts"
  using assms
proof (induction ts arbitrary: bmp rule: show_list.induct)
  case (2 t)
  have n: "nexttoken (Some (show_term t)) COMMA = None"
    by (rule nexttoken_none [OF comma_not_in_show_term])
  show ?case using parse_term_fits [of "[]" bmp t] 2 by (auto simp: end_of_term_def n)
next
  case (3 t u ts)
  let ?r = "COMMA # show_list (u # ts)"
  have n: "nexttoken (Some (show_term t @ ?r)) COMMA = Some (show_list (u # ts))"
    by (simp add: nexttoken_append comma_not_in_show_term)
  have first: "if stride_of t = 0 then parse_term (show_term t @ ?r) bmp = None
    else \<exists>m. parse_term (show_term t @ ?r) bmp = Some (True, m) \<and> bm_ok m \<and>
      bm_size m = bm_size bmp \<and> bits m = bits bmp \<union> terms_set [t]"
    using 3 by (intro parse_term_fits) (simp_all add: end_of_term_def)
  show ?case
  proof (cases "stride_of t = 0")
    case True
    then show ?thesis using first by simp
  next
    case False
    then obtain m where m: "parse_term (show_term t @ ?r) bmp = Some (True, m)" "bm_ok m"
      "bm_size m = bm_size bmp" "bits m = bits bmp \<union> terms_set [t]" using first by auto
    have "terms_set (t # u # ts) = terms_set [t] \<union> terms_set (u # ts)" by (simp add: terms_set_def)
    with 3(1) [of m] 3(3) m n False show ?thesis by (auto simp: Un_assoc split: if_splits)
  qed
qed simp

lemma parselist_show:
  assumes "ts \<noteq> []" and "\<forall>t \<in> set ts. term_fits (bm_size bmp) t" and "bm_ok bmp"
  shows "if \<exists>t \<in> set ts. stride_of t = 0 then bitmask_parselist (show_list ts) bmp = None
    else \<exists>m. bitmask_parselist (show_list ts) bmp = Some (0, m) \<and> bm_ok m \<and>
      bm_size m = bm_size bmp \<and> bits m = terms_set ts"
proof -
  note c = clearall_laws [OF assms(3)]
  then show ?thesis using parse_terms_show [OF assms(1), of "bitmask_clearall bmp"] assms(2)
    by (cases "\<exists>t \<in> set ts. stride_of t = 0")
      (auto simp: bitmask_parselist_def simp del: parse_terms.simps)
qed



subsection \<open>Printing the list format\<close>

text \<open>The state of the printing loops after the text \<open>T\<close>: the buffer holds what fits.\<close>

definition printed :: "int \<Rightarrow> string \<Rightarrow> nat \<times> string" where
  "printed buflen T = (length T, take (nat buflen - 1) T)"

lemma snprintf_at_printed:
  assumes "0 < buflen"
  shows "snprintf_at buflen s (printed buflen T) = printed buflen (T @ s)"
proof (cases "int (length T) < buflen")
  case True
  then have "nat (buflen - int (length T)) - 1 = nat buflen - 1 - length T"
    "length T \<le> nat buflen - 1" "nat (buflen - int (length T)) \<noteq> 0"
    by linarith+
  with True show ?thesis by (simp add: snprintf_at_def printed_def)
next
  case False
  then have "nat buflen - 1 \<le> length T" by linarith
  with False show ?thesis by (simp add: snprintf_at_def printed_def)
qed

lemma show_list_snoc:
  "show_list (ts @ [t]) = show_list ts @ (if ts = [] then [] else [COMMA]) @ show_term t"
  by (induction ts rule: show_list.induct) simp_all

lemma show_term_nonempty: "show_term t \<noteq> []"
  by (cases t) (simp add: show_term_def)

lemma show_list_empty_iff: "show_list ts = [] \<longleftrightarrow> ts = []"
  by (cases ts rule: show_list.cases) (simp_all add: show_term_nonempty)

lemma show_int_wrap32: "n < 2 ^ 31 \<Longrightarrow> show_int (wrap32 (int n)) = show_nat n"
  by (subst wrap32_id) (simp_all add: int_limits show_int_def)

lemma emit_printed:
  assumes "0 < buflen" and "lo < 2 ^ 31" and "hi < 2 ^ 31"
  shows "emit buflen (wrap32 (int lo)) (wrap32 (int hi)) (printed buflen (show_list ts)) =
    printed buflen (show_list (ts @ [(lo, hi, 1)]))"
proof -
  have eq: "wrap32 (int lo) = wrap32 (int hi) \<longleftrightarrow> lo = hi"
    using assms(2,3) by (simp add: wrap32_id int_limits)
  have "0 < fst (printed buflen (show_list ts)) \<longleftrightarrow> ts \<noteq> []"
    by (simp add: printed_def show_list_empty_iff)
  then show ?thesis
    by (simp add: emit_def eq snprintf_at_printed [OF assms(1)] show_list_snoc show_term_def
        show_int_wrap32 [OF assms(2)] show_int_wrap32 [OF assms(3)])
qed

text \<open>The ranges that the printing loop finds from bit \<open>cur\<close> on, in a range that began at
  \<open>rbot\<close>.\<close>

function runs :: "bitmask \<Rightarrow> nat \<Rightarrow> nat \<Rightarrow> (nat \<times> nat \<times> nat) list" where
  "runs b cur rbot =
     (if cur < bm_size b
      then let cur' = bitmask_next b (cur + 1)
           in if cur' \<ge> bm_size b \<or> cur' > cur + 1 then (rbot, cur, 1) # runs b cur' cur'
              else runs b cur' rbot
      else [])"
  by pat_completeness auto
termination
proof (relation "measure (\<lambda>(b, cur, _). bm_size b - cur)", simp, goal_cases)
  case (1 b cur rbot cur')
  then show ?case using bitmask_next_ge [of "cur + 1" b] by simp
next
  case (2 b cur rbot cur')
  then show ?case using bitmask_next_ge [of "cur + 1" b] by auto
qed

declare runs.simps [simp del]

lemma display_loop_runs:
  assumes "0 < buflen" and "bm_size b \<le> 2 ^ 31" and "cur < bm_size b \<longrightarrow> rbot \<le> cur"
  shows "display_loop b buflen cur rbot (printed buflen (show_list ts)) =
    printed buflen (show_list (ts @ runs b cur rbot))"
  using assms(2,3)
proof (induction b cur rbot arbitrary: ts rule: runs.induct)
  case (1 b cur rbot)
  let ?c = "bitmask_next b (cur + 1)"
  have c: "cur + 1 \<le> ?c" by (rule bitmask_next_ge)
  show ?case
  proof (cases "cur < bm_size b")
    case True
    then have bounds: "cur < 2 ^ 31" "rbot < 2 ^ 31" using "1.prems" by auto
    show ?thesis
    proof (cases "?c \<ge> bm_size b \<or> ?c > cur + 1")
      case new: True
      have "display_loop b buflen cur rbot (printed buflen (show_list ts)) =
          display_loop b buflen ?c ?c (printed buflen (show_list (ts @ [(rbot, cur, 1)])))"
        using True new by (subst display_loop.simps)
          (simp only: if_True Let_def emit_printed [OF assms(1) bounds(2,1)])
      also have "\<dots> = printed buflen (show_list ((ts @ [(rbot, cur, 1)]) @ runs b ?c ?c))"
        by (rule 1(1) [OF True refl new]) (use "1.prems" in simp_all)
      finally show ?thesis using True new by (subst runs.simps) (simp add: Let_def)
    next
      case old: False
      have "display_loop b buflen cur rbot (printed buflen (show_list ts)) =
          display_loop b buflen ?c rbot (printed buflen (show_list ts))"
        using True old by (subst display_loop.simps) (simp only: if_True if_False Let_def)
      also have "\<dots> = printed buflen (show_list (ts @ runs b ?c rbot))"
        by (rule 1(2) [OF True refl old]) (use "1.prems" True c in simp_all)
      finally show ?thesis using True old by (subst runs.simps) (simp add: Let_def)
    qed
  next
    case False
    then show ?thesis by (subst display_loop.simps, subst runs.simps) simp
  qed
qed

lemma bitmask_next_skips: "n \<le> i \<Longrightarrow> i < bitmask_next b n \<Longrightarrow> \<not> getbit b i"
proof (induction b n rule: bitmask_next.induct)
  case (1 b n)
  then show ?case
    by (subst (asm) (2) bitmask_next.simps)
      (cases "i = n"; auto split: if_splits simp: Suc_le_eq)
qed

lemma bitmask_next_hit: "bitmask_next b n < bm_size b \<Longrightarrow> getbit b (bitmask_next b n)"
proof (induction b n rule: bitmask_next.induct)
  case (1 b n)
  then show ?case by (subst (asm) (2) bitmask_next.simps, subst bitmask_next.simps)
      (auto split: if_splits)
qed

definition run_fits :: "nat \<Rightarrow> nat \<times> nat \<times> nat \<Rightarrow> bool" where
  "run_fits n t \<longleftrightarrow> term_fits n t \<and> stride_of t \<noteq> 0"

lemma runs_fit:
  assumes "cur < bm_size b \<longrightarrow> rbot \<le> cur" and "bm_size b \<le> 2 ^ 31"
  shows "list_all (run_fits (bm_size b)) (runs b cur rbot)"
  using assms
proof (induction b cur rbot rule: runs.induct)
  case (1 b cur rbot)
  let ?c = "bitmask_next b (cur + 1)"
  have c: "cur + 1 \<le> ?c" by (rule bitmask_next_ge)
  have new: "cur < bm_size b \<Longrightarrow> run_fits (bm_size b) (rbot, cur, 1)"
    using "1.prems" by (simp add: run_fits_def term_fits_def stride_of_def)
  show ?case
    using 1(1) [OF _ refl] 1(2) [OF _ refl] "1.prems" c new
    by (subst runs.simps) (auto simp: Let_def)
qed

lemma runs_bits:
  assumes "cur < bm_size b \<longrightarrow> rbot \<le> cur \<and> {rbot..cur} \<subseteq> bits b"
  shows "terms_set (runs b cur rbot) = (if cur < bm_size b then bits b \<inter> {rbot..} else {})"
  using assms
proof (induction b cur rbot rule: runs.induct)
  case (1 b cur rbot)
  let ?c = "bitmask_next b (cur + 1)"
  have c: "cur + 1 \<le> ?c" by (rule bitmask_next_ge)
  show ?case
  proof (cases "cur < bm_size b")
    case True
    have rb: "rbot \<le> cur" "{rbot..cur} \<subseteq> bits b" using "1.prems" True by simp_all
    have skip: "i \<notin> bits b" if "cur < i" "i < ?c" for i
      using bitmask_next_skips [of "cur + 1" i b] that by simp
    have hit: "?c \<in> bits b" if "?c < bm_size b" using bitmask_next_hit [OF that] by simp
    show ?thesis
    proof (cases "?c \<ge> bm_size b \<or> ?c > cur + 1")
      case new: True
      have IH: "terms_set (runs b ?c ?c) = (if ?c < bm_size b then bits b \<inter> {?c..} else {})"
        by (rule 1(1) [OF True refl new]) (use hit in simp)
      have "bits b \<inter> {rbot..} = {rbot..cur} \<union> (if ?c < bm_size b then bits b \<inter> {?c..} else {})"
        using rb skip bits_bound [of _ b] c by (auto simp del: mem_bits) (meson linorder_not_less order.strict_trans2)+
      then show ?thesis using True new IH
        by (subst runs.simps) (simp add: Let_def terms_set_def stride_set_one [simplified])
    next
      case old: False
      have "terms_set (runs b ?c rbot) = (if ?c < bm_size b then bits b \<inter> {rbot..} else {})"
        by (rule 1(2) [OF True refl old]) (use rb hit c old in \<open>auto simp: le_Suc_eq\<close>)
      then show ?thesis using True old by (subst runs.simps) (simp add: Let_def)
    qed
  next
    case False
    then show ?thesis by (subst runs.simps) (simp add: terms_set_def)
  qed
qed

text \<open>
  C8: A mask printed by \<open>bitmask_displaylist\<close> into a buffer that is large enough is read back by
  \<open>bitmask_parselist\<close> as the same set of bits.  The text of the empty mask is the exception: it is
  the empty string, which is reported as an error, with the mask cleared.
\<close>

theorem displaylist_parselist:
  assumes "bm_ok b" and "bm_size b \<le> 2 ^ 31" and "bm_ok c" and "bm_size c = bm_size b"
    and "int (fst (bitmask_displaylist buf buflen b)) < buflen"
  shows "\<exists>m. bitmask_parselist (snd (bitmask_displaylist buf buflen b)) c =
      Some (if bits b = {} then -1 else 0, m) \<and> bits m = bits b"
proof -
  let ?ts = "runs b (bitmask_first b) (bitmask_first b)"
  have pos: "0 < buflen" using assms(5) by linarith
  have d: "bitmask_displaylist buf buflen b = printed buflen (show_list ?ts)"
    using pos display_loop_runs [OF pos assms(2), of "bitmask_first b" "bitmask_first b" "[]"]
    by (simp add: bitmask_displaylist_def Let_def printed_def)
  then have shown: "snd (bitmask_displaylist buf buflen b) = show_list ?ts"
    using assms(5) by (simp add: printed_def)
  have above: "bitmask_first b \<le> i \<and> i < bm_size b" if "getbit b i" for i
    using that bitmask_next_skips [of 0 i b] bma.get_bound [OF that]
    by (auto simp: bitmask_first_def not_le [symmetric])
  have "terms_set ?ts = (if bitmask_first b < bm_size b then bits b \<inter> {bitmask_first b..} else {})"
    using bitmask_next_hit [of b 0] by (intro runs_bits) (auto simp: bitmask_first_def)
  also have "\<dots> = bits b"
    by (auto dest!: above)
  finally have all_bits: "terms_set ?ts = bits b" .
  show ?thesis
  proof (cases "?ts = []")
    case True
    have "parse_term [] (bitmask_clearall c) = Some (False, bitmask_clearall c)"
      by (simp add: parse_term_def sscanf_u_def scan_was_ok_def)
    moreover have "bits b = {}" using all_bits True by (simp add: terms_set_def)
    ultimately show ?thesis
      using clearall_laws [OF assms(3)] clearall_laws [of "bitmask_clearall c"] True shown
      by (simp add: bitmask_parselist_def)
  next
    case False
    have "list_all (run_fits (bm_size b)) ?ts"
      by (rule runs_fit) (use assms(2) in simp_all)
    then have "\<forall>t \<in> set ?ts. term_fits (bm_size c) t" "\<not> (\<exists>t \<in> set ?ts. stride_of t = 0)"
      unfolding assms(4) by (simp_all only: list_all_iff run_fits_def [abs_def]) blast+
    then obtain m where "bitmask_parselist (show_list ?ts) c = Some (0, m)" "bits m = terms_set ?ts"
      using parselist_show [OF False _ assms(3)] by (simp only: if_False) blast
    moreover have "bits b \<noteq> {}"
      using False bitmask_next_hit [of b 0]
      by (subst (asm) runs.simps) (auto simp: bitmask_first_def split: if_splits)
    ultimately show ?thesis using all_bits shown by simp
  qed
qed

theorem displaylist_parselist_witness:
  "\<exists>m. bitmask_parselist (snd (bitmask_displaylist [] 80 (ex_mask 0b10110))) (ex_mask 0) =
      Some (if bits (ex_mask 0b10110) = {} then -1 else 0, m) \<and> bits m = bits (ex_mask 0b10110)"
proof (rule displaylist_parselist [OF ex_mask_ok _ ex_mask_ok])
  have "bitmask_displaylist [] 80 (ex_mask 0b10110) = (5, ''1-2,4'')"
    by code_simp
  then show "int (fst (bitmask_displaylist [] 80 (ex_mask 0b10110))) < 80" by simp
qed (simp_all add: ex_mask_def)

subsection \<open>The hexadecimal format\<close>

lemma hex_val_hex_digit: "d < 16 \<Longrightarrow> hex_val (hex_digit d) = Some d"
  by (auto simp: hex_val_def hex_digit_def Let_def)

lemma length_hex_fixed [simp]: "length (hex_fixed k v) = k"
  by (induction k arbitrary: v) simp_all

lemma hex_fixed_hex: "\<forall>c \<in> set (hex_fixed k v). is_hex c"
  by (induction k arbitrary: v) (auto simp: is_hex_def hex_val_hex_digit)

lemma hex_num_fixed: "hex_num (hex_fixed k v) = v mod 16 ^ k"
proof (induction k arbitrary: v)
  case (Suc k)
  have "hex_num (hex_fixed (Suc k) v) = 16 * (v div 16 mod 16 ^ k) + v mod 16"
    using Suc [of "v div 16"] by (simp add: hex_num_def hex_val_hex_digit)
  then show ?case using mod_mult2_eq [of v 16 "16 ^ k"] by simp
qed (simp add: hex_num_def)

lemma hex_not_blank:
  assumes "is_hex c"
  shows "\<not> is_space c \<and> c \<noteq> CHR ''-'' \<and> c \<noteq> CHR ''+'' \<and> c \<noteq> CHR ''x'' \<and> c \<noteq> CHR ''X'' \<and> c \<noteq> COMMA"
  using assms by (auto simp: is_hex_def hex_val_def Let_def is_space_def)

lemma takeWhile_hex:
  assumes "\<forall>c \<in> set h. is_hex c" and "end_of_term r"
  shows "takeWhile is_hex (h @ r) = h \<and> dropWhile is_hex (h @ r) = r"
proof -
  have "takeWhile is_hex r = [] \<and> dropWhile is_hex r = r"
    using assms(2) by (rule end_of_term_cases) (auto simp: is_hex_def hex_val_def)
  with assms(1) show ?thesis by (induction h) auto
qed

lemma strtoul16_hex:
  assumes "\<forall>c \<in> set h. is_hex c" and "length h = 8" and "end_of_term r" and "hex_num h < 2 ^ 32"
  shows "strtoul16 (h @ r) = (int (hex_num h), r)"
proof -
  obtain c d h' where h: "h = c # d # h'" using assms(2) by (cases h; cases "tl h") auto
  have "is_hex c" "is_hex d" using assms(1) h by auto
  then have "read_sign (dropWhile is_space (h @ r)) = (False, h @ r)" "skip_0x (h @ r) = h @ r"
    using hex_not_blank [of c] hex_not_blank [of d]
    by (auto simp: h read_sign_def skip_0x_def split: list.split)
  then show ?thesis using takeWhile_hex [OF assms(1,3)] assms(4) h
    by (simp add: strtoul16_def Let_def int_limits)
qed

lemma fold_shift_bits:
  fixes v :: "32 word"
  assumes "k < 32"
  shows "bit (fold (\<lambda>j v. push_bit 1 v OR of_bool (P j)) (rev [0..<n]) v) k =
    (if k < n then P k else bit v (k - n))"
proof (induction n arbitrary: v)
  case (Suc n)
  let ?v = "push_bit 1 v OR of_bool (P n) :: 32 word"
  have step: "bit ?v j = (if j = 0 then P n else bit v (j - 1))" if "j < 32" for j
    using that by (auto simp only: bit_or_iff bit_push_bit_iff possible_bit_word bit_of_bool_iff)
      (auto split: if_splits)
  have "fold (\<lambda>j v. push_bit 1 v OR of_bool (P j)) (rev [0..<Suc n]) v =
      fold (\<lambda>j v. push_bit 1 v OR of_bool (P j)) (rev [0..<n]) ?v"
    by (simp only: upt_Suc_append rev_append rev.simps append.simps le0 fold_simps)
  then show ?case using Suc [of ?v] step [of "k - n"] assms
    by (simp only:) (auto simp: less_Suc_eq)
qed simp

lemma bit_chunk_val: "k < 32 \<Longrightarrow> bit (chunk_val b ch) k = getbit b (ch * 32 + k)"
  using fold_shift_bits [of k "\<lambda>j. getbit b (ch * HEXCHUNKSZ + j)" 32 0]
  by (simp add: chunk_val_def HEXCHUNKSZ_def)

text \<open>The text of \<open>n\<close> chunks with the values \<open>f\<close>, the highest chunk first.\<close>

definition hex_word :: "32 word \<Rightarrow> string" where
  "hex_word w = hex_fixed HEXCHARSZ (unat w)"

fun hex_list :: "(nat \<Rightarrow> 32 word) \<Rightarrow> nat \<Rightarrow> string" where
  "hex_list f 0 = []"
| "hex_list f (Suc 0) = hex_word (f 0)"
| "hex_list f (Suc (Suc n)) = hex_word (f (Suc n)) @ COMMA # hex_list f (Suc n)"

lemma hex_word_laws:
  "\<forall>c \<in> set (hex_word w). is_hex c" "length (hex_word w) = 8" "hex_num (hex_word w) = unat w"
  "COMMA \<notin> set (hex_word w)"
proof -
  show h: "\<forall>c \<in> set (hex_word w). is_hex c" by (simp add: hex_word_def hex_fixed_hex)
  show "length (hex_word w) = 8" by (simp add: hex_word_def HEXCHARSZ_def)
  have "unat w < 2 ^ 32" by (rule order.strict_trans2 [OF unsigned_less]) simp
  then show "hex_num (hex_word w) = unat w" by (simp add: hex_word_def hex_num_fixed HEXCHARSZ_def)
  show "COMMA \<notin> set (hex_word w)" using h hex_not_blank by blast
qed

lemma displayhex_fold:
  assumes "0 < buflen"
  shows "fold (hex_chunk b buflen) (rev [0..<n]) (printed buflen T, sep) =
    (printed buflen (T @ (if n = 0 then [] else sep @ hex_list (chunk_val b) n)),
     if n = 0 then sep else '','')"
proof (induction n arbitrary: T sep)
  case (Suc n)
  have "hex_chunk b buflen n (printed buflen T, sep) =
      (printed buflen (T @ sep @ hex_word (chunk_val b n)), '','')"
    by (simp add: hex_chunk_def snprintf_at_printed [OF assms] hex_word_def)
  then show ?case using Suc by (cases n) simp_all
qed simp

lemma set_chunk_all:
  assumes "\<forall>k \<in> set ks. ch * 32 + k < nbits" and "nbits \<le> 2 ^ 32" and "bm_ok b"
  shows "\<exists>m. set_chunk nbits ch w ks b = (True, m) \<and> bm_ok m \<and> bm_size m = bm_size b \<and>
    (\<forall>i. getbit m i = (if i < bm_size b \<and> ch * 32 \<le> i \<and> i - ch * 32 \<in> set ks
       then bit w (i - ch * 32) else getbit b i))"
  using assms(1,3)
proof (induction ks arbitrary: b)
  case (Cons k ks)
  let ?n = "ch * 32 + k"
  let ?b = "setbit b ?n (drop_bit k w AND 1 = 1)"
  have n: "u32 (int (ch * HEXCHUNKSZ + k)) = ?n" "?n < nbits"
    using Cons.prems(1) assms(2) u32_id [of ?n] by (simp_all add: HEXCHUNKSZ_def)
  have "bm_ok ?b" "bm_size ?b = bm_size b" using Cons.prems(2) by (simp_all add: bma.ok_put bma.size_put)
  moreover have "getbit ?b i = (if i = ?n \<and> i < bm_size b then bit w k else getbit b i)" for i
    using Cons.prems(2) by (simp add: bma.get_put bit_iff_and_drop_bit_eq_1)
  moreover have "set_chunk nbits ch w (k # ks) b = set_chunk nbits ch w ks ?b"
    using n by (simp add: Let_def)
  ultimately show ?case using Cons.IH [of ?b] Cons.prems(1) by fastforce
qed simp

lemma parse_chunk_word:
  assumes "end_of_term r" and "ch * 32 + 31 < nbits" and "nbits \<le> 2 ^ 32" and "bm_ok b"
  shows "\<exists>m. parse_chunk nbits ch (hex_word w @ r) b = (True, m) \<and> bm_ok m \<and> bm_size m = bm_size b \<and>
    (\<forall>i. getbit m i = (if i < bm_size b \<and> i div 32 = ch then bit w (i mod 32) else getbit b i))"
proof -
  have v: "strtoul16 (hex_word w @ r) = (int (unat w), r)"
    using strtoul16_hex [of "hex_word w" r, OF hex_word_laws(1,2) assms(1)] hex_word_laws(3) [of w]
      order.strict_trans2 [OF unsigned_less, of "2 ^ 32" w] by simp
  have q: "nexttoken (Some (hex_word w @ r)) COMMA = after_term r"
    by (rule nexttoken_comma [OF hex_word_laws(4) assms(1)])
  have "after_term r \<noteq> None \<Longrightarrow> int (length r) - int (length (the (after_term r))) = 1"
    using assms(1) by (cases r) (auto simp: after_term_def)
  then have p: "parse_chunk nbits ch (hex_word w @ r) b = set_chunk nbits ch w (rev [0..<32]) b"
    by (auto simp: parse_chunk_def v q hex_word_laws(2) HEXCHARSZ_def HEXCHUNKSZ_def Let_def)
  have "i div 32 = ch \<longleftrightarrow> ch * 32 \<le> i \<and> i - ch * 32 < 32" for i
    using div_mult_mod_eq [of i 32] mod_less_divisor [of 32 i] by (cases "i div 32 = ch") linarith+
  moreover have "i div 32 = ch \<Longrightarrow> i mod 32 = i - ch * 32" for i
    using div_mult_mod_eq [of i 32] by simp
  ultimately have "(if i < bm_size b \<and> ch * 32 \<le> i \<and> i - ch * 32 \<in> set (rev [0..<32])
        then bit w (i - ch * 32) else getbit b i) =
      (if i < bm_size b \<and> i div 32 = ch then bit w (i mod 32) else getbit b i)" for i
    by (cases "i div 32 = ch") auto
  then show ?thesis unfolding p
    using set_chunk_all [of "rev [0..<32]" ch nbits b w] assms(2-4) by simp
qed

lemma parse_chunks_list:
  assumes "Suc n * 32 \<le> nbits" and "nbits \<le> 2 ^ 32" and "bm_ok b"
  shows "\<exists>m. parse_chunks nbits (Suc n) (Some (hex_list f (Suc n))) b = (True, m) \<and>
    bm_ok m \<and> bm_size m = bm_size b \<and>
    (\<forall>i. getbit m i = (if i < bm_size b \<and> i div 32 \<le> n then bit (f (i div 32)) (i mod 32) else getbit b i))"
  using assms(1,3)
proof (induction n arbitrary: b)
  case 0
  have "nexttoken (Some (hex_word (f 0))) COMMA = None" by (rule nexttoken_none [OF hex_word_laws(4)])
  then show ?case using parse_chunk_word [of "[]" 0 nbits b "f 0"] 0 assms(2)
    by (auto simp: end_of_term_def)
next
  case (Suc n)
  let ?r = "COMMA # hex_list f (Suc n)"
  obtain m where m: "parse_chunk nbits (Suc n) (hex_word (f (Suc n)) @ ?r) b = (True, m)" "bm_ok m"
    "bm_size m = bm_size b"
    "\<forall>i. getbit m i = (if i < bm_size b \<and> i div 32 = Suc n then bit (f (Suc n)) (i mod 32) else getbit b i)"
    using parse_chunk_word [of ?r "Suc n" nbits b "f (Suc n)"] Suc.prems assms(2)
    by (auto simp: end_of_term_def)
  have "nexttoken (Some (hex_word (f (Suc n)) @ ?r)) COMMA = Some (hex_list f (Suc n))"
    by (simp add: nexttoken_append hex_word_laws(4))
  then have "parse_chunks nbits (Suc (Suc n)) (Some (hex_list f (Suc (Suc n)))) b =
      parse_chunks nbits (Suc n) (Some (hex_list f (Suc n))) m"
    using m(1) by simp
  then show ?case using Suc.IH [of m] Suc.prems m(2-4) by (auto simp: le_Suc_eq)
qed

lemma count_chunks_list: "count_chunks (Some (hex_list f (Suc n))) = Suc n"
proof (induction n)
  case 0
  then show ?case by (simp add: nexttoken_none hex_word_laws(4))
next
  case (Suc n)
  then show ?case by (simp add: nexttoken_append hex_word_laws(4) del: count_chunks.simps)
      (simp add: nexttoken_append hex_word_laws(4))
qed



end
