(* ===== verification/Tst_Flags.thy ===== *)
theory Tst_Flags
  imports Ltp_Prelude
begin

section \<open>Result types\<close>

text \<open>
  The result types of \<open>include/tst_res_flags.h\<close>, their names and their colours
  (\<open>lib/tst_ansi_color.c\<close>).  The low six bits of a type are the result, the bits above ask for
  error numbers to be printed.
\<close>

unbundle bit_operations_syntax

definition TTYPE_MASK :: int where "TTYPE_MASK = 0x3f"
definition TPASS :: int where "TPASS = 0"
definition TFAIL :: int where "TFAIL = 1"
definition TBROK :: int where "TBROK = 2"
definition TWARN :: int where "TWARN = 4"
definition TINFO :: int where "TINFO = 16"
definition TCONF :: int where "TCONF = 32"
definition TERRNO :: int where "TERRNO = 0x100"
definition TTERRNO :: int where "TTERRNO = 0x200"
definition TRERRNO :: int where "TRERRNO = 0x400"

lemmas ttype_defs = TTYPE_MASK_def TPASS_def TFAIL_def TBROK_def TWARN_def TINFO_def TCONF_def
  TERRNO_def TTERRNO_def TRERRNO_def

definition TTYPE_RESULT :: "int \<Rightarrow> int" where
  "TTYPE_RESULT ttype = ttype AND TTYPE_MASK"

text \<open>The table is indexed by the result; the gaps have no name.\<close>

definition strttype :: "int \<Rightarrow> string" where
  "strttype ttype =
     (let idx = TTYPE_RESULT ttype
      in if idx = TPASS then ''TPASS'' else if idx = TFAIL then ''TFAIL''
         else if idx = TBROK then ''TBROK'' else if idx = TCONF then ''TCONF''
         else if idx = TWARN then ''TWARN'' else if idx = TINFO then ''TINFO'' else ''???'')"

definition ansi :: "string \<Rightarrow> string" where
  "ansi code = CHR 0x1B # ''['' @ code @ ''m''"

definition tst_ttype2color :: "int \<Rightarrow> string" where
  "tst_ttype2color ttype =
     (let r = TTYPE_RESULT ttype
      in if r = TPASS then ansi ''1;32'' else if r = TFAIL then ansi ''1;31''
         else if r = TBROK then ansi ''1;31'' else if r = TCONF then ansi ''1;33''
         else if r = TWARN then ansi ''1;35'' else if r = TINFO then ansi ''1;34'' else [])"

text \<open>\<open>color\<close> is 0 until the first call has decided; the result of the call is \<open>color - 1\<close>.\<close>

definition tst_color_enabled :: "string option \<Rightarrow> bool \<Rightarrow> int \<Rightarrow> int \<times> int" where
  "tst_color_enabled env tty color =
     (if color \<noteq> 0 then (color - 1, color)
      else case env of
        Some e \<Rightarrow>
          let c1 = (if e = ''n'' \<or> e = ''0'' then 1 else color);
              c2 = (if e = ''y'' \<or> e = ''1'' then 2 else c1)
          in (c2 - 1, c2)
      | None \<Rightarrow> if \<not> tty then (0, 1) else (1, 2))"

text \<open>An environment value other than n, 0, y and 1 gives -1, which counts as true.\<close>

lemma color_unknown_value:
  "e \<notin> {''n'', ''0'', ''y'', ''1''} \<Longrightarrow> tst_color_enabled (Some e) tty 0 = (-1, 0)"
  by (simp add: tst_color_enabled_def)

text \<open>\<open>tst_brk\<close> of the test library ends the test process with the result as exit status.\<close>

definition tst_brk_exit :: "int \<Rightarrow> 'a outcome" where
  "tst_brk_exit ttype = Exits (TTYPE_RESULT ttype)"

lemma tst_brk_exit_simps [simp]:
  "tst_brk_exit TBROK = Exits TBROK" "tst_brk_exit (TBROK OR TERRNO) = Exits TBROK"
  "tst_brk_exit TCONF = Exits TCONF" "tst_brk_exit (TCONF OR TERRNO) = Exits TCONF"
  by (simp_all add: tst_brk_exit_def TTYPE_RESULT_def ttype_defs)

end
