(* ===== verification/Tst_Timer.thy ===== *)
theory Tst_Timer
  imports Tst_Flags
begin

section \<open>Time values, the test timer and the wall clock\<close>

text \<open>
  \<open>include/tst_timer.h\<close>, \<open>lib/tst_timer.c\<close> and \<open>lib/tst_wallclock.c\<close>.  Seconds, nanoseconds and
  the converted values are 64-bit signed numbers; a result outside their range is undefined
  behaviour.  Division truncates towards zero.  What \<open>clock_gettime\<close> and \<open>clock_settime\<close> answer
  is an argument of the operations that call them.
\<close>

unbundle bit_operations_syntax

record timespec =
  tv_sec :: int
  tv_nsec :: int

record timeval =
  tval_sec :: int
  tv_usec :: int

text \<open>\<open>a * k + b\<close>, with the product formed first.\<close>

definition scale_add :: "int \<Rightarrow> int \<Rightarrow> int \<Rightarrow> int outcome" where
  "scale_add a k b = bind_outcome (long_of (a * k)) (\<lambda>p. long_of (p + b))"

subsection \<open>Conversions\<close>

definition tst_timespec_to_ns :: "timespec \<Rightarrow> int outcome" where
  "tst_timespec_to_ns t = scale_add (tv_sec t) 1000000000 (tv_nsec t)"

definition tst_timespec_to_us :: "timespec \<Rightarrow> int outcome" where
  "tst_timespec_to_us t =
     bind_outcome (long_of (tv_nsec t + 500)) (\<lambda>n. scale_add (tv_sec t) 1000000 (tdiv n 1000))"

definition tst_timespec_to_ms :: "timespec \<Rightarrow> int outcome" where
  "tst_timespec_to_ms t =
     bind_outcome (long_of (tv_nsec t + 500000)) (\<lambda>n. scale_add (tv_sec t) 1000 (tdiv n 1000000))"

definition tst_timeval_to_us :: "timeval \<Rightarrow> int outcome" where
  "tst_timeval_to_us t = scale_add (tval_sec t) 1000000 (tv_usec t)"

definition tst_timeval_to_ms :: "timeval \<Rightarrow> int outcome" where
  "tst_timeval_to_ms t =
     bind_outcome (long_of (tv_usec t + 500)) (\<lambda>n. scale_add (tval_sec t) 1000 (tdiv n 1000))"

definition tst_ms_to_timeval :: "int \<Rightarrow> timeval" where
  "tst_ms_to_timeval ms = \<lparr>tval_sec = tdiv ms 1000, tv_usec = tmod ms 1000 * 1000\<rparr>"

definition tst_us_to_timeval :: "int \<Rightarrow> timeval" where
  "tst_us_to_timeval us = \<lparr>tval_sec = tdiv us 1000000, tv_usec = tmod us 1000000\<rparr>"

definition tst_ms_to_timespec :: "int \<Rightarrow> timespec" where
  "tst_ms_to_timespec ms = \<lparr>tv_sec = tdiv ms 1000, tv_nsec = tmod ms 1000 * 1000000\<rparr>"

definition tst_us_to_timespec :: "int \<Rightarrow> timespec" where
  "tst_us_to_timespec us = \<lparr>tv_sec = tdiv us 1000000, tv_nsec = tmod us 1000000 * 1000\<rparr>"

subsection \<open>Comparison, sums and differences\<close>

definition tst_timespec_lt :: "timespec \<Rightarrow> timespec \<Rightarrow> bool" where
  "tst_timespec_lt t1 t2 =
     (if tv_sec t1 = tv_sec t2 then tv_nsec t1 < tv_nsec t2 else tv_sec t1 < tv_sec t2)"

text \<open>The carry that the sums share: \<open>if (tv_nsec >= 1000000000) \<dots>\<close>.\<close>

definition carry :: "int \<Rightarrow> int \<Rightarrow> timespec outcome" where
  "carry s n =
     (if n \<ge> 1000000000
      then bind_outcome (long_of (s + 1)) (\<lambda>s. Ret \<lparr>tv_sec = s, tv_nsec = n - 1000000000\<rparr>)
      else Ret \<lparr>tv_sec = s, tv_nsec = n\<rparr>)"

definition tst_timespec_add_us :: "timespec \<Rightarrow> int \<Rightarrow> timespec outcome" where
  "tst_timespec_add_us t us =
     bind_outcome (long_of (tv_sec t + tdiv us 1000000)) (\<lambda>s.
     bind_outcome (long_of (tv_nsec t + tmod us 1000000 * 1000)) (\<lambda>n. carry s n))"

definition tst_timespec_add :: "timespec \<Rightarrow> timespec \<Rightarrow> timespec outcome" where
  "tst_timespec_add t1 t2 =
     bind_outcome (long_of (tv_sec t1 + tv_sec t2)) (\<lambda>s.
     bind_outcome (long_of (tv_nsec t1 + tv_nsec t2)) (\<lambda>n. carry s n))"

definition tst_timespec_sub_us :: "timespec \<Rightarrow> int \<Rightarrow> timespec outcome" where
  "tst_timespec_sub_us t us =
     bind_outcome (long_of (tv_sec t - tdiv us 1000000)) (\<lambda>s.
     bind_outcome (long_of (tv_nsec t - tmod us 1000000 * 1000)) (\<lambda>n.
       if n < 0 then bind_outcome (long_of (s - 1)) (\<lambda>s. Ret \<lparr>tv_sec = s, tv_nsec = n + 1000000000\<rparr>)
       else Ret \<lparr>tv_sec = s, tv_nsec = n\<rparr>))"

definition tst_timespec_diff :: "timespec \<Rightarrow> timespec \<Rightarrow> timespec outcome" where
  "tst_timespec_diff t1 t2 =
     bind_outcome (long_of (tv_sec t1 - tv_sec t2)) (\<lambda>s.
       if tv_nsec t1 < tv_nsec t2
       then bind_outcome (long_of (s - 1)) (\<lambda>s.
            bind_outcome (long_of (tv_nsec t2 - tv_nsec t1)) (\<lambda>d.
              Ret \<lparr>tv_sec = s, tv_nsec = 1000000000 - d\<rparr>))
       else bind_outcome (long_of (tv_nsec t1 - tv_nsec t2)) (\<lambda>n. Ret \<lparr>tv_sec = s, tv_nsec = n\<rparr>))"

definition tst_timespec_diff_ns :: "timespec \<Rightarrow> timespec \<Rightarrow> int outcome" where
  "tst_timespec_diff_ns t1 t2 =
     bind_outcome (long_of (tv_nsec t1 - tv_nsec t2)) (\<lambda>n.
     bind_outcome (long_of (tv_sec t1 - tv_sec t2)) (\<lambda>s.
     bind_outcome (long_of (1000000000 * s)) (\<lambda>p. long_of (n + p))))"

definition tst_timespec_diff_us :: "timespec \<Rightarrow> timespec \<Rightarrow> int outcome" where
  "tst_timespec_diff_us t1 t2 = bind_outcome (tst_timespec_diff t1 t2) tst_timespec_to_us"

definition tst_timespec_diff_ms :: "timespec \<Rightarrow> timespec \<Rightarrow> int outcome" where
  "tst_timespec_diff_ms t1 t2 = bind_outcome (tst_timespec_diff t1 t2) tst_timespec_to_ms"

definition tst_timeval_diff :: "timeval \<Rightarrow> timeval \<Rightarrow> timeval outcome" where
  "tst_timeval_diff t1 t2 =
     bind_outcome (long_of (tval_sec t1 - tval_sec t2)) (\<lambda>s.
       if tv_usec t1 < tv_usec t2
       then bind_outcome (long_of (s - 1)) (\<lambda>s.
            bind_outcome (long_of (tv_usec t2 - tv_usec t1)) (\<lambda>d.
              Ret \<lparr>tval_sec = s, tv_usec = 1000000 - d\<rparr>))
       else bind_outcome (long_of (tv_usec t1 - tv_usec t2)) (\<lambda>n. Ret \<lparr>tval_sec = s, tv_usec = n\<rparr>))"

definition tst_timeval_diff_us :: "timeval \<Rightarrow> timeval \<Rightarrow> int outcome" where
  "tst_timeval_diff_us t1 t2 = bind_outcome (tst_timeval_diff t1 t2) tst_timeval_to_us"

definition tst_timeval_diff_ms :: "timeval \<Rightarrow> timeval \<Rightarrow> int outcome" where
  "tst_timeval_diff_ms t1 t2 = bind_outcome (tst_timeval_diff t1 t2) tst_timeval_to_ms"

definition tst_timespec_abs_diff :: "timespec \<Rightarrow> timespec \<Rightarrow> timespec outcome" where
  "tst_timespec_abs_diff t1 t2 =
     (if tst_timespec_lt t1 t2 then tst_timespec_diff t2 t1 else tst_timespec_diff t1 t2)"

definition tst_timespec_abs_diff_us :: "timespec \<Rightarrow> timespec \<Rightarrow> int outcome" where
  "tst_timespec_abs_diff_us t1 t2 = bind_outcome (tst_timespec_abs_diff t1 t2) tst_timespec_to_us"

definition tst_timespec_abs_diff_ms :: "timespec \<Rightarrow> timespec \<Rightarrow> int outcome" where
  "tst_timespec_abs_diff_ms t1 t2 = bind_outcome (tst_timespec_abs_diff t1 t2) tst_timespec_to_ms"

subsection \<open>The test timer\<close>

text \<open>\<open>Now t\<close>: the clock reads \<open>t\<close>; \<open>Fails e\<close>: the call fails with \<open>errno\<close> \<open>e\<close>.  A failing
  call leaves its result structure unchanged.  \<open>warned\<close> counts the calls of \<open>tst_res (TWARN)\<close>;
  \<open>tst_brk\<close> ends the test with the type of the result.\<close>

datatype clock_answer = Now timespec | Fails errno

record timer =
  start_time :: timespec
  stop_time :: timespec
  clock_id :: int
  warned :: nat

definition tst_timer_check :: "clock_answer \<Rightarrow> timer \<Rightarrow> timer outcome" where
  "tst_timer_check a tm =
     (case a of Now t \<Rightarrow> Ret (tm\<lparr>start_time := t\<rparr>)
      | Fails e \<Rightarrow> if e = EINVAL then tst_brk_exit TCONF else tst_brk_exit (TBROK OR TERRNO))"

definition tst_timer_start :: "int \<Rightarrow> clock_answer \<Rightarrow> timer \<Rightarrow> timer" where
  "tst_timer_start clk a tm =
     (case a of Now t \<Rightarrow> tm\<lparr>clock_id := clk, start_time := t\<rparr>
      | Fails e \<Rightarrow> tm\<lparr>clock_id := clk, warned := Suc (warned tm)\<rparr>)"

text \<open>After a failing call \<open>cur_time\<close> is used uninitialised.\<close>

definition tst_timer_expired_ms :: "int \<Rightarrow> clock_answer \<Rightarrow> timer \<Rightarrow> bool outcome" where
  "tst_timer_expired_ms ms a tm =
     (case a of
        Now cur_time \<Rightarrow> bind_outcome (tst_timespec_diff_ms cur_time (start_time tm)) (\<lambda>d. Ret (d \<ge> ms))
      | Fails e \<Rightarrow> Undefined ''cur_time is uninitialised'')"

definition tst_timer_stop :: "clock_answer \<Rightarrow> timer \<Rightarrow> timer" where
  "tst_timer_stop a tm =
     (case a of Now t \<Rightarrow> tm\<lparr>stop_time := t\<rparr> | Fails e \<Rightarrow> tm\<lparr>warned := Suc (warned tm)\<rparr>)"

definition tst_timer_elapsed :: "timer \<Rightarrow> timespec outcome" where
  "tst_timer_elapsed tm = tst_timespec_diff (stop_time tm) (start_time tm)"

definition tst_timer_elapsed_ms :: "timer \<Rightarrow> int outcome" where
  "tst_timer_elapsed_ms tm = bind_outcome (tst_timer_elapsed tm) tst_timespec_to_ms"

definition tst_timer_elapsed_us :: "timer \<Rightarrow> int outcome" where
  "tst_timer_elapsed_us tm = bind_outcome (tst_timer_elapsed tm) tst_timespec_to_us"

subsection \<open>The wall clock\<close>

record wallclock =
  real_begin :: timespec
  mono_begin :: timespec
  clock_saved :: bool

definition tst_wallclock_save :: "clock_answer \<Rightarrow> clock_answer \<Rightarrow> wallclock \<Rightarrow> wallclock outcome" where
  "tst_wallclock_save rt raw w =
     (case rt of
        Fails e \<Rightarrow> tst_brk_exit (TBROK OR TERRNO)
      | Now r \<Rightarrow>
          (case raw of
             Fails e \<Rightarrow> if e = EINVAL then tst_brk_exit (TCONF OR TERRNO) else tst_brk_exit (TBROK OR TERRNO)
           | Now m \<Rightarrow> Ret (w\<lparr>real_begin := r, mono_begin := m, clock_saved := True\<rparr>)))"

text \<open>The result holds the time passed to \<open>clock_settime\<close>, if it is called; \<open>set_ok\<close> is
  whether that call succeeds.\<close>

definition tst_wallclock_restore ::
  "clock_answer \<Rightarrow> bool \<Rightarrow> wallclock \<Rightarrow> (timespec option \<times> wallclock) outcome" where
  "tst_wallclock_restore raw set_ok w =
     (if \<not> clock_saved w then Ret (None, w)
      else let w = w\<lparr>clock_saved := False\<rparr>
      in (case raw of
            Fails e \<Rightarrow> tst_brk_exit (TBROK OR TERRNO)
          | Now mono_end \<Rightarrow>
              bind_outcome (tst_timespec_diff mono_end (mono_begin w)) (\<lambda>elapsed.
              bind_outcome (tst_timespec_add (real_begin w) elapsed) (\<lambda>adjust.
                if \<not> set_ok then tst_brk_exit (TBROK OR TERRNO) else Ret (Some adjust, w)))))"

subsection \<open>Exactness\<close>

text \<open>The time value in nanoseconds, values with a proper nanosecond part, and the range in
  which no operation overflows.\<close>

definition ns :: "timespec \<Rightarrow> int" where
  "ns t = tv_sec t * 1000000000 + tv_nsec t"

definition normalised :: "timespec \<Rightarrow> bool" where
  "normalised t \<longleftrightarrow> 0 \<le> tv_nsec t \<and> tv_nsec t < 1000000000"

definition moderate :: "timespec \<Rightarrow> bool" where
  "moderate t \<longleftrightarrow> \<bar>tv_sec t\<bar> \<le> 2 ^ 60"

lemma long_of_Ret: "LONG_MIN \<le> x \<Longrightarrow> x \<le> LONG_MAX \<Longrightarrow> long_of x = Ret x"
  by (simp add: long_of_def)

lemmas timespec_simps = long_of_def int_limits ns_def normalised_def

lemma add_exact:
  assumes "normalised t1" and "normalised t2" and "moderate t1" and "moderate t2"
  shows "\<exists>r. tst_timespec_add t1 t2 = Ret r \<and> normalised r \<and> ns r = ns t1 + ns t2"
  using assms by (auto simp: tst_timespec_add_def carry_def moderate_def timespec_simps)

lemma diff_exact:
  assumes "normalised t1" and "normalised t2" and "moderate t1" and "moderate t2"
  shows "\<exists>r. tst_timespec_diff t1 t2 = Ret r \<and> normalised r \<and> ns r = ns t1 - ns t2"
  using assms by (auto simp: tst_timespec_diff_def moderate_def timespec_simps)

lemma us_parts:
  assumes "0 \<le> us" and "us \<le> LONG_MAX"
  obtains q m where "tdiv us 1000000 = q" "tmod us 1000000 = m" "us = q * 1000000 + m"
    "0 \<le> q" "q \<le> 2 ^ 60" "0 \<le> m" "m < 1000000"
proof
  show "tdiv us 1000000 = us div 1000000" "tmod us 1000000 = us mod 1000000"
    using assms(1) by (simp_all add: tdiv_pos tmod_pos)
  show split: "us = us div 1000000 * 1000000 + us mod 1000000" by simp
  show m: "0 \<le> us mod 1000000" "us mod 1000000 < 1000000" by simp_all
  show "0 \<le> us div 1000000" using assms(1) by (simp add: pos_imp_zdiv_nonneg_iff)
  have "us \<le> 9223372036854775807" using assms(2) by (simp add: int_limits)
  then have "us div 1000000 \<le> 1152921504606846976" using split m by linarith
  then show "us div 1000000 \<le> 2 ^ 60" by simp
qed

lemma add_us_exact:
  assumes "normalised t" and "moderate t" and "0 \<le> us" and "us \<le> LONG_MAX"
  shows "\<exists>r. tst_timespec_add_us t us = Ret r \<and> normalised r \<and> ns r = ns t + 1000 * us"
proof -
  obtain q m where "tdiv us 1000000 = q" "tmod us 1000000 = m" "us = q * 1000000 + m"
    "0 \<le> q" "q \<le> 2 ^ 60" "0 \<le> m" "m < 1000000"
    using us_parts [OF assms(3,4)] .
  then show ?thesis using assms(1,2)
    by (auto simp: tst_timespec_add_us_def carry_def moderate_def timespec_simps)
qed

lemma sub_us_exact:
  assumes "normalised t" and "moderate t" and "0 \<le> us" and "us \<le> LONG_MAX"
  shows "\<exists>r. tst_timespec_sub_us t us = Ret r \<and> normalised r \<and> ns r = ns t - 1000 * us"
proof -
  obtain q m where "tdiv us 1000000 = q" "tmod us 1000000 = m" "us = q * 1000000 + m"
    "0 \<le> q" "q \<le> 2 ^ 60" "0 \<le> m" "m < 1000000"
    using us_parts [OF assms(3,4)] .
  then show ?thesis using assms(1,2)
    by (auto simp: tst_timespec_sub_us_def moderate_def timespec_simps)
qed

lemma lt_exact:
  assumes "normalised t1" and "normalised t2"
  shows "tst_timespec_lt t1 t2 \<longleftrightarrow> ns t1 < ns t2"
  using assms by (auto simp: tst_timespec_lt_def timespec_simps)

text \<open>
  C34: On normalised time values with less than \<open>2 ^ 60\<close> seconds the sum, the difference, the
  absolute difference and the addition and subtraction of microseconds do not overflow, are
  exact and give normalised values; the comparison is that of the times.
\<close>

theorem timespec_arithmetic_exact:
  assumes "normalised t1" and "normalised t2" and "moderate t1" and "moderate t2"
    and "0 \<le> us" and "us \<le> LONG_MAX"
  shows "(\<exists>r. tst_timespec_add t1 t2 = Ret r \<and> normalised r \<and> ns r = ns t1 + ns t2) \<and>
    (\<exists>r. tst_timespec_diff t1 t2 = Ret r \<and> normalised r \<and> ns r = ns t1 - ns t2) \<and>
    (\<exists>r. tst_timespec_abs_diff t1 t2 = Ret r \<and> normalised r \<and> ns r = \<bar>ns t1 - ns t2\<bar>) \<and>
    (\<exists>r. tst_timespec_add_us t1 us = Ret r \<and> normalised r \<and> ns r = ns t1 + 1000 * us) \<and>
    (\<exists>r. tst_timespec_sub_us t1 us = Ret r \<and> normalised r \<and> ns r = ns t1 - 1000 * us) \<and>
    (tst_timespec_lt t1 t2 \<longleftrightarrow> ns t1 < ns t2)"
proof (intro conjI)
  show "\<exists>r. tst_timespec_abs_diff t1 t2 = Ret r \<and> normalised r \<and> ns r = \<bar>ns t1 - ns t2\<bar>"
    using diff_exact [OF assms(1-4)] diff_exact [OF assms(2,1,4,3)] lt_exact [OF assms(1,2)]
    by (cases "tst_timespec_lt t1 t2") (auto simp: tst_timespec_abs_diff_def)
  show "tst_timespec_lt t1 t2 \<longleftrightarrow> ns t1 < ns t2" by (rule lt_exact [OF assms(1,2)])
qed (use assms in \<open>blast intro: add_exact diff_exact add_us_exact sub_us_exact\<close>)+

definition ex_time :: "int \<Rightarrow> int \<Rightarrow> timespec" where
  "ex_time s n = \<lparr>tv_sec = s, tv_nsec = n\<rparr>"

theorem timespec_arithmetic_exact_witness:
  "\<exists>r. tst_timespec_diff (ex_time 5 0) (ex_time 3 999999999) = Ret r \<and> normalised r \<and> ns r = 1000000001"
  using timespec_arithmetic_exact [of "ex_time 5 0" "ex_time 3 999999999" 0]
  by (simp add: ex_time_def normalised_def moderate_def ns_def int_limits)

text \<open>A negative number of microseconds leaves a negative nanosecond part.\<close>

lemma add_negative_us: "tst_timespec_add_us (ex_time 1 0) (-1) = Ret (ex_time 1 (-1000))"
  by (simp add: tst_timespec_add_us_def tdiv_def tmod_def carry_def ex_time_def long_of_def int_limits)

subsection \<open>Conversions\<close>

lemma scale_add_Ret:
  assumes "LONG_MIN \<le> a * k" and "a * k \<le> LONG_MAX" and "LONG_MIN \<le> a * k + b" and "a * k + b \<le> LONG_MAX"
  shows "scale_add a k b = Ret (a * k + b)"
  using assms by (simp add: scale_add_def long_of_def)

lemma round_part:
  assumes "0 \<le> n" and "n < 1000000000" and "0 < (k :: int)"
  shows "0 \<le> (n + 500) div k \<and> (n + 500) div k \<le> 1000000500 \<and>
    0 \<le> (n + 500000) div k \<and> (n + 500000) div k \<le> 1000500000"
proof -
  have "(n + 500) div k \<le> n + 500" "(n + 500000) div k \<le> n + 500000"
    using assms zdiv_mono2 [of "n + 500" 1 k] zdiv_mono2 [of "n + 500000" 1 k] by simp_all
  then show ?thesis using assms by (simp add: pos_imp_zdiv_nonneg_iff)
qed

text \<open>The time in microseconds and milliseconds, rounded to the nearest value.\<close>

lemma to_us_rounds:
  assumes "normalised t" and "\<bar>tv_sec t\<bar> \<le> 2 ^ 42"
  shows "tst_timespec_to_us t = Ret ((ns t + 500) div 1000)"
proof -
  have n: "0 \<le> tv_nsec t" "tv_nsec t < 1000000000" using assms(1) by (auto simp: normalised_def)
  note r = round_part [OF n, of 1000]
  have s: "- 4398046511104 \<le> tv_sec t" "tv_sec t \<le> 4398046511104" using assms(2) by auto
  have "long_of (tv_nsec t + 500) = Ret (tv_nsec t + 500)"
    using n by (intro long_of_Ret) (simp_all add: int_limits)
  moreover have "scale_add (tv_sec t) 1000000 ((tv_nsec t + 500) div 1000) =
      Ret (tv_sec t * 1000000 + (tv_nsec t + 500) div 1000)"
    using r s by (intro scale_add_Ret) (simp_all add: int_limits)
  moreover have "(ns t + 500) div 1000 = tv_sec t * 1000000 + (tv_nsec t + 500) div 1000"
    using div_mult_self1 [of 1000 "tv_nsec t + 500" "tv_sec t * 1000000"] by (simp add: ns_def algebra_simps)
  ultimately show ?thesis using n by (simp add: tst_timespec_to_us_def tdiv_pos)
qed

lemma to_ms_rounds:
  assumes "normalised t" and "\<bar>tv_sec t\<bar> \<le> 2 ^ 52"
  shows "tst_timespec_to_ms t = Ret ((ns t + 500000) div 1000000)"
proof -
  have n: "0 \<le> tv_nsec t" "tv_nsec t < 1000000000" using assms(1) by (auto simp: normalised_def)
  note r = round_part [OF n, of 1000000]
  have s: "- 4503599627370496 \<le> tv_sec t" "tv_sec t \<le> 4503599627370496" using assms(2) by auto
  have "long_of (tv_nsec t + 500000) = Ret (tv_nsec t + 500000)"
    using n by (intro long_of_Ret) (simp_all add: int_limits)
  moreover have "scale_add (tv_sec t) 1000 ((tv_nsec t + 500000) div 1000000) =
      Ret (tv_sec t * 1000 + (tv_nsec t + 500000) div 1000000)"
    using r s by (intro scale_add_Ret) (simp_all add: int_limits)
  moreover have "(ns t + 500000) div 1000000 = tv_sec t * 1000 + (tv_nsec t + 500000) div 1000000"
    using div_mult_self1 [of 1000000 "tv_nsec t + 500000" "tv_sec t * 1000"]
    by (simp add: ns_def algebra_simps)
  ultimately show ?thesis using n by (simp add: tst_timespec_to_ms_def tdiv_pos)
qed

text \<open>
  Microseconds and milliseconds converted to a \<open>timespec\<close> or a \<open>timeval\<close> and back give the
  same number, and a non-negative time is converted to the nearest number of microseconds and
  milliseconds.
\<close>

theorem time_conversion_roundtrip:
  assumes "0 \<le> n" and "n \<le> 2 ^ 52"
  shows "tst_timespec_to_us (tst_us_to_timespec n) = Ret n \<and>
    tst_timespec_to_ms (tst_ms_to_timespec n) = Ret n \<and>
    tst_timeval_to_us (tst_us_to_timeval n) = Ret n \<and>
    tst_timeval_to_ms (tst_ms_to_timeval n) = Ret n \<and>
    tst_timespec_to_us \<lparr>tv_sec = n div 1000000000, tv_nsec = n mod 1000000000\<rparr> = Ret ((n + 500) div 1000) \<and>
    tst_timespec_to_ms \<lparr>tv_sec = n div 1000000000, tv_nsec = n mod 1000000000\<rparr> = Ret ((n + 500000) div 1000000)"
proof -
  have n: "n \<le> 4503599627370496" using assms(2) by simp
  have q: "0 \<le> n div k \<and> n div k \<le> n" if "0 < k" for k
    using assms(1) that zdiv_mono2 [of n 1 k] by (simp add: pos_imp_zdiv_nonneg_iff)
  have small: "n div 1000000 \<le> 4503599627" "n div 1000000000 \<le> 4503599627"
    using n zdiv_mono1 [of n 4503599627370496 1000000] zdiv_mono1 [of n 4503599627370496 1000000000]
    by simp_all
  note conv = tst_us_to_timespec_def tst_ms_to_timespec_def tst_us_to_timeval_def tst_ms_to_timeval_def
    tdiv_pos [OF assms(1)] tmod_pos [OF assms(1)]
  have nsv: "ns (tst_us_to_timespec n) = n * 1000" "ns (tst_ms_to_timespec n) = n * 1000000"
    unfolding ns_def conv timespec.simps
    using div_mult_mod_eq [of n 1000000] div_mult_mod_eq [of n 1000] by linarith+
  have "tst_timespec_to_us (tst_us_to_timespec n) = Ret ((n * 1000 + 500) div 1000)"
    using to_us_rounds [of "tst_us_to_timespec n"] q [of 1000000] small nsv
    by (simp add: conv normalised_def)
  moreover have "tst_timespec_to_ms (tst_ms_to_timespec n) = Ret ((n * 1000000 + 500000) div 1000000)"
    using to_ms_rounds [of "tst_ms_to_timespec n"] q [of 1000] n nsv
    by (simp add: conv normalised_def)
  moreover have "tst_timeval_to_us (tst_us_to_timeval n) = Ret n"
    unfolding tst_timeval_to_us_def conv using q [of 1000000] n assms(1)
    by (subst scale_add_Ret) (simp_all add: int_limits)
  moreover have "tst_timeval_to_ms (tst_ms_to_timeval n) = Ret n"
    unfolding tst_timeval_to_ms_def conv using q [of 1000] n assms(1)
    by (simp add: long_of_def int_limits tdiv_pos scale_add_def)
  moreover have "normalised \<lparr>tv_sec = n div 1000000000, tv_nsec = n mod 1000000000\<rparr>"
    "ns \<lparr>tv_sec = n div 1000000000, tv_nsec = n mod 1000000000\<rparr> = n"
    by (simp_all add: normalised_def ns_def)
  ultimately show ?thesis using q [of 1000000000] small
    by (simp add: to_us_rounds to_ms_rounds)
qed

theorem time_conversion_roundtrip_witness:
  "tst_timespec_to_us (tst_us_to_timespec 1234567) = Ret 1234567"
  using time_conversion_roundtrip [of 1234567] by simp

subsection \<open>Timer and wall clock\<close>

lemma diff_sec_bound:
  "tst_timespec_diff t1 t2 = Ret r \<Longrightarrow> \<bar>tv_sec r\<bar> \<le> \<bar>tv_sec t1\<bar> + \<bar>tv_sec t2\<bar> + 1"
  by (auto simp: tst_timespec_diff_def long_of_def outcome_simps split: if_splits)

text \<open>The timer counts as expired half a millisecond early, as the difference is rounded.\<close>

lemma timer_expired_iff:
  assumes "normalised t" and "normalised (start_time tm)" and "\<bar>tv_sec t\<bar> \<le> 2 ^ 50"
    and "\<bar>tv_sec (start_time tm)\<bar> \<le> 2 ^ 50"
  shows "tst_timer_expired_ms ms (Now t) tm = Ret (ms * 1000000 \<le> ns t - ns (start_time tm) + 500000)"
proof -
  obtain r where r: "tst_timespec_diff t (start_time tm) = Ret r" "normalised r"
      "ns r = ns t - ns (start_time tm)"
    using diff_exact [OF assms(1,2)] assms(3,4) by (auto simp: moderate_def)
  have "\<bar>tv_sec r\<bar> \<le> 2 ^ 52" using diff_sec_bound [OF r(1)] assms(3,4) by simp
  with r(2) have "tst_timespec_to_ms r = Ret ((ns r + 500000) div 1000000)" by (rule to_ms_rounds)
  moreover have "ms \<le> x div 1000000 \<longleftrightarrow> ms * 1000000 \<le> x" for x :: int
    using div_mult_mod_eq [of x 1000000] pos_mod_sign [of 1000000 x] pos_mod_bound [of 1000000 x]
    by linarith
  ultimately show ?thesis using r by (simp add: tst_timer_expired_ms_def tst_timespec_diff_ms_def)
qed


definition ex_wallclock :: wallclock where
  "ex_wallclock = \<lparr>real_begin = ex_time 0 0, mono_begin = ex_time 0 0, clock_saved = False\<rparr>"


end
