(* ===== verification/Kconfig.thy ===== *)
theory Kconfig
  imports Tst_Flags
begin

section \<open>tst_kconfig: checking the kernel configuration\<close>

text \<open>
  \<open>lib/tst_kconfig.c\<close>.  The environment variable, the files that exist, their contents and the
  output of \<open>zcat\<close> are arguments.  Characters of a line after a NUL byte are not seen by the string
  functions.
\<close>

unbundle bit_operations_syntax

subsection \<open>Finding and opening the file\<close>

definition kconfig_path :: "string option \<Rightarrow> (string \<Rightarrow> bool) \<Rightarrow> string \<Rightarrow> string option" where
  "kconfig_path env exists release =
     (if \<exists>p \<in> set_option env. exists p then env
      else if exists ''/proc/config.gz'' then Some ''/proc/config.gz''
      else let boot = snprintf 1024 (''/boot/config-'' @ release)
           in if exists boot then Some boot
              else let lib = snprintf 1024 (''/lib/kernel/config-'' @ release)
                   in if exists lib then Some lib else None)"

record kconfig_env =
  ke_path :: "string option"
  ke_exists :: "string \<Rightarrow> bool"
  ke_release :: string
  ke_file :: "string \<Rightarrow> string option"
  ke_popen :: "string \<Rightarrow> string option"

definition is_gzip :: "string \<Rightarrow> bool" where
  "is_gzip path = (strstr path ''.gz'' \<noteq> None)"

definition open_kconfig :: "kconfig_env \<Rightarrow> string option outcome" where
  "open_kconfig e =
     (case kconfig_path (ke_path e) (ke_exists e) (ke_release e) of
        None \<Rightarrow> Ret None
      | Some path \<Rightarrow>
          (case (if is_gzip path then ke_popen e (snprintf 1024 (''zcat '' @ [CHR 0x27] @ path @ [CHR 0x27]))
                 else ke_file e path) of
             None \<Rightarrow> tst_brk_exit (TBROK OR TERRNO)
           | Some content \<Rightarrow> Ret (Some content)))"

subsection \<open>Matching one line\<close>

record match_state =
  m_len :: nat
  m_match :: bool

record tst_kconfig_res =
  res_match :: char
  res_value :: "string option"

definition char_at :: "string \<Rightarrow> nat \<Rightarrow> char" where
  "char_at s n = (if n < length s then s ! n else NUL)"

definition is_set :: "string \<Rightarrow> string \<Rightarrow> bool" where
  "is_set str val =
     (let s = dropWhile is_space str
      in strncmp_eq s val (length val) \<and> char_at s (length val) \<in> {SPACE, NL, NUL})"

text \<open>The \<open>switch\<close> of \<open>match\<close> and what follows: the result to store when the line is a match.
  \<open>strndup (val + 1, strlen (val) - 2)\<close> drops the last character, which is the newline.\<close>

definition match_val :: "tst_kconfig_res \<Rightarrow> string \<Rightarrow> tst_kconfig_res option" where
  "match_val result val =
     (let c = char_at val 0
      in if c = CHR ''='' then
           (if is_set val ''=y'' then Some (result\<lparr>res_match := CHR ''y''\<rparr>)
            else if is_set val ''=m'' then Some (result\<lparr>res_match := CHR ''m''\<rparr>)
            else Some (result\<lparr>res_match := CHR ''v'',
                   res_value := Some (if length val < 2 then tl val else take (length val - 2) (tl val))\<rparr>))
         else if c = SPACE \<and> is_set val ''is not set'' then Some (result\<lparr>res_match := CHR ''n''\<rparr>)
         else None)"

definition match_conf ::
  "match_state \<Rightarrow> string \<Rightarrow> tst_kconfig_res \<Rightarrow> string \<Rightarrow> bool \<times> match_state \<times> tst_kconfig_res" where
  "match_conf m conf result line =
     (if m_match m then (False, m, result)
      else case strstr line ''CONFIG_'' of
        None \<Rightarrow> (False, m, result)
      | Some cfg \<Rightarrow>
          if \<not> strncmp_eq cfg conf (m_len m) then (False, m, result)
          else (case match_val result (drop (m_len m) cfg) of
                  None \<Rightarrow> (False, m, result)
                | Some r \<Rightarrow> (True, m\<lparr>m_match := True\<rparr>, r)))"

subsection \<open>Reading the file\<close>

definition conf_len :: "string \<Rightarrow> nat" where
  "conf_len conf =
     (case strchr conf (CHR ''='') of None \<Rightarrow> length conf | Some val \<Rightarrow> length conf - length val)"

definition init_res :: tst_kconfig_res where
  "init_res = \<lparr>res_match = NUL, res_value = None\<rparr>"

type_synonym kstate = "match_state list \<times> tst_kconfig_res list"

text \<open>The loop over the options for one line.  After a match the code looks for the first
  option with the flag set and stops when there is none.\<close>

fun match_line :: "string list \<Rightarrow> string \<Rightarrow> nat list \<Rightarrow> kstate \<Rightarrow> bool \<times> kstate" where
  "match_line confs line [] st = (False, st)"
| "match_line confs line (i # is) (ms, rs) =
     (let (hit, m, r) = match_conf (ms ! i) (confs ! i) (rs ! i) line;
          ms' = ms[i := m]; rs' = rs[i := r]
      in if hit \<and> first_index m_match ms' = None then (True, (ms', rs'))
         else match_line confs line is (ms', rs'))"

function read_lines :: "string list \<Rightarrow> string \<Rightarrow> kstate \<Rightarrow> kstate" where
  "read_lines confs rest st =
     (if rest = [] then st
      else let buf = fgets 1024 rest;
               (stop, st') = match_line confs (cstring buf) [0..<length confs] st
           in if stop then st' else read_lines confs (drop (length buf) rest) st')"
  by pat_completeness auto
termination
proof (relation "measure (\<lambda>(_, rest, _). length rest)", simp, goal_cases)
  case (1 confs rest st buf p stop st')
  then have "buf \<noteq> []" using fgets_nonempty [of rest 1024] by simp
  with 1 show ?case by simp
qed

declare read_lines.simps [simp del]

definition tst_kconfig_read :: "kconfig_env \<Rightarrow> string list \<Rightarrow> tst_kconfig_res list outcome" where
  "tst_kconfig_read e confs =
     (if \<exists>conf \<in> set confs. \<not> strncmp_eq ''CONFIG_'' conf 7 then tst_brk_exit TBROK
      else bind_outcome (open_kconfig e) (\<lambda>fp.
        case fp of
          None \<Rightarrow> tst_brk_exit TBROK
        | Some content \<Rightarrow>
            Ret (snd (read_lines confs content
              (map (\<lambda>conf. \<lparr>m_len = conf_len conf, m_match = False\<rparr>) confs,
               map (\<lambda>_. init_res) confs)))))"

subsection \<open>Checking the requirements\<close>

text \<open>\<open>while (kconfigs[++i])\<close> does not look at the first element of the NULL-terminated array.\<close>

definition array_len :: "string list \<Rightarrow> nat outcome" where
  "array_len kconfigs =
     (if kconfigs = [] then Undefined ''read past the end of the array'' else Ret (length kconfigs))"

definition compare_res :: "tst_kconfig_res \<Rightarrow> char \<Rightarrow> string \<Rightarrow> bool" where
  "compare_res res m val =
     (if res_match res \<noteq> m then True
      else if m \<noteq> CHR ''v'' then False
      else res_value res \<noteq> Some val)"

text \<open>Whether the option asks for the test to be aborted.\<close>

definition unsuitable :: "string \<Rightarrow> tst_kconfig_res \<Rightarrow> bool" where
  "unsuitable conf res =
     (if res_match res = NUL then True
      else if res_match res = CHR ''n'' then True
      else case strchr conf (CHR ''='') of
        None \<Rightarrow> False
      | Some eqval \<Rightarrow>
          let val = tl eqval;
              m = (if val = ''m'' then CHR ''m'' else if val = ''y'' then CHR ''y'' else CHR ''v'')
          in compare_res res m val)"

definition tst_kconfig_check :: "kconfig_env \<Rightarrow> string list \<Rightarrow> unit outcome" where
  "tst_kconfig_check e kconfigs =
     bind_outcome (array_len kconfigs) (\<lambda>cnt.
     bind_outcome (tst_kconfig_read e kconfigs) (\<lambda>results.
       if list_ex (\<lambda>(conf, res). unsuitable conf res) (zip kconfigs results)
       then tst_brk_exit TCONF else Ret ()))"

subsection \<open>The result of reading: the first line that settles each option\<close>

text \<open>The lines as \<open>fgets\<close> delivers them.\<close>

function klines :: "string \<Rightarrow> string list" where
  "klines rest =
     (if rest = [] then []
      else let buf = fgets 1024 rest in cstring buf # klines (drop (length buf) rest))"
  by pat_completeness auto
termination
proof (relation "measure length", simp, goal_cases)
  case (1 rest buf)
  then have "buf \<noteq> []" using fgets_nonempty [of rest 1024] by simp
  with 1 show ?case by simp
qed

declare klines.simps [simp del]

definition setting :: "string \<Rightarrow> string \<Rightarrow> tst_kconfig_res option" where
  "setting conf line =
     (case strstr line ''CONFIG_'' of
        None \<Rightarrow> None
      | Some cfg \<Rightarrow>
          if strncmp_eq cfg conf (conf_len conf) then match_val init_res (drop (conf_len conf) cfg)
          else None)"

fun first_setting :: "string \<Rightarrow> string list \<Rightarrow> tst_kconfig_res option" where
  "first_setting conf [] = None"
| "first_setting conf (l # ls) = (case setting conf l of Some r \<Rightarrow> Some r | None \<Rightarrow> first_setting conf ls)"

definition res_of :: "tst_kconfig_res option \<Rightarrow> tst_kconfig_res" where
  "res_of r = (case r of Some x \<Rightarrow> x | None \<Rightarrow> init_res)"

definition kstate_after :: "string list \<Rightarrow> string list \<Rightarrow> kstate" where
  "kstate_after confs ls =
     (map (\<lambda>conf. \<lparr>m_len = conf_len conf, m_match = (first_setting conf ls \<noteq> None)\<rparr>) confs,
      map (\<lambda>conf. res_of (first_setting conf ls)) confs)"

lemma first_setting_append:
  "first_setting conf (ls @ ms) =
     (case first_setting conf ls of Some r \<Rightarrow> Some r | None \<Rightarrow> first_setting conf ms)"
  by (induction ls) (auto split: option.split)

lemma match_conf_setting:
  "match_conf \<lparr>m_len = conf_len conf, m_match = (first_setting conf ls \<noteq> None)\<rparr> conf
     (res_of (first_setting conf ls)) line =
   (first_setting conf ls = None \<and> setting conf line \<noteq> None,
    \<lparr>m_len = conf_len conf, m_match = (first_setting conf (ls @ [line]) \<noteq> None)\<rparr>,
    res_of (first_setting conf (ls @ [line])))"
  by (auto simp: match_conf_def setting_def first_setting_append res_of_def split: option.splits)

lemma match_conf_hit: "match_conf m conf r line = (True, m', r') \<Longrightarrow> m_match m'"
  by (auto simp: match_conf_def split: if_splits option.splits)

text \<open>The search after a match always finds the option just matched, so the loop over the
  options never stops early and treats each option on its own.\<close>

lemma match_line_pointwise:
  assumes "distinct is" and "\<forall>i \<in> set is. i < length ms" and "length rs = length ms"
  shows "\<exists>ms' rs'. match_line confs line is (ms, rs) = (False, (ms', rs')) \<and>
    length ms' = length ms \<and> length rs' = length ms \<and>
    (\<forall>i < length ms. (ms' ! i, rs' ! i) = (if i \<in> set is
       then snd (match_conf (ms ! i) (confs ! i) (rs ! i) line) else (ms ! i, rs ! i)))"
  using assms
proof (induction "is" arbitrary: ms rs)
  case (Cons i "is")
  obtain hit m r where mc: "match_conf (ms ! i) (confs ! i) (rs ! i) line = (hit, m, r)"
    by (metis prod_cases3)
  have i: "i < length ms" "i \<notin> set is" using Cons.prems by simp_all
  have "hit \<Longrightarrow> m \<in> set (ms[i := m]) \<and> m_match m"
    using match_conf_hit mc i(1) by (metis set_update_memI)
  then have "\<not> (hit \<and> first_index m_match (ms[i := m]) = None)"
    by (auto simp: first_index_None)
  then have eq: "match_line confs line (i # is) (ms, rs) = match_line confs line is (ms[i := m], rs[i := r])"
    by (auto simp: mc Let_def)
  obtain ms' rs' where IH: "match_line confs line is (ms[i := m], rs[i := r]) = (False, (ms', rs'))"
    "length ms' = length ms" "length rs' = length ms"
    "\<forall>j < length ms. (ms' ! j, rs' ! j) = (if j \<in> set is
       then snd (match_conf (ms[i := m] ! j) (confs ! j) (rs[i := r] ! j) line)
       else (ms[i := m] ! j, rs[i := r] ! j))"
    using Cons.IH [of "ms[i := m]" "rs[i := r]"] Cons.prems by auto
  have "(ms' ! j, rs' ! j) = (if j \<in> set (i # is)
       then snd (match_conf (ms ! j) (confs ! j) (rs ! j) line) else (ms ! j, rs ! j))"
    if "j < length ms" for j
    using IH(4) that i mc Cons.prems(3) by (cases "j = i") auto
  then show ?case using eq IH by auto
qed simp

lemma match_line_after:
  "match_line confs line [0..<length confs] (kstate_after confs ls) =
     (False, kstate_after confs (ls @ [line]))"
proof -
  define ms rs where "ms = fst (kstate_after confs ls)" and "rs = snd (kstate_after confs ls)"
  have len: "length ms = length confs" "length rs = length ms"
    by (simp_all add: ms_def rs_def kstate_after_def)
  obtain ms' rs' where m: "match_line confs line [0..<length confs] (ms, rs) = (False, (ms', rs'))"
    "length ms' = length ms" "length rs' = length ms"
    "\<forall>i < length ms. (ms' ! i, rs' ! i) = (if i \<in> set [0..<length confs]
       then snd (match_conf (ms ! i) (confs ! i) (rs ! i) line) else (ms ! i, rs ! i))"
    using match_line_pointwise [of "[0..<length confs]" ms rs confs line] len by auto
  have "(ms' ! i, rs' ! i) = (fst (kstate_after confs (ls @ [line])) ! i,
      snd (kstate_after confs (ls @ [line])) ! i)" if "i < length confs" for i
    using m(4) that len match_conf_setting [of "confs ! i" ls line]
    by (simp add: ms_def rs_def kstate_after_def)
  then have "ms' = fst (kstate_after confs (ls @ [line]))" "rs' = snd (kstate_after confs (ls @ [line]))"
    using m(2,3) len by (auto intro!: nth_equalityI simp: kstate_after_def)
  then show ?thesis using m(1) by (simp add: ms_def rs_def)
qed

lemma read_lines_after:
  "read_lines confs rest (kstate_after confs ls) = kstate_after confs (ls @ klines rest)"
proof (induction rest arbitrary: ls rule: klines.induct)
  case (1 rest)
  show ?case
  proof (cases "rest = []")
    case True
    then show ?thesis by (subst read_lines.simps, subst klines.simps) simp
  next
    case False
    then show ?thesis using "1" [OF False refl, of "ls @ [cstring (fgets 1024 rest)]"]
      by (subst read_lines.simps, subst klines.simps) (simp add: match_line_after Let_def)
  qed
qed

lemma strncmp_CONFIG: "strncmp_eq ''CONFIG_'' conf 7 \<longleftrightarrow> prefix ''CONFIG_'' conf"
  using strncmp_eq_prefix [of "''CONFIG_''" conf] by (simp add: eval_nat_numeral)

lemma kconfig_read_eq:
  assumes "\<forall>conf \<in> set confs. prefix ''CONFIG_'' conf" and "open_kconfig e = Ret (Some content)"
  shows "tst_kconfig_read e confs = Ret (map (\<lambda>conf. res_of (first_setting conf (klines content))) confs)"
proof -
  have "strncmp_eq ''CONFIG_'' conf 7" if "conf \<in> set confs" for conf
    using assms(1) that by (simp add: strncmp_CONFIG)
  moreover have "kstate_after confs [] =
      (map (\<lambda>conf. \<lparr>m_len = conf_len conf, m_match = False\<rparr>) confs, map (\<lambda>_. init_res) confs)"
    by (simp add: kstate_after_def res_of_def)
  ultimately show ?thesis
    using read_lines_after [of confs content "[]"] assms(2)
    by (auto simp: tst_kconfig_read_def kstate_after_def)
qed

text \<open>
  \<open>tst_kconfig_read\<close> on options that begin with \<open>CONFIG_\<close> and a file that can be opened
  returns for every option what the first line that matches it says, and 0 when there is none;
  the lines are read to the end of the file, as the test that should stop the loop once all
  options are matched never succeeds.  A malformed option or a missing file ends the test.
\<close>

theorem kconfig_read_first_match:
  "tst_kconfig_read e confs =
     (if \<exists>conf \<in> set confs. \<not> prefix ''CONFIG_'' conf then Exits TBROK
      else case open_kconfig e of
        Ret (Some content) \<Rightarrow>
          Ret (map (\<lambda>conf. res_of (first_setting conf (klines content))) confs)
      | _ \<Rightarrow> Exits TBROK)"
proof (cases "\<exists>conf \<in> set confs. \<not> prefix ''CONFIG_'' conf")
  case True
  then show ?thesis by (simp add: tst_kconfig_read_def strncmp_CONFIG)
next
  case False
  have "open_kconfig e = Exits TBROK \<or> (\<exists>c. open_kconfig e = Ret c)"
    by (auto simp: open_kconfig_def split: option.split)
  then show ?thesis
  proof
    assume "open_kconfig e = Exits TBROK"
    then show ?thesis using False by (simp add: tst_kconfig_read_def strncmp_CONFIG)
  next
    assume "\<exists>c. open_kconfig e = Ret c"
    then obtain c where c: "open_kconfig e = Ret c" by blast
    show ?thesis
    proof (cases c)
      case None
      then show ?thesis using False c by (simp add: tst_kconfig_read_def strncmp_CONFIG)
    next
      case (Some content)
      then show ?thesis using False c kconfig_read_eq [of confs e content] by simp
    qed
  qed
qed

subsection \<open>Generated configuration files\<close>

text \<open>A configuration as the kernel build writes it.\<close>

datatype ksetting = Yes | Module | Unset | Value string

fun setting_text :: "ksetting \<Rightarrow> string" where
  "setting_text Yes = ''y''" | "setting_text Module = ''m''" | "setting_text Unset = ''n''"
| "setting_text (Value v) = v"

fun config_line :: "string \<times> ksetting \<Rightarrow> string" where
  "config_line (name, Unset) = ''# '' @ name @ '' is not set''"
| "config_line (name, s) = name @ ''='' @ setting_text s"

definition config_text :: "(string \<times> ksetting) list \<Rightarrow> string" where
  "config_text cfg = concat (map (\<lambda>x. config_line x @ [NL]) cfg)"

definition option_name :: "string \<Rightarrow> bool" where
  "option_name name \<longleftrightarrow> prefix ''CONFIG_'' name \<and>
     (\<forall>c \<in> set name. c \<notin> {CHR ''='', NUL} \<and> \<not> is_space c)"

definition plain_value :: "string \<Rightarrow> bool" where
  "plain_value v \<longleftrightarrow> v \<noteq> [] \<and> NL \<notin> set v \<and> NUL \<notin> set v \<and>
     (\<forall>q \<in> {CHR ''y'', CHR ''m''}. v \<noteq> [q] \<and> \<not> prefix [q, SPACE] v)"

definition entry_ok :: "string \<times> ksetting \<Rightarrow> bool" where
  "entry_ok x \<longleftrightarrow> option_name (fst x) \<and> length (config_line x) < 1023 \<and>
     (case snd x of Value v \<Rightarrow> plain_value v | _ \<Rightarrow> True)"

text \<open>What the lines of an entry say.\<close>

definition res_for :: "ksetting \<Rightarrow> tst_kconfig_res" where
  "res_for s =
     (case s of Yes \<Rightarrow> \<lparr>res_match = CHR ''y'', res_value = None\<rparr>
      | Module \<Rightarrow> \<lparr>res_match = CHR ''m'', res_value = None\<rparr>
      | Unset \<Rightarrow> \<lparr>res_match = CHR ''n'', res_value = None\<rparr>
      | Value v \<Rightarrow> \<lparr>res_match = CHR ''v'', res_value = Some v\<rparr>)"

definition line_tail :: "ksetting \<Rightarrow> string" where
  "line_tail s = (case s of Unset \<Rightarrow> '' is not set'' @ [NL] | _ \<Rightarrow> ''='' @ setting_text s @ [NL])"

lemma strstr_prefix: "prefix n s \<Longrightarrow> strstr s n = Some s"
  by (cases s) auto

lemma strstr_config_line:
  assumes "option_name name"
  shows "strstr (config_line (name, s) @ [NL]) ''CONFIG_'' = Some (name @ line_tail s)"
proof -
  have p: "strstr (name @ r) ''CONFIG_'' = Some (name @ r)" for r
    by (rule strstr_prefix, rule prefix_prefix) (use assms in \<open>simp only: option_name_def\<close>)
  show ?thesis by (cases s) (simp_all add: line_tail_def p)
qed

lemma option_name_chars:
  "option_name name \<Longrightarrow> c \<in> set name \<Longrightarrow> c \<noteq> CHR ''='' \<and> c \<noteq> SPACE \<and> c \<noteq> NUL \<and> c \<noteq> NL"
  by (auto simp: option_name_def is_space_def)

lemma is_set_value:
  assumes "plain_value v" and "q \<in> {CHR ''y'', CHR ''m''}"
  shows "\<not> is_set (CHR ''='' # v @ [NL]) [CHR ''='', q]"
proof -
  obtain c r where v: "v = c # r" using assms(1) by (cases v) (auto simp: plain_value_def)
  have "char_at (r @ [NL]) 0 \<noteq> SPACE \<and> char_at (r @ [NL]) 0 \<noteq> NL \<and> char_at (r @ [NL]) 0 \<noteq> NUL" if "c = q"
    using assms v that by (cases r) (auto simp: plain_value_def char_at_def)
  then show ?thesis
    by (auto simp: is_set_def v strncmp_eq_def is_space_def char_at_def numeral_2_eq_2 Let_def nth_append)
qed

lemma match_val_tail:
  assumes "case s of Value v \<Rightarrow> plain_value v | _ \<Rightarrow> True"
  shows "match_val init_res (line_tail s) = Some (res_for s)"
proof (cases s)
  case (Value v)
  then have "\<not> is_set (line_tail s) ''=y''" "\<not> is_set (line_tail s) ''=m''"
    using assms is_set_value [of v] by (simp_all add: line_tail_def)
  then show ?thesis using Value
    by (simp add: match_val_def line_tail_def char_at_def res_for_def init_res_def Let_def)
qed (simp_all add: match_val_def line_tail_def char_at_def res_for_def init_res_def is_set_def
    strncmp_eq_def is_space_def Let_def)

subsection \<open>Requirements\<close>

type_synonym requirement = "string \<times> string option"

fun req_text :: "requirement \<Rightarrow> string" where
  "req_text (name, None) = name"
| "req_text (name, Some val) = name @ ''='' @ val"

definition satisfied :: "(string \<times> ksetting) list \<Rightarrow> requirement \<Rightarrow> bool" where
  "satisfied cfg r =
     (case map_of cfg (fst r) of
        None \<Rightarrow> False
      | Some s \<Rightarrow> s \<noteq> Unset \<and> (case snd r of None \<Rightarrow> True | Some val \<Rightarrow> setting_text s = val))"

lemma strchr_req:
  assumes "option_name name"
  shows "strchr (req_text (name, v)) (CHR ''='') = map_option (\<lambda>val. CHR ''='' # val) v"
proof -
  have "CHR ''='' \<notin> set name" using option_name_chars [OF assms] by blast
  then have "strchr (name @ r) (CHR ''='') = strchr r (CHR ''='')" for r
    by (induction name) auto
  from this [of "[]"] this [of "''='' @ the v"] show ?thesis by (cases v) simp_all
qed

lemma conf_len_req: "option_name name \<Longrightarrow> conf_len (req_text (name, v)) = length name"
  using strchr_req [of name v] by (cases v) (simp_all add: conf_len_def)

lemma line_tail_hd: "\<exists>c r. line_tail s = c # r \<and> (c = CHR ''='' \<or> c = SPACE)"
  by (cases s) (simp_all add: line_tail_def)

lemma setting_config_line:
  assumes "option_name n'" and "entry_ok (name, s)"
  shows "setting (req_text (n', v)) (config_line (name, s) @ [NL]) = (if n' = name then Some (res_for s) else None)"
proof -
  have name: "option_name name" using assms(2) by (simp add: entry_ok_def)
  obtain c r where t: "line_tail s = c # r" "c = CHR ''='' \<or> c = SPACE" using line_tail_hd by blast
  have "take (length n') (req_text (n', v)) = n'" by (cases v) simp_all
  then have eq: "setting (req_text (n', v)) (config_line (name, s) @ [NL]) =
      (if take (length n') (name @ line_tail s) = n'
       then match_val init_res (drop (length n') (name @ line_tail s)) else None)"
    by (simp add: setting_def strstr_config_line [OF name] conf_len_req [OF assms(1)] strncmp_eq_def)
  show ?thesis
  proof (cases "n' = name")
    case True
    then show ?thesis using eq assms(2) match_val_tail [of s] by (simp add: entry_ok_def)
  next
    case False
    have "match_val init_res (drop (length n') (name @ line_tail s)) = None"
      if p: "take (length n') (name @ line_tail s) = n'"
    proof (cases "length n' < length name")
      case True
      then have "char_at (drop (length n') (name @ line_tail s)) 0 = name ! length n'"
        by (simp add: char_at_def nth_append)
      moreover have "name ! length n' \<in> set name" using True by simp
      ultimately show ?thesis
        using option_name_chars [OF name] by (auto simp: match_val_def Let_def)
    next
      case len: False
      then have "length name < length n'"
        using False p by (metis append_eq_conv_conj linorder_neqE_nat take_append)
      then obtain k where "length n' = Suc (length name + k)" using less_imp_Suc_add by blast
      then have "n' = name @ c # take k r" using p t(1) by simp
      then have "c \<in> set n'" by simp
      then show ?thesis using option_name_chars [OF assms(1)] t(2) by blast
    qed
    then show ?thesis using eq False by simp
  qed
qed

lemma first_setting_config:
  assumes "option_name n'" and "\<forall>x \<in> set cfg. entry_ok x"
  shows "first_setting (req_text (n', v)) (map (\<lambda>x. config_line x @ [NL]) cfg) =
    map_option res_for (map_of cfg n')"
  using assms(2)
proof (induction cfg)
  case (Cons x cfg)
  then show ?case using setting_config_line [OF assms(1), of "fst x" "snd x" v] by auto
qed simp

lemma config_line_chars:
  assumes "entry_ok x"
  shows "NL \<notin> set (config_line x) \<and> NUL \<notin> set (config_line x)"
proof -
  obtain name s where x: "x = (name, s)" by (cases x)
  have "NL \<notin> set name \<and> NUL \<notin> set name"
    using assms option_name_chars [of name] by (auto simp: x entry_ok_def)
  then show ?thesis using assms by (cases s) (auto simp: x entry_ok_def plain_value_def)
qed

lemma klines_config:
  assumes "\<forall>x \<in> set cfg. entry_ok x"
  shows "klines (config_text cfg) = map (\<lambda>x. config_line x @ [NL]) cfg"
  using assms
proof (induction cfg)
  case Nil
  then show ?case by (subst klines.simps) (simp add: config_text_def)
next
  case (Cons x cfg)
  have t: "config_text (x # cfg) = config_line x @ NL # config_text cfg" by (simp add: config_text_def)
  have c: "NL \<notin> set (config_line x)" "NUL \<notin> set (config_line x)" "length (config_line x) + 1 < 1024"
    using Cons.prems config_line_chars [of x] by (auto simp: entry_ok_def)
  have "fgets 1024 (config_line x @ NL # config_text cfg) = config_line x @ [NL]"
    by (rule fgets_line [OF c(3,1)])
  moreover have "cstring (config_line x @ [NL]) = config_line x @ [NL]"
    using c(2) by (auto simp: cstring_def takeWhile_eq_all_conv)
  ultimately show ?case using Cons unfolding t by (subst klines.simps) (simp add: Let_def)
qed

lemma unsuitable_iff:
  assumes "option_name name" and "\<forall>x \<in> set cfg. entry_ok x"
  shows "unsuitable (req_text (name, v)) (res_of (map_option res_for (map_of cfg name))) \<longleftrightarrow>
    \<not> satisfied cfg (name, v)"
proof (cases "map_of cfg name")
  case None
  then show ?thesis by (simp add: unsuitable_def satisfied_def res_of_def init_res_def)
next
  case (Some s)
  then have "entry_ok (name, s)" using assms(2) map_of_SomeD by fastforce
  then have "case s of Value w \<Rightarrow> w \<noteq> ''y'' \<and> w \<noteq> ''m'' | _ \<Rightarrow> True"
    by (auto simp: entry_ok_def plain_value_def split: ksetting.split)
  with Some show ?thesis
    by (cases v; cases s)
      (auto simp: unsuitable_def satisfied_def res_of_def res_for_def compare_res_def strchr_req [OF assms(1)]
        Let_def simp del: req_text.simps)
qed


definition ex_cfg :: "(string \<times> ksetting) list" where
  "ex_cfg = [(''CONFIG_SMP'', Yes), (''CONFIG_NUMA'', Unset), (''CONFIG_HZ'', Value ''250'')]"

definition ex_kenv :: kconfig_env where
  "ex_kenv = \<lparr>ke_path = None, ke_exists = (\<lambda>p. p = ''/proc/config.gz''), ke_release = ''5.4.0'',
     ke_file = (\<lambda>_. None), ke_popen = (\<lambda>_. Some (config_text ex_cfg))\<rparr>"


text \<open>An empty array of requirements is read past its end.\<close>

lemma kconfig_check_empty: "\<exists>w. tst_kconfig_check e [] = Undefined w"
  by (simp add: tst_kconfig_check_def array_len_def)

end
