(* ===== verification/Tst_Names.thy ===== *)
theory Tst_Names
  imports Ltp_Prelude
begin

section \<open>Names of error numbers, signals and wait statuses\<close>

text \<open>
  The tables of \<open>lib/errnos.h\<close> and \<open>lib/signame.h\<close> with the numbers of Linux on x86, the lookup
  macro \<open>PAIR_LOOKUP\<close> of \<open>lib/tst_res.c\<close>, and \<open>lib/tst_status.c\<close>.
\<close>

definition pair_lookup :: "(int \<times> string) list \<Rightarrow> int \<Rightarrow> string" where
  "pair_lookup pairs idx = (case map_of pairs idx of None \<Rightarrow> ''???'' | Some name \<Rightarrow> name)"

definition errno_pairs :: "(int \<times> string) list" where
  "errno_pairs =
    [(0, ''SUCCESS''), (1, ''EPERM''), (2, ''ENOENT''), (3, ''ESRCH''),
     (4, ''EINTR''), (5, ''EIO''), (6, ''ENXIO''), (7, ''E2BIG''),
     (8, ''ENOEXEC''), (9, ''EBADF''), (10, ''ECHILD''), (11, ''EAGAIN/EWOULDBLOCK''),
     (12, ''ENOMEM''), (13, ''EACCES''), (14, ''EFAULT''), (15, ''ENOTBLK''),
     (16, ''EBUSY''), (17, ''EEXIST''), (18, ''EXDEV''), (19, ''ENODEV''),
     (20, ''ENOTDIR''), (21, ''EISDIR''), (22, ''EINVAL''), (23, ''ENFILE''),
     (24, ''EMFILE''), (25, ''ENOTTY''), (26, ''ETXTBSY''), (27, ''EFBIG''),
     (28, ''ENOSPC''), (29, ''ESPIPE''), (30, ''EROFS''), (31, ''EMLINK''),
     (32, ''EPIPE''), (33, ''EDOM''), (34, ''ERANGE''), (35, ''EDEADLK''),
     (36, ''ENAMETOOLONG''), (37, ''ENOLCK''), (38, ''ENOSYS''), (39, ''ENOTEMPTY''),
     (40, ''ELOOP''), (42, ''ENOMSG''), (43, ''EIDRM''), (44, ''ECHRNG''),
     (45, ''EL2NSYNC''), (46, ''EL3HLT''), (47, ''EL3RST''), (48, ''ELNRNG''),
     (49, ''EUNATCH''), (50, ''ENOCSI''), (51, ''EL2HLT''), (52, ''EBADE''),
     (53, ''EBADR''), (54, ''EXFULL''), (55, ''ENOANO''), (56, ''EBADRQC''),
     (57, ''EBADSLT''), (59, ''EBFONT''), (60, ''ENOSTR''), (61, ''ENODATA''),
     (62, ''ETIME''), (63, ''ENOSR''), (64, ''ENONET''), (65, ''ENOPKG''),
     (66, ''EREMOTE''), (67, ''ENOLINK''), (68, ''EADV''), (69, ''ESRMNT''),
     (70, ''ECOMM''), (71, ''EPROTO''), (72, ''EMULTIHOP''), (73, ''EDOTDOT''),
     (74, ''EBADMSG''), (75, ''EOVERFLOW''), (76, ''ENOTUNIQ''), (77, ''EBADFD''),
     (78, ''EREMCHG''), (79, ''ELIBACC''), (80, ''ELIBBAD''), (81, ''ELIBSCN''),
     (82, ''ELIBMAX''), (83, ''ELIBEXEC''), (84, ''EILSEQ''), (85, ''ERESTART''),
     (86, ''ESTRPIPE''), (87, ''EUSERS''), (88, ''ENOTSOCK''), (89, ''EDESTADDRREQ''),
     (90, ''EMSGSIZE''), (91, ''EPROTOTYPE''), (92, ''ENOPROTOOPT''), (93, ''EPROTONOSUPPORT''),
     (94, ''ESOCKTNOSUPPORT''), (95, ''EOPNOTSUPP''), (96, ''EPFNOSUPPORT''), (97, ''EAFNOSUPPORT''),
     (98, ''EADDRINUSE''), (99, ''EADDRNOTAVAIL''), (100, ''ENETDOWN''), (101, ''ENETUNREACH''),
     (102, ''ENETRESET''), (103, ''ECONNABORTED''), (104, ''ECONNRESET''), (105, ''ENOBUFS''),
     (106, ''EISCONN''), (107, ''ENOTCONN''), (108, ''ESHUTDOWN''), (109, ''ETOOMANYREFS''),
     (110, ''ETIMEDOUT''), (111, ''ECONNREFUSED''), (112, ''EHOSTDOWN''), (113, ''EHOSTUNREACH''),
     (114, ''EALREADY''), (115, ''EINPROGRESS''), (116, ''ESTALE''), (117, ''EUCLEAN''),
     (118, ''ENOTNAM''), (119, ''ENAVAIL''), (120, ''EISNAM''), (121, ''EREMOTEIO''),
     (122, ''EDQUOT''), (123, ''ENOMEDIUM''), (124, ''EMEDIUMTYPE''), (125, ''ECANCELED''),
     (126, ''ENOKEY''), (127, ''EKEYEXPIRED''), (128, ''EKEYREVOKED''), (129, ''EKEYREJECTED''),
     (130, ''EOWNERDEAD''), (131, ''ENOTRECOVERABLE''), (132, ''ERFKILL''), (133, ''EHWPOISON'')]"

definition tst_strerrno :: "int \<Rightarrow> string" where
  "tst_strerrno err = pair_lookup errno_pairs err"

definition signal_pairs :: "(int \<times> string) list" where
  "signal_pairs =
    [(1, ''SIGHUP''), (2, ''SIGINT''), (3, ''SIGQUIT''), (4, ''SIGILL''),
     (5, ''SIGTRAP''), (6, ''SIGIOT/SIGABRT''), (7, ''SIGBUS''), (8, ''SIGFPE''),
     (9, ''SIGKILL''), (10, ''SIGUSR1''), (11, ''SIGSEGV''), (12, ''SIGUSR2''),
     (13, ''SIGPIPE''), (14, ''SIGALRM''), (15, ''SIGTERM''), (16, ''SIGSTKFLT''),
     (17, ''SIGCHLD''), (18, ''SIGCONT''), (19, ''SIGSTOP''), (20, ''SIGTSTP''),
     (21, ''SIGTTIN''), (22, ''SIGTTOU''), (23, ''SIGURG''), (24, ''SIGXCPU''),
     (25, ''SIGXFSZ''), (26, ''SIGVTALRM''), (27, ''SIGPROF''), (28, ''SIGWINCH''),
     (29, ''SIGIO/SIGPOLL''), (30, ''SIGPWR''), (31, ''SIGSYS/SIGUNUSED'')]"

definition tst_strsig :: "int \<Rightarrow> string" where
  "tst_strsig sig = pair_lookup signal_pairs sig"

subsection \<open>Wait statuses\<close>

text \<open>The macros of \<open>sys/wait.h\<close> on a status of 32 bits.\<close>

definition WTERMSIG :: "int \<Rightarrow> int" where "WTERMSIG status = status mod 128"
definition WEXITSTATUS :: "int \<Rightarrow> int" where "WEXITSTATUS status = status div 256 mod 256"
definition WIFEXITED :: "int \<Rightarrow> bool" where "WIFEXITED status = (WTERMSIG status = 0)"
definition WIFSIGNALED :: "int \<Rightarrow> bool" where
  "WIFSIGNALED status = (0 < WTERMSIG status \<and> WTERMSIG status < 127)"
definition WIFSTOPPED :: "int \<Rightarrow> bool" where "WIFSTOPPED status = (status mod 256 = 127)"
definition WIFCONTINUED :: "int \<Rightarrow> bool" where "WIFCONTINUED status = (status = 0xffff)"

definition exited :: "int \<Rightarrow> string" where
  "exited status = snprintf 32 (''exited with '' @ show_int (WEXITSTATUS status))"

text \<open>The whole status, and not its signal number, is looked up.\<close>

definition signaled :: "int \<Rightarrow> string" where
  "signaled status = snprintf 32 (''killed by '' @ tst_strsig status)"

fun show_hex :: "nat \<Rightarrow> string" where
  "show_hex n = (if n < 16 then [hex_digit n] else show_hex (n div 16) @ [hex_digit (n mod 16)])"

declare show_hex.simps [simp del]

definition invalid :: "int \<Rightarrow> string" where
  "invalid status = snprintf 32 (''invalid status 0x'' @ show_hex (nat (status mod 2 ^ 32)))"

definition tst_strstatus :: "int \<Rightarrow> string" where
  "tst_strstatus status =
     (if WIFEXITED status then exited status
      else if WIFSIGNALED status then signaled status
      else if WIFSTOPPED status then ''is stopped''
      else if WIFCONTINUED status then ''is resumed''
      else invalid status)"

text \<open>A process killed by a signal is named correctly when it left no core dump; with the core
  dump bit set no name is found.\<close>

lemma strstatus_signaled:
  assumes "0 < sig" and "sig < 32"
  shows "tst_strstatus sig = ''killed by '' @ tst_strsig sig"
    and "tst_strstatus (sig + 128) = ''killed by ???''"
proof -
  have "sig \<in> {1..31}" using assms by simp
  then have s: "sig \<in> set [1..31]" by (simp only: set_upto)
  have "list_all (\<lambda>s. tst_strstatus s = ''killed by '' @ tst_strsig s \<and>
      tst_strstatus (s + 128) = ''killed by ???'') [1..31]"
    by code_simp
  then show "tst_strstatus sig = ''killed by '' @ tst_strsig sig"
    "tst_strstatus (sig + 128) = ''killed by ???''"
    using s by (simp_all only: list_all_iff)
qed

end
