(* ===== verification/Tst_Res.thy ===== *)
theory Tst_Res
  imports Tst_Flags Tst_Names
begin

section \<open>tst_res: reporting results\<close>

text \<open>
  \<open>lib/tst_res.c\<close> for a test written against the old library (\<open>tst_test\<close> is NULL).  The state holds the
  static variables of the file and the text written to stdout; the mutex is recursive and
  the model is that of one thread.  A message is the string after the expansion of its
  format.  The names and texts of error numbers, the environment and \<open>errno\<close> are in \<open>res_env\<close>.
\<close>

unbundle bit_operations_syntax

definition VERBOSE :: int where "VERBOSE = 1"
definition NOPASS :: int where "NOPASS = 3"
definition DISCARD :: int where "DISCARD = 4"
definition USERMESG :: nat where "USERMESG = 2048"

lemmas mode_defs = VERBOSE_def NOPASS_def DISCARD_def

record res_env =
  e_tcid :: string
  e_toutput :: "string option"
  e_colorize :: "string option"
  e_tty :: bool
  e_errno :: int
  e_test_errno :: int
  e_test_return :: int
  e_strerror :: "int \<Rightarrow> string"

record res_state =
  T_exitval :: int
  passed_cnt :: nat
  T_mode :: int
  first_time :: bool
  color :: int
  Buffered :: bool
  Last_tcid :: string
  Last_num :: int
  Last_type :: int
  Last_mesg :: string
  tst_count :: int
  tst_brk_entered :: nat
  res_out :: string

definition res_init :: res_state where
  "res_init = \<lparr>T_exitval = 0, passed_cnt = 0, T_mode = VERBOSE, first_time = True, color = 0,
     Buffered = False, Last_tcid = [], Last_num = 0, Last_type = 0, Last_mesg = [],
     tst_count = 0, tst_brk_entered = 0, res_out = []\<rparr>"

text \<open>\<open>EXPAND_VAR_ARGS\<close>: the message cut to the buffer; an empty one fails the assertion.\<close>

definition expand :: "nat \<Rightarrow> string \<Rightarrow> string outcome" where
  "expand n mesg = (let s = snprintf n mesg in if s = [] then Aborts else Ret s)"

definition has_flag :: "int \<Rightarrow> int \<Rightarrow> bool" where
  "has_flag ttype f = (ttype AND f \<noteq> 0)"

subsection \<open>Printing one result\<close>

definition errno_text :: "res_env \<Rightarrow> string \<Rightarrow> int \<Rightarrow> string" where
  "errno_text e what n = '': '' @ what @ ''='' @ tst_strerrno n @ ''('' @ show_int n @ ''): '' @ e_strerror e n"

definition return_errno :: "int \<Rightarrow> int" where
  "return_errno r = (if r < 0 then - wrap32 r else wrap32 r)"

definition result_line :: "res_env \<Rightarrow> int \<Rightarrow> bool \<Rightarrow> string \<Rightarrow> int \<Rightarrow> int \<Rightarrow> string \<Rightarrow> string" where
  "result_line e tmode coloured tcid tnum ttype tmesg =
     ljust 8 tcid @ '' '' @ rjust 4 (show_int tnum) @
     (if tmode = VERBOSE then ''  '' else ''       '') @
     (if coloured then tst_ttype2color ttype @ strttype ttype @ ansi ''0'' else strttype ttype) @
     ''  :  '' @ tmesg @
     (if has_flag ttype TERRNO then errno_text e ''errno'' (e_errno e) else []) @
     (if has_flag ttype TTERRNO then errno_text e ''TEST_ERRNO'' (e_test_errno e) else []) @
     (if has_flag ttype TRERRNO then errno_text e ''TEST_RETURN'' (return_errno (e_test_return e)) else [])"

text \<open>The size is checked after each part; as it only grows, the last check covers the others.\<close>

definition tst_print :: "res_env \<Rightarrow> string \<Rightarrow> int \<Rightarrow> int \<Rightarrow> string \<Rightarrow> res_state \<Rightarrow> res_state outcome" where
  "tst_print e tcid tnum ttype tmesg st =
     (let r = TTYPE_RESULT ttype; st = st\<lparr>T_exitval := T_exitval st OR r\<rparr>
      in if T_mode st = DISCARD \<or> (T_mode st = NOPASS \<and> r \<noteq> TFAIL \<and> r \<noteq> TBROK \<and> r \<noteq> TWARN)
         then Ret st
         else let (enabled, c) = tst_color_enabled (e_colorize e) (e_tty e) (color st);
                  line = result_line e (T_mode st) (enabled \<noteq> 0) tcid tnum ttype tmesg
              in if length line + 1 \<ge> USERMESG then Aborts
                 else Ret (st\<lparr>color := c, res_out := res_out st @ line @ [NL]\<rparr>))"

definition check_env :: "res_env \<Rightarrow> res_state \<Rightarrow> res_state" where
  "check_env e st =
     (if \<not> first_time st then st
      else let st = st\<lparr>first_time := False\<rparr>
           in case e_toutput e of
                None \<Rightarrow> st\<lparr>T_mode := VERBOSE\<rparr>
              | Some v \<Rightarrow> if v = ''NOPASS'' then st\<lparr>T_mode := NOPASS\<rparr>
                          else if v = ''DISCARD'' then st\<lparr>T_mode := DISCARD\<rparr>
                          else st\<lparr>T_mode := VERBOSE\<rparr>)"

definition tst_condense :: "res_env \<Rightarrow> int \<Rightarrow> int \<Rightarrow> string \<Rightarrow> res_state \<Rightarrow> res_state outcome" where
  "tst_condense e tnum ttype tmesg st =
     (let r = TTYPE_RESULT ttype;
          keep = (\<lambda>st. Ret (st\<lparr>Last_tcid := e_tcid e, Last_num := tnum, Last_type := r,
                               Last_mesg := tmesg, Buffered := True\<rparr>))
      in if Buffered st
         then if Last_tcid st = e_tcid e \<and> Last_type st = r \<and> Last_mesg st = tmesg then Ret st
              else bind_outcome (tst_print e (Last_tcid st) (Last_num st) (Last_type st) (Last_mesg st) st) keep
         else keep st)"

definition tst_old_flush :: "res_env \<Rightarrow> res_state \<Rightarrow> res_state outcome" where
  "tst_old_flush e st =
     (if Buffered st \<and> T_mode st = NOPASS
      then bind_outcome (tst_print e (Last_tcid st) (Last_num st) (Last_type st) (Last_mesg st) st)
             (\<lambda>st. Ret (st\<lparr>Buffered := False\<rparr>))
      else Ret st)"

subsection \<open>Reporting a result\<close>

definition result_mesg :: "string option \<Rightarrow> int \<Rightarrow> int \<Rightarrow> string \<Rightarrow> string outcome" where
  "result_mesg file lineno r mesg =
     (let pre = (case file of Some f \<Rightarrow> if r \<noteq> TPASS \<and> r \<noteq> TINFO then f @ '':'' @ show_int lineno @ '': '' else []
                 | None \<Rightarrow> [])
      in if length pre \<ge> USERMESG then Undefined ''tmesg overflows''
         else bind_outcome (expand (USERMESG - length pre) mesg) (\<lambda>s. Ret (pre @ s)))"

text \<open>The switch over the display type.\<close>

definition display :: "res_env \<Rightarrow> int \<Rightarrow> string \<Rightarrow> res_state \<Rightarrow> res_state outcome" where
  "display e ttype tmesg st =
     (if T_mode st = DISCARD then Ret st
      else if T_mode st = NOPASS then tst_condense e (tst_count st + 1) ttype tmesg st
      else tst_print e (e_tcid e) (tst_count st + 1) ttype tmesg st)"

definition tst_res_old ::
  "res_env \<Rightarrow> string option \<Rightarrow> int \<Rightarrow> int \<Rightarrow> string \<Rightarrow> res_state \<Rightarrow> res_state outcome" where
  "tst_res_old e file lineno ttype mesg st =
     (let r = TTYPE_RESULT ttype
      in bind_outcome (result_mesg file lineno r mesg) (\<lambda>tmesg.
         let st = st\<lparr>T_exitval := T_exitval st OR r\<rparr>;
             st = (if r = TPASS then st\<lparr>passed_cnt := Suc (passed_cnt st)\<rparr> else st);
             st = check_env e st
         in if r = TWARN \<or> r = TINFO then tst_print e (e_tcid e) 0 ttype tmesg st
            else bind_outcome
                   (if tst_count st < 0
                    then tst_print e (e_tcid e) 0 TWARN ''tst_res(): tst_count < 0 is not valid'' st
                    else Ret st) (\<lambda>st.
                 bind_outcome (display e ttype tmesg st) (\<lambda>st.
                 Ret (st\<lparr>tst_count := tst_count st + 1\<rparr>)))))"

definition tst_resm :: "res_env \<Rightarrow> string option \<Rightarrow> int \<Rightarrow> int \<Rightarrow> string \<Rightarrow> res_state \<Rightarrow> res_state outcome" where
  "tst_resm e file lineno ttype mesg st =
     bind_outcome (expand USERMESG mesg) (\<lambda>tmesg. tst_res_old e file lineno ttype tmesg st)"

subsection \<open>Ending the test\<close>

text \<open>How a call ends that may not return: \<open>Goes st\<close> when it returns, \<open>Ended status st\<close> when the
  process exits.\<close>

datatype flow = Goes res_state | Ended int res_state

definition tst_exit :: "res_env \<Rightarrow> res_state \<Rightarrow> flow outcome" where
  "tst_exit e st =
     bind_outcome (tst_old_flush e st) (\<lambda>st.
     let v = T_exitval st AND NOT TINFO;
         v = (if v = TCONF \<and> passed_cnt st \<noteq> 0 then v AND NOT TCONF else v)
     in Ret (Ended v (st\<lparr>T_exitval := v\<rparr>)))"

text \<open>The process that \<open>fork\<close> returns in: \<open>child\<close> is its return value.\<close>

definition tst_fork :: "res_env \<Rightarrow> int \<Rightarrow> res_state \<Rightarrow> res_state outcome" where
  "tst_fork e child st =
     bind_outcome (tst_old_flush e st) (\<lambda>st. Ret (if child = 0 then st\<lparr>T_exitval := 0\<rparr> else st))"

definition tst_vfork :: "res_env \<Rightarrow> res_state \<Rightarrow> res_state outcome" where
  "tst_vfork e st = tst_old_flush e st"

text \<open>A cleanup function runs on the state and may itself report, break or exit.\<close>

type_synonym cleanup = "(res_state \<Rightarrow> flow outcome) option"

definition run_cleanup :: "cleanup \<Rightarrow> res_state \<Rightarrow> flow outcome" where
  "run_cleanup func st =
     (case func of
        None \<Rightarrow> Ret (Goes st)
      | Some f \<Rightarrow>
          bind_outcome (f (st\<lparr>tst_brk_entered := Suc (tst_brk_entered st)\<rparr>)) (\<lambda>fl.
          case fl of
            Ended v st \<Rightarrow> Ret (Ended v st)
          | Goes st \<Rightarrow> Ret (Goes (st\<lparr>tst_brk_entered := tst_brk_entered st - 1\<rparr>))))"

definition brk_type :: "res_env \<Rightarrow> int \<Rightarrow> res_state \<Rightarrow> (int \<times> res_state) outcome" where
  "brk_type e ttype st =
     (let r = TTYPE_RESULT ttype
      in if r \<noteq> TFAIL \<and> r \<noteq> TBROK \<and> r \<noteq> TCONF
         then bind_outcome
                (tst_print e (e_tcid e) 0 TWARN
                   (''tst_brk__: Invalid Type: '' @ show_int r @ ''. Using TBROK'') st) (\<lambda>st.
              Ret ((ttype AND NOT r) OR TBROK, st))
         else Ret (ttype, st))"

definition brk_remaining ::
  "res_env \<Rightarrow> string option \<Rightarrow> int \<Rightarrow> int \<Rightarrow> int \<Rightarrow> res_state \<Rightarrow> res_state outcome" where
  "brk_remaining e file lineno r ttype st =
     (if tst_brk_entered st = 0
      then if r = TCONF
           then tst_res_old e file lineno ttype ''Remaining cases not appropriate for configuration'' st
           else if r = TBROK then tst_res_old e file lineno TBROK ''Remaining cases broken'' st
           else Ret st
      else Ret st)"

definition tst_brk_old ::
  "res_env \<Rightarrow> string option \<Rightarrow> int \<Rightarrow> int \<Rightarrow> cleanup \<Rightarrow> string \<Rightarrow> res_state \<Rightarrow> flow outcome" where
  "tst_brk_old e file lineno ttype func mesg st =
     bind_outcome (expand USERMESG mesg) (\<lambda>tmesg.
     bind_outcome (brk_type e ttype st) (\<lambda>(ttype', st).
     bind_outcome (tst_res_old e file lineno ttype' tmesg st) (\<lambda>st.
     bind_outcome (brk_remaining e file lineno (TTYPE_RESULT ttype) ttype' st) (\<lambda>st.
     bind_outcome (run_cleanup func st) (\<lambda>fl.
       case fl of
         Ended v st \<Rightarrow> Ret (Ended v st)
       | Goes st \<Rightarrow> if tst_brk_entered st = 0 then tst_exit e st else Ret (Goes st))))))"

text \<open>\<open>tst_brkm\<close> calls \<open>abort ()\<close> when \<open>tst_brk_old\<close> returns.\<close>

definition tst_brkm ::
  "res_env \<Rightarrow> string option \<Rightarrow> int \<Rightarrow> int \<Rightarrow> cleanup \<Rightarrow> string \<Rightarrow> res_state \<Rightarrow> flow outcome" where
  "tst_brkm e file lineno ttype func mesg st =
     bind_outcome (expand USERMESG mesg) (\<lambda>tmesg.
     bind_outcome (tst_brk_old e file lineno ttype func tmesg st) (\<lambda>fl.
       case fl of Ended v st \<Rightarrow> Ret (Ended v st) | Goes st \<Rightarrow> Aborts))"

definition tst_require_root :: "res_env \<Rightarrow> int \<Rightarrow> res_state \<Rightarrow> flow outcome" where
  "tst_require_root e euid st =
     (if euid \<noteq> 0 then tst_brkm e (Some ''tst_res.c'') 605 TCONF None ''Test needs to be run as root'' st
      else Ret (Goes st))"

text \<open>What \<open>waitpid\<close> stores, or the message of \<open>safe_waitpid\<close>, which contains an address, when it
  fails.\<close>

definition tst_record_childstatus ::
  "res_env \<Rightarrow> cleanup \<Rightarrow> int \<Rightarrow> string + int \<Rightarrow> res_state \<Rightarrow> flow outcome" where
  "tst_record_childstatus e func child answer st =
     (case answer of
        Inl mesg \<Rightarrow> tst_brkm e (Some ''safe_macros.c'') 638 (TBROK OR TERRNO) func mesg st
      | Inr status \<Rightarrow>
          if WIFEXITED status
          then let r = TTYPE_RESULT (WEXITSTATUS status);
                   st = st\<lparr>T_exitval := T_exitval st OR r\<rparr>;
                   info = (\<lambda>c mesg st. if c then tst_resm e (Some ''tst_res.c'') 443 TINFO mesg st else Ret st)
               in bind_outcome (info (r = TPASS) ''Child process returned TPASS'' st) (\<lambda>st.
                  bind_outcome (info (has_flag r TFAIL) ''Child process returned TFAIL'' st) (\<lambda>st.
                  bind_outcome (info (has_flag r TBROK) ''Child process returned TBROK'' st) (\<lambda>st.
                  bind_outcome (info (has_flag r TCONF) ''Child process returned TCONF'' st) (\<lambda>st.
                  Ret (Goes st)))))
          else tst_brkm e (Some ''tst_res.c'') 454 TBROK func
                 (''child process('' @ show_int child @ '') killed by unexpected signal '' @
                  tst_strsig (WTERMSIG status) @ ''('' @ show_int (WTERMSIG status) @ '')'') st)"

subsection \<open>Dumping bytes\<close>

text \<open>The messages that \<open>tst_resm_hexd_\<close> reports one after the other: \<open>line\<close> is the text from
  \<open>tmesg\<close> up to \<open>pmesg\<close>, \<open>i\<close> the number of the next byte of \<open>bs\<close>.\<close>

definition hex_byte :: "8 word \<Rightarrow> string" where
  "hex_byte b = [hex_digit (unat b div 16), hex_digit (unat b mod 16)]"

fun hexd_loop :: "nat \<Rightarrow> nat \<Rightarrow> string \<Rightarrow> 8 word list \<Rightarrow> string list" where
  "hexd_loop n i line [] = []"
| "hexd_loop n i line (b # bs) =
     (let line = (if line \<noteq> [] then line @ '' '' else line) @ hex_byte b
      in if (i + 1) mod 16 = 0 \<or> i + 1 = n then line # hexd_loop n (i + 1) [] bs
         else hexd_loop n (i + 1) line bs)"

definition hexd_messages :: "string \<Rightarrow> 8 word list \<Rightarrow> string list" where
  "hexd_messages mesg bs =
     (let n = length bs
      in if n > 16 \<or> n = 0 \<or> length mesg + n * 3 \<ge> USERMESG
         then mesg # hexd_loop n 0 [] bs
         else hexd_loop n 0 mesg bs)"

fun report_all :: "res_env \<Rightarrow> string option \<Rightarrow> int \<Rightarrow> int \<Rightarrow> string list \<Rightarrow> res_state \<Rightarrow> res_state outcome" where
  "report_all e file lineno ttype [] st = Ret st"
| "report_all e file lineno ttype (m # ms) st =
     bind_outcome (tst_res_old e file lineno ttype m st) (\<lambda>st. report_all e file lineno ttype ms st)"

definition tst_resm_hexd ::
  "res_env \<Rightarrow> string option \<Rightarrow> int \<Rightarrow> int \<Rightarrow> 8 word list \<Rightarrow> string \<Rightarrow> res_state \<Rightarrow> res_state outcome" where
  "tst_resm_hexd e file lineno ttype bs mesg st =
     bind_outcome (expand USERMESG mesg) (\<lambda>tmesg.
     report_all e file lineno ttype (hexd_messages tmesg bs) st)"

subsection \<open>Lines that fit\<close>

lemma TTYPE_RESULT_idem [simp]: "TTYPE_RESULT (TTYPE_RESULT t) = TTYPE_RESULT t"
  by (simp add: TTYPE_RESULT_def and.assoc)

lemma no_flag_result [simp]:
  "\<not> has_flag (TTYPE_RESULT t) TERRNO" "\<not> has_flag (TTYPE_RESULT t) TTERRNO"
  "\<not> has_flag (TTYPE_RESULT t) TRERRNO"
  by (simp_all add: has_flag_def TTYPE_RESULT_def ttype_defs and.assoc)

definition fits :: "res_env \<Rightarrow> string \<Rightarrow> int \<Rightarrow> int \<Rightarrow> string \<Rightarrow> bool" where
  "fits e tcid tnum ttype tmesg \<longleftrightarrow> length (result_line e NOPASS True tcid tnum ttype tmesg) + 1 < USERMESG"

lemma length_result_line_le:
  "length (result_line e m c tcid n t mesg) \<le> length (result_line e NOPASS True tcid n t mesg)"
  by (auto simp: result_line_def mode_defs)

lemma fits_result:
  "fits e tcid n t mesg \<Longrightarrow> fits e' tcid n (TTYPE_RESULT t) mesg"
  by (auto simp: fits_def result_line_def strttype_def tst_ttype2color_def mode_defs Let_def)

lemma tst_print_Ret:
  assumes "fits e tcid n t mesg"
  shows "\<exists>c out. tst_print e tcid n t mesg st =
    Ret (st\<lparr>T_exitval := T_exitval st OR TTYPE_RESULT t, color := c, res_out := out\<rparr>)"
proof -
  obtain en c where col: "tst_color_enabled (e_colorize e) (e_tty e) (color st) = (en, c)"
    by (cases "tst_color_enabled (e_colorize e) (e_tty e) (color st)")
  have "length (result_line e (T_mode st) (en \<noteq> 0) tcid n t mesg) + 1 < USERMESG"
    using assms length_result_line_le [of e "T_mode st" "en \<noteq> 0" tcid n t mesg] by (simp add: fits_def)
  then have "tst_print e tcid n t mesg st =
        Ret (st\<lparr>T_exitval := T_exitval st OR TTYPE_RESULT t\<rparr>) \<or>
      (\<exists>out. tst_print e tcid n t mesg st =
        Ret (st\<lparr>T_exitval := T_exitval st OR TTYPE_RESULT t, color := c, res_out := out\<rparr>))"
    by (simp add: tst_print_def col Let_def) blast
  then show ?thesis
  proof
    assume "tst_print e tcid n t mesg st = Ret (st\<lparr>T_exitval := T_exitval st OR TTYPE_RESULT t\<rparr>)"
    then show ?thesis by (intro exI [of _ "color st"] exI [of _ "res_out st"]) simp
  qed blast
qed

subsection \<open>The exit status\<close>

text \<open>What a buffered result has already contributed, and that it can be printed.\<close>

definition res_inv :: "res_state \<Rightarrow> bool" where
  "res_inv st \<longleftrightarrow> 0 \<le> tst_count st \<and>
     (Buffered st \<longrightarrow> T_exitval st OR Last_type st = T_exitval st \<and>
        TTYPE_RESULT (Last_type st) = Last_type st \<and>
        (\<forall>e. fits e (Last_tcid st) (Last_num st) (Last_type st) (Last_mesg st)))"

text \<open>One state follows another when only more results have been added.\<close>

definition adds :: "int \<Rightarrow> res_state \<Rightarrow> res_state \<Rightarrow> bool" where
  "adds r st st' \<longleftrightarrow> T_exitval st' = T_exitval st OR r \<and> passed_cnt st' = passed_cnt st \<and>
     tst_count st' = tst_count st \<and> tst_brk_entered st' = tst_brk_entered st \<and> T_mode st' = T_mode st"

lemma print_adds:
  assumes "fits e tcid n t mesg" and "res_inv st"
  shows "\<exists>st'. tst_print e tcid n t mesg st = Ret st' \<and> adds (TTYPE_RESULT t) st st' \<and> res_inv st'"
proof -
  obtain c out where "tst_print e tcid n t mesg st =
      Ret (st\<lparr>T_exitval := T_exitval st OR TTYPE_RESULT t, color := c, res_out := out\<rparr>)"
    using tst_print_Ret [OF assms(1)] by blast
  moreover have "(x OR y) OR z = x OR y" if "x OR z = x" for x y z :: int
    using that by (metis or.assoc or.commute)
  ultimately show ?thesis using assms(2) by (auto simp: adds_def res_inv_def)
qed

lemma flush_adds:
  assumes "res_inv st"
  shows "\<exists>st'. tst_old_flush e st = Ret st' \<and> adds 0 st st' \<and> res_inv st'"
proof (cases "Buffered st \<and> T_mode st = NOPASS")
  case True
  then have "fits e (Last_tcid st) (Last_num st) (Last_type st) (Last_mesg st)"
    and t: "T_exitval st OR TTYPE_RESULT (Last_type st) = T_exitval st"
    using assms by (auto simp: res_inv_def)
  from print_adds [OF this(1) assms] obtain st' where
    "tst_print e (Last_tcid st) (Last_num st) (Last_type st) (Last_mesg st) st = Ret st'"
    "adds (TTYPE_RESULT (Last_type st)) st st'" "res_inv st'" by blast
  with True t show ?thesis by (auto simp: tst_old_flush_def adds_def res_inv_def)
next
  case False
  then show ?thesis using assms by (auto simp: tst_old_flush_def adds_def)
qed

lemma condense_adds:
  assumes "fits e (e_tcid e) n t mesg" and "res_inv st" and "T_exitval st OR TTYPE_RESULT t = T_exitval st"
  shows "\<exists>st'. tst_condense e n t mesg st = Ret st' \<and> adds 0 st st' \<and> res_inv st'"
proof -
  define keep where "keep = (\<lambda>s :: res_state. s\<lparr>Last_tcid := e_tcid e, Last_num := n,
    Last_type := TTYPE_RESULT t, Last_mesg := mesg, Buffered := True\<rparr>)"
  have k: "adds 0 st (keep s) \<and> res_inv (keep s)" if "adds 0 st s" "res_inv s" for s
    using that assms(3) fits_result [OF assms(1)] by (auto simp: keep_def adds_def res_inv_def)
  have refl: "adds 0 st st" by (simp add: adds_def)
  have buf: "\<exists>s. tst_print e (Last_tcid st) (Last_num st) (Last_type st) (Last_mesg st) st = Ret s \<and>
      adds 0 st s \<and> res_inv s" if "Buffered st"
  proof -
    have "fits e (Last_tcid st) (Last_num st) (Last_type st) (Last_mesg st)"
      "T_exitval st OR TTYPE_RESULT (Last_type st) = T_exitval st"
      using that assms(2) by (auto simp: res_inv_def)
    then show ?thesis using print_adds [OF _ assms(2)] by (force simp: adds_def)
  qed
  have "tst_condense e n t mesg st =
      (if Buffered st
       then if Last_tcid st = e_tcid e \<and> Last_type st = TTYPE_RESULT t \<and> Last_mesg st = mesg then Ret st
            else bind_outcome (tst_print e (Last_tcid st) (Last_num st) (Last_type st) (Last_mesg st) st)
                   (\<lambda>s. Ret (keep s))
       else Ret (keep st))"
    by (simp add: tst_condense_def keep_def Let_def)
  then show ?thesis using k refl assms(2) buf by (cases "Buffered st") auto
qed

lemma check_env_keeps:
  "T_exitval (check_env e st) = T_exitval st" "passed_cnt (check_env e st) = passed_cnt st"
  "tst_count (check_env e st) = tst_count st" "tst_brk_entered (check_env e st) = tst_brk_entered st"
  "res_inv (check_env e st) = res_inv st"
  by (auto simp: check_env_def res_inv_def Let_def split: option.split)

lemma display_adds:
  assumes "fits e (e_tcid e) (tst_count st + 1) t mesg" and "res_inv st"
    and "T_exitval st OR TTYPE_RESULT t = T_exitval st"
  shows "\<exists>st'. display e t mesg st = Ret st' \<and> adds 0 st st' \<and> res_inv st'"
proof -
  have "\<exists>st'. tst_print e (e_tcid e) (tst_count st + 1) t mesg st = Ret st' \<and> adds 0 st st' \<and> res_inv st'"
    using print_adds [OF assms(1,2)] assms(3) by (force simp: adds_def)
  then show ?thesis using condense_adds [OF assms] assms(2)
    by (auto simp: display_def adds_def)
qed

text \<open>A reported result adds its bits, a pass counts, and no result is lost in the buffer.\<close>

lemma res_old_step:
  assumes "result_mesg file lineno (TTYPE_RESULT t) mesg = Ret m" and "res_inv st"
    and "fits e (e_tcid e) 0 t m" and "fits e (e_tcid e) (tst_count st + 1) t m"
  shows "\<exists>st'. tst_res_old e file lineno t mesg st = Ret st' \<and> res_inv st' \<and>
    T_exitval st' = T_exitval st OR TTYPE_RESULT t \<and>
    passed_cnt st' = passed_cnt st + of_bool (TTYPE_RESULT t = TPASS) \<and>
    tst_brk_entered st' = tst_brk_entered st \<and>
    tst_count st \<le> tst_count st' \<and> tst_count st' \<le> tst_count st + 1"
proof -
  let ?r = "TTYPE_RESULT t"
  define s1 where "s1 = (let s = st\<lparr>T_exitval := T_exitval st OR ?r\<rparr>
    in if ?r = TPASS then s\<lparr>passed_cnt := Suc (passed_cnt s)\<rparr> else s)"
  define s2 where "s2 = check_env e s1"
  have absorb: "(x OR y) OR z = x OR y" if "x OR z = x" for x y z :: int
    using that by (metis or.assoc or.commute)
  have s1: "res_inv s1" "T_exitval s1 = T_exitval st OR ?r" "tst_count s1 = tst_count st"
    "passed_cnt s1 = passed_cnt st + of_bool (?r = TPASS)" "tst_brk_entered s1 = tst_brk_entered st"
    using assms(2) by (auto simp: s1_def Let_def res_inv_def absorb)
  then have s2: "res_inv s2" "T_exitval s2 = T_exitval st OR ?r" "tst_count s2 = tst_count st"
    "passed_cnt s2 = passed_cnt st + of_bool (?r = TPASS)" "tst_brk_entered s2 = tst_brk_entered st"
    by (simp_all add: s2_def check_env_keeps)
  have idem: "T_exitval s2 OR ?r = T_exitval s2" by (simp add: s2(2) or.assoc)
  have eq: "tst_res_old e file lineno t mesg st =
      (if ?r = TWARN \<or> ?r = TINFO then tst_print e (e_tcid e) 0 t m s2
       else bind_outcome (display e t m s2) (\<lambda>s. Ret (s\<lparr>tst_count := tst_count s + 1\<rparr>)))"
    using assms(1,2) s2(3) by (simp add: tst_res_old_def Let_def s1_def s2_def res_inv_def)
  show ?thesis
  proof (cases "?r = TWARN \<or> ?r = TINFO")
    case True
    then show ?thesis using print_adds [OF assms(3) s2(1)] s2 idem by (force simp: eq adds_def)
  next
    case False
    obtain s3 where s3: "display e t m s2 = Ret s3" "adds 0 s2 s3" "res_inv s3"
      using display_adds [of e s2 t m] assms(4) s2(1,3) idem by auto
    then have "res_inv (s3\<lparr>tst_count := tst_count s3 + 1\<rparr>)" by (auto simp: res_inv_def)
    then show ?thesis using False s3 s2 by (simp add: eq adds_def)
  qed
qed

text \<open>A message that is not empty, fits into the buffer with its file and line, and gives lines
  that fit for all result numbers up to \<open>n\<close>.\<close>

definition reportable :: "res_env \<Rightarrow> string option \<Rightarrow> int \<Rightarrow> int \<Rightarrow> string \<Rightarrow> nat \<Rightarrow> bool" where
  "reportable e file lineno t mesg n =
     (case result_mesg file lineno (TTYPE_RESULT t) (snprintf USERMESG mesg) of
        Ret m \<Rightarrow> mesg \<noteq> [] \<and> list_all (\<lambda>k. fits e (e_tcid e) (int k) t m) [0..<Suc n]
      | _ \<Rightarrow> False)"

lemma snprintf_nonempty: "mesg \<noteq> [] \<Longrightarrow> snprintf USERMESG mesg \<noteq> []"
  by (simp add: snprintf_def USERMESG_def)

lemma expand_Ret: "mesg \<noteq> [] \<Longrightarrow> expand USERMESG mesg = Ret (snprintf USERMESG mesg)"
  by (simp add: expand_def snprintf_nonempty)

lemma snprintf_idem: "snprintf n (snprintf n s) = snprintf n s"
  by (simp add: snprintf_def)

definition added :: "int \<Rightarrow> res_state \<Rightarrow> res_state \<Rightarrow> bool" where
  "added t st st' \<longleftrightarrow> res_inv st' \<and> T_exitval st' = T_exitval st OR TTYPE_RESULT t \<and>
    passed_cnt st' = passed_cnt st + of_bool (TTYPE_RESULT t = TPASS) \<and>
    tst_brk_entered st' = tst_brk_entered st \<and>
    tst_count st \<le> tst_count st' \<and> tst_count st' \<le> tst_count st + 1"

lemma res_old_added:
  assumes "reportable e file lineno t mesg n" and "res_inv st" and "tst_count st < int n"
  shows "\<exists>st'. tst_res_old e file lineno t (snprintf USERMESG mesg) st = Ret st' \<and> added t st st'"
proof -
  obtain m where m: "result_mesg file lineno (TTYPE_RESULT t) (snprintf USERMESG mesg) = Ret m"
    "\<forall>k \<le> n. fits e (e_tcid e) (int k) t m"
    using assms(1) by (auto simp: reportable_def list_all_iff less_Suc_eq_le simp del: upt_Suc split: outcome.splits)
  have c: "0 \<le> tst_count st" using assms(2) by (simp add: res_inv_def)
  have "fits e (e_tcid e) 0 t m" using m(2) [rule_format, of 0] by simp
  moreover have "fits e (e_tcid e) (tst_count st + 1) t m"
  proof -
    have "nat (tst_count st + 1) \<le> n" "int (nat (tst_count st + 1)) = tst_count st + 1"
      using c assms(3) by linarith+
    then show ?thesis using m(2) by metis
  qed
  ultimately show ?thesis using res_old_step [OF m(1) assms(2)] by (simp add: added_def)
qed

lemma resm_added:
  assumes "reportable e file lineno t mesg n" and "res_inv st" and "tst_count st < int n"
  shows "\<exists>st'. tst_resm e file lineno t mesg st = Ret st' \<and> added t st st'"
proof -
  have "mesg \<noteq> []" using assms(1) by (auto simp: reportable_def split: outcome.splits)
  then show ?thesis using res_old_added [OF assms] by (simp add: tst_resm_def expand_Ret)
qed

record resm_call =
  r_file :: "string option"
  r_line :: int
  r_type :: int
  r_mesg :: string

fun run_reports :: "(res_env \<times> resm_call) list \<Rightarrow> res_state \<Rightarrow> res_state outcome" where
  "run_reports [] st = Ret st"
| "run_reports ((e, r) # rs) st =
     bind_outcome (tst_resm e (r_file r) (r_line r) (r_type r) (r_mesg r) st) (run_reports rs)"

definition result_list :: "(res_env \<times> resm_call) list \<Rightarrow> int list" where
  "result_list rs = map (\<lambda>x. TTYPE_RESULT (r_type (snd x))) rs"

definition all_reportable :: "nat \<Rightarrow> (res_env \<times> resm_call) list \<Rightarrow> bool" where
  "all_reportable n rs =
     list_all (\<lambda>x. reportable (fst x) (r_file (snd x)) (r_line (snd x)) (r_type (snd x)) (r_mesg (snd x)) n) rs"

text \<open>The status that a list of results stands for.\<close>

definition exit_status :: "int list \<Rightarrow> int" where
  "exit_status vs =
     (let v = fold (\<lambda>r v. v OR r) vs 0 AND NOT TINFO in if v = TCONF \<and> TPASS \<in> set vs then 0 else v)"

lemma run_reports_added:
  assumes "all_reportable n rs" and "res_inv st" and "tst_count st + int (length rs) \<le> int n"
  shows "\<exists>st'. run_reports rs st = Ret st' \<and> res_inv st' \<and>
    T_exitval st' = fold (\<lambda>r v. v OR r) (result_list rs) (T_exitval st) \<and>
    passed_cnt st' = passed_cnt st + length (filter (\<lambda>r. r = TPASS) (result_list rs))"
  using assms
proof (induction rs arbitrary: st)
  case (Cons x rs)
  obtain e r where x: "x = (e, r)" by (cases x)
  have "reportable e (r_file r) (r_line r) (r_type r) (r_mesg r) n"
    using Cons.prems(1) by (simp add: all_reportable_def x)
  moreover have "tst_count st < int n" using Cons.prems(3) by simp
  ultimately obtain s where s: "tst_resm e (r_file r) (r_line r) (r_type r) (r_mesg r) st = Ret s"
      "added (r_type r) st s"
    using resm_added Cons.prems(2) by blast
  have "\<exists>st'. run_reports rs s = Ret st' \<and> res_inv st' \<and>
      T_exitval st' = fold (\<lambda>r v. v OR r) (result_list rs) (T_exitval s) \<and>
      passed_cnt st' = passed_cnt s + length (filter (\<lambda>r. r = TPASS) (result_list rs))"
    using Cons.prems s(2) by (intro Cons.IH) (auto simp: all_reportable_def added_def)
  then show ?case using s by (auto simp: x added_def result_list_def)
qed (simp add: result_list_def)

lemma exit_from:
  assumes "res_inv st"
  shows "\<exists>st'. tst_exit e st = Ret (Ended (let v = T_exitval st AND NOT TINFO
    in if v = TCONF \<and> passed_cnt st \<noteq> 0 then 0 else v) st')"
proof -
  obtain s where s: "tst_old_flush e st = Ret s" "adds 0 st s" using flush_adds [OF assms] by blast
  have "TCONF AND NOT TCONF = 0" by simp
  with s show ?thesis by (auto simp: tst_exit_def adds_def Let_def)
qed

text \<open>
  C7: A test that reports any results and then calls \<open>tst_exit\<close>, in every display mode and with
  every environment, exits with the union of the reported result bits without TINFO; a mere TCONF
  is dropped when a result passed.  No result is lost, also not one that is still buffered.
\<close>

theorem exit_status_exact:
  assumes "all_reportable (length rs) rs"
  shows "\<exists>st st'. run_reports rs res_init = Ret st \<and>
    tst_exit e st = Ret (Ended (exit_status (result_list rs)) st')"
proof -
  have "res_inv res_init" by (simp add: res_inv_def res_init_def)
  moreover have "T_exitval res_init = 0" "passed_cnt res_init = 0" "tst_count res_init = 0"
    by (simp_all add: res_init_def)
  ultimately obtain st where st: "run_reports rs res_init = Ret st" "res_inv st"
    "T_exitval st = fold (\<lambda>r v. v OR r) (result_list rs) 0"
    "passed_cnt st = length (filter (\<lambda>r. r = TPASS) (result_list rs))"
    using run_reports_added [OF assms, of res_init] by auto
  have "passed_cnt st \<noteq> 0 \<longleftrightarrow> TPASS \<in> set (result_list rs)"
    using st(4) by (auto simp: filter_empty_conv)
  then show ?thesis using st(1) exit_from [OF st(2), of e] st(3)
    by (auto simp: exit_status_def Let_def)
qed

definition ex_renv :: "string \<Rightarrow> res_env" where
  "ex_renv mode = \<lparr>e_tcid = ''open01'', e_toutput = Some mode, e_colorize = None, e_tty = False,
     e_errno = 2, e_test_errno = 0, e_test_return = 0, e_strerror = (\<lambda>_. ''No such file'')\<rparr>"

definition ex_reports :: "(res_env \<times> resm_call) list" where
  "ex_reports =
    [(ex_renv ''NOPASS'', \<lparr>r_file = Some ''open01.c'', r_line = 10, r_type = TPASS, r_mesg = ''opened''\<rparr>),
     (ex_renv ''NOPASS'', \<lparr>r_file = Some ''open01.c'', r_line = 20, r_type = TFAIL OR TERRNO, r_mesg = ''failed''\<rparr>),
     (ex_renv ''NOPASS'', \<lparr>r_file = Some ''open01.c'', r_line = 30, r_type = TINFO, r_mesg = ''done''\<rparr>)]"

theorem exit_status_exact_witness:
  "\<exists>st st'. run_reports ex_reports res_init = Ret st \<and> tst_exit (ex_renv ''NOPASS'') st = Ret (Ended TFAIL st')"
proof -
  have "all_reportable (length ex_reports) ex_reports"
    by code_simp
  moreover have "exit_status (result_list ex_reports) = TFAIL"
    by (simp add: ex_reports_def result_list_def exit_status_def TTYPE_RESULT_def ttype_defs)
  ultimately show ?thesis using exit_status_exact [of ex_reports "ex_renv ''NOPASS''"] by simp
qed

subsection \<open>Breaking a test\<close>

text \<open>A cleanup function that returns and only adds results.\<close>

definition grown :: "res_state \<Rightarrow> res_state \<Rightarrow> bool" where
  "grown st s \<longleftrightarrow> res_inv s \<and> tst_brk_entered s = tst_brk_entered st \<and> T_exitval st OR T_exitval s = T_exitval s"

definition cleanup_ok :: "cleanup \<Rightarrow> bool" where
  "cleanup_ok func \<longleftrightarrow>
     (\<forall>f \<in> set_option func. \<forall>s. res_inv s \<longrightarrow> (\<exists>s'. f s = Ret (Goes s') \<and> grown s s'))"

lemma grown_refl: "res_inv st \<Longrightarrow> grown st st"
  by (simp add: grown_def)

lemma grown_trans: "grown a b \<Longrightarrow> grown b c \<Longrightarrow> grown a c"
  unfolding grown_def by (metis or.assoc)

lemma added_grown: "added t st s \<Longrightarrow> grown st s"
  by (simp add: added_def grown_def or.assoc [symmetric])

lemma bits_kept:
  assumes "r OR x = x" and "r = TFAIL \<or> r = TBROK"
  shows "(x AND NOT TINFO) AND r = r"
proof -
  have "(r OR x) AND r = r" by (rule bit_eqI) (auto simp: bit_simps)
  with assms(1) have "x AND r = r" by simp
  moreover have "NOT TINFO AND r = r" using assms(2) by (auto simp: ttype_defs)
  ultimately show ?thesis by (simp add: and.assoc)
qed

lemma run_cleanup_returns:
  assumes "cleanup_ok func" and "res_inv st"
  shows "\<exists>s. run_cleanup func st = Ret (Goes s) \<and> grown st s"
proof (cases func)
  case None
  then show ?thesis using grown_refl [OF assms(2)] by (simp add: run_cleanup_def)
next
  case (Some f)
  let ?s = "st\<lparr>tst_brk_entered := Suc (tst_brk_entered st)\<rparr>"
  have "res_inv ?s" using assms(2) by (simp add: res_inv_def)
  then obtain s' where s: "f ?s = Ret (Goes s')" "grown ?s s'"
    using assms(1) Some by (auto simp: cleanup_ok_def)
  then have "grown st (s'\<lparr>tst_brk_entered := tst_brk_entered s' - 1\<rparr>)"
    by (simp add: grown_def res_inv_def)
  then show ?thesis using Some s(1) by (simp add: run_cleanup_def)
qed

definition remaining_mesg :: "int \<Rightarrow> string" where
  "remaining_mesg r =
     (if r = TCONF then ''Remaining cases not appropriate for configuration'' else ''Remaining cases broken'')"

lemma remaining_added:
  assumes "r = TTYPE_RESULT t" and "r \<in> {TFAIL, TBROK, TCONF}" and "res_inv st"
    and "tst_count st < int n" and "tst_brk_entered st = 0"
    and "reportable e file lineno (if r = TCONF then t else TBROK) (remaining_mesg r) n"
  shows "\<exists>s. brk_remaining e file lineno r t st = Ret s \<and> grown st s"
proof -
  have cut: "snprintf USERMESG (remaining_mesg r) = remaining_mesg r"
    by (simp add: snprintf_def USERMESG_def remaining_mesg_def)
  obtain s where s: "tst_res_old e file lineno (if r = TCONF then t else TBROK) (remaining_mesg r) st = Ret s"
      "added (if r = TCONF then t else TBROK) st s"
    using res_old_added [OF assms(6,3,4)] unfolding cut by blast
  have neq: "TCONF \<noteq> TBROK" "TFAIL \<noteq> TBROK" "TFAIL \<noteq> TCONF" by (simp_all add: ttype_defs)
  then show ?thesis using s(1) added_grown [OF s(2)] grown_refl [OF assms(3)] assms(2,5)
    by (auto simp: brk_remaining_def remaining_mesg_def)
qed



text \<open>A dump shows all bytes, in order, sixteen to a line.\<close>

lemma hex_byte_no_space: "filter (\<lambda>c. c \<noteq> SPACE) (hex_byte b) = hex_byte b"
proof -
  have "hex_digit d \<noteq> SPACE" if "d < 16" for d
  proof -
    have "(of_char (hex_digit d) :: nat) \<noteq> 32" using that by (auto simp: hex_digit_def)
    then show ?thesis by auto
  qed
  moreover have "unat b < 256" by (rule order.strict_trans2 [OF unsigned_less]) simp
  ultimately show ?thesis by (simp add: hex_byte_def)
qed

lemma hexd_loop_complete:
  assumes "i + length bs = n" and "bs = [] \<longrightarrow> line = []"
  shows "concat (map (filter (\<lambda>c. c \<noteq> SPACE)) (hexd_loop n i line bs)) =
    filter (\<lambda>c. c \<noteq> SPACE) line @ concat (map hex_byte bs)"
  using assms
proof (induction n i line bs rule: hexd_loop.induct)
  case (2 n i line b bs)
  then show ?case by (cases bs) (auto simp: Let_def hex_byte_no_space)
qed simp

end
