(* ===== verification/Tst_Message.thy ===== *)
theory Tst_Message
  imports Tst_Res
begin

section \<open>tst_test: the shared results and the messages\<close>

text \<open>
  The part of \<open>lib/tst_test.c\<close> that counts and prints results.  All processes of a test share one
  \<open>struct results\<close>; \<open>shm\<close> is the pointer to it and \<open>None\<close> as long as it is not mapped.  The counters are
  incremented atomically and wrap around at 32 bits.  A message is the string after the expansion
  of its format.
\<close>

unbundle bit_operations_syntax

record results =
  passed :: "32 word"
  skipped :: "32 word"
  failed :: "32 word"
  warnings :: "32 word"
  timeout :: "32 word"

text \<open>What the processes share: the results and the two output streams.\<close>

record io =
  shm :: "results option"
  err :: string
  out :: string

definition update_results :: "int \<Rightarrow> io \<Rightarrow> io" where
  "update_results ttype io =
     (case shm io of
        None \<Rightarrow> io
      | Some r \<Rightarrow>
          if ttype = TCONF then io\<lparr>shm := Some (r\<lparr>skipped := skipped r + 1\<rparr>)\<rparr>
          else if ttype = TPASS then io\<lparr>shm := Some (r\<lparr>passed := passed r + 1\<rparr>)\<rparr>
          else if ttype = TWARN then io\<lparr>shm := Some (r\<lparr>warnings := warnings r + 1\<rparr>)\<rparr>
          else if ttype = TFAIL then io\<lparr>shm := Some (r\<lparr>failed := failed r + 1\<rparr>)\<rparr>
          else io)"

subsection \<open>Printing a result\<close>

text \<open>\<open>errno\<close>, \<open>TST_ERR\<close> and \<open>TST_RET\<close> at the time of the call, whether stderr gets colours, and the
  answers of \<open>write\<close> for a text; after the listed answers \<open>write\<close> accepts the rest at once.\<close>

record msg_env =
  m_errno :: int
  m_tst_err :: int
  m_tst_ret :: int
  m_colour :: bool
  m_write :: "string \<Rightarrow> int list"

definition result_name :: "int \<Rightarrow> string option" where
  "result_name ttype =
     (let r = TTYPE_RESULT ttype
      in if r = TPASS then Some ''PASS'' else if r = TFAIL then Some ''FAIL''
         else if r = TBROK then Some ''BROK'' else if r = TCONF then Some ''CONF''
         else if r = TWARN then Some ''WARN'' else if r = TINFO then Some ''INFO'' else None)"

definition msg_errno :: "msg_env \<Rightarrow> int \<Rightarrow> (string \<times> int) option" where
  "msg_errno e ttype =
     (let x = (if has_flag ttype TERRNO then Some (tst_strerrno (m_errno e), m_errno e) else None);
          x = (if has_flag ttype TTERRNO then Some (tst_strerrno (m_tst_err e), m_tst_err e) else x);
          n = return_errno (m_tst_ret e)
      in if has_flag ttype TRERRNO then Some (tst_strerrno n, n) else x)"

definition msg_head :: "msg_env \<Rightarrow> string \<Rightarrow> int \<Rightarrow> int \<Rightarrow> string \<Rightarrow> string" where
  "msg_head e fname lineno ttype res =
     fname @ '':'' @ show_int lineno @ '': '' @
     (if m_colour e then tst_ttype2color ttype @ res @ '': '' @ ansi ''0'' else res @ '': '')"

fun write_loop :: "int list \<Rightarrow> string \<Rightarrow> string" where
  "write_loop ws [] = []"
| "write_loop [] (c # s) = c # s"
| "write_loop (w # ws) (c # s) =
     (if w \<le> 0 then [] else take (nat w) (c # s) @ write_loop ws (drop (nat w) (c # s)))"

definition put_line :: "msg_env \<Rightarrow> string \<Rightarrow> io \<Rightarrow> io" where
  "put_line e text io =
     (let line = text @ [NL] in io\<lparr>err := err io @ write_loop (m_write e line) line\<rparr>)"

definition too_long :: string where
  "too_long = ''Next message is too long and truncated:''"

definition BUFSIZE :: nat where "BUFSIZE = 1024"

text \<open>Appending \<open>s\<close> to the \<open>text\<close> in the buffer: \<open>ssize\<close> is what is left without the newline and the
  terminating zero, and may be negative, in which case the pointer moves back.\<close>

definition put_part :: "string \<Rightarrow> string \<Rightarrow> string \<times> bool" where
  "put_part text s =
     (let ssize = int BUFSIZE - int (length text) - 2; k = min (int (length s)) ssize
      in (if k < 0 then take (nat (int (length text) + k)) text else text @ take (nat k) s,
          int (length s) \<ge> ssize))"

text \<open>The message and the text of the error number, and whether one of them was too long.\<close>

definition put_message :: "msg_env \<Rightarrow> int \<Rightarrow> string \<Rightarrow> string \<Rightarrow> string \<times> bool" where
  "put_message e ttype head msg =
     (let (t1, long1) = put_part head msg;
          (t2, long2) = (case msg_errno e ttype of
              Some (name, n) \<Rightarrow> if long1 then (t1, False)
                            else put_part t1 ('': '' @ name @ '' ('' @ show_int n @ '')'')
            | None \<Rightarrow> (t1, False))
      in (t2, long1 \<or> long2))"

text \<open>\<open>Ret None\<close> stands for an invalid \<open>ttype\<close>, for which the caller goes on with \<open>tst_brk\<close>.
  A message that is too long is announced by \<open>tst_res_\<close>, that is by \<open>print_result\<close> itself.\<close>

partial_function (option) print_result ::
  "msg_env \<Rightarrow> string \<Rightarrow> int \<Rightarrow> int \<Rightarrow> string \<Rightarrow> io \<Rightarrow> io option outcome option" where
  "print_result e fname lineno ttype msg io =
     (case result_name ttype of
        None \<Rightarrow> Some (Ret None)
      | Some res \<Rightarrow>
          let head = msg_head e fname lineno ttype res
          in if BUFSIZE < length head then Some (Undefined ''write outside buf'')
             else case put_message e ttype head msg of (text, long) \<Rightarrow>
                  if long
                  then Option.bind (print_result e fname lineno TWARN too_long io) (\<lambda>r.
                       case r of
                         Ret (Some io) \<Rightarrow> Some (Ret (Some (put_line e text (update_results TWARN io))))
                       | Ret None \<Rightarrow> Some (Ret None)
                       | Exits n \<Rightarrow> Some (Exits n)
                       | Aborts \<Rightarrow> Some Aborts
                       | Undefined why \<Rightarrow> Some (Undefined why))
                  else Some (Ret (Some (put_line e text io))))"

declare print_result.simps [simp del]

subsection \<open>The length of a line\<close>

definition errno_part :: "msg_env \<Rightarrow> int \<Rightarrow> string" where
  "errno_part e ttype =
     (case msg_errno e ttype of None \<Rightarrow> [] | Some (name, n) \<Rightarrow> '': '' @ name @ '' ('' @ show_int n @ '')'')"

definition head_length :: "msg_env \<Rightarrow> string \<Rightarrow> int \<Rightarrow> nat" where
  "head_length e fname lineno = length fname + length (show_int lineno) + (if m_colour e then 20 else 9)"

text \<open>The line without the newline, before it is cut.\<close>

definition full_line :: "msg_env \<Rightarrow> string \<Rightarrow> int \<Rightarrow> int \<Rightarrow> string \<Rightarrow> string" where
  "full_line e fname lineno ttype msg =
     msg_head e fname lineno ttype (the (result_name ttype)) @ msg @ errno_part e ttype"

lemma result_name_length: "result_name ttype = Some res \<Longrightarrow> length res = 4 \<and> length (tst_ttype2color ttype) = 7"
  by (auto simp: result_name_def tst_ttype2color_def ansi_def Let_def split: if_splits)

lemma length_msg_head:
  "result_name ttype = Some res \<Longrightarrow> length (msg_head e fname lineno ttype res) = head_length e fname lineno"
  using result_name_length [of ttype res] by (simp add: msg_head_def head_length_def ansi_def)

lemma result_name_TWARN [simp]: "result_name TWARN = Some ''WARN''"
  by (simp add: result_name_def TTYPE_RESULT_def ttype_defs)

lemma errno_part_TWARN [simp]: "errno_part e TWARN = []" "msg_errno e TWARN = None"
  by (simp_all add: errno_part_def msg_errno_def has_flag_def ttype_defs)

lemma put_part_short:
  "length text + length s < 1022 \<Longrightarrow> put_part text s = (text @ s, False)"
  by (simp add: put_part_def BUFSIZE_def Let_def min_def)

lemma put_part_long:
  assumes "length text \<le> 1022" "1022 \<le> length text + length s"
  shows "put_part text s = (take 1022 (text @ s), True)"
proof -
  have "min (int (length s)) (int BUFSIZE - int (length text) - 2) = int (1022 - length text)"
    using assms by (simp add: BUFSIZE_def min_def)
  then show ?thesis using assms by (simp add: put_part_def Let_def BUFSIZE_def nat_diff_distrib)
qed

lemma put_part_flag: "snd (put_part text s) = (1022 \<le> length text + length s)"
  by (auto simp: put_part_def BUFSIZE_def Let_def)

text \<open>The line is cut to 1022 characters, and the warning is due exactly when it does not have fewer.\<close>

lemma put_message_eq:
  assumes "length head \<le> 1022"
  shows "put_message e ttype head msg =
    (take 1022 (head @ msg @ errno_part e ttype), 1022 \<le> length (head @ msg @ errno_part e ttype))"
proof (cases "1022 \<le> length head + length msg")
  case True
  then have "take 1022 (head @ msg @ errno_part e ttype) = take 1022 (head @ msg)"
    by (simp flip: append_assoc)
  then show ?thesis using True put_part_long [OF assms True]
    by (auto simp: put_message_def split: option.splits prod.splits)
next
  case False
  then have l: "length (head @ msg) < 1022" by simp
  let ?t = "errno_part e ttype"
  have s: "put_part head msg = (head @ msg, False)" using l by (intro put_part_short) simp
  show ?thesis
  proof (cases "1022 \<le> length (head @ msg) + length ?t")
    case True
    then have "?t \<noteq> []" using l by auto
    then obtain name n where n: "msg_errno e ttype = Some (name, n)"
      by (auto simp: errno_part_def split: option.splits)
    have "put_part (head @ msg) ?t = (take 1022 ((head @ msg) @ ?t), True)"
      using l True by (intro put_part_long) simp_all
    then show ?thesis using True n by (simp add: put_message_def s errno_part_def)
  next
    case False
    then have "put_part (head @ msg) ?t = ((head @ msg) @ ?t, False)" by (intro put_part_short) simp
    then show ?thesis using False l by (auto simp: put_message_def s errno_part_def split: option.splits)
  qed
qed

lemma print_result_unfold:
  assumes "result_name ttype = Some res" "head_length e fname lineno \<le> 1024"
  shows "print_result e fname lineno ttype msg io =
    (case put_message e ttype (msg_head e fname lineno ttype res) msg of (text, long) \<Rightarrow>
       if long
       then Option.bind (print_result e fname lineno TWARN too_long io) (\<lambda>r.
            case r of
              Ret (Some io) \<Rightarrow> Some (Ret (Some (put_line e text (update_results TWARN io))))
            | Ret None \<Rightarrow> Some (Ret None)
            | Exits n \<Rightarrow> Some (Exits n)
            | Aborts \<Rightarrow> Some Aborts
            | Undefined why \<Rightarrow> Some (Undefined why))
       else Some (Ret (Some (put_line e text io))))"
  using assms length_msg_head [OF assms(1), of e fname lineno]
  by (subst print_result.simps) (simp add: BUFSIZE_def)

lemma print_result_short:
  assumes "result_name ttype \<noteq> None" "length (full_line e fname lineno ttype msg) < 1022"
  shows "print_result e fname lineno ttype msg io = Some (Ret (Some (put_line e (full_line e fname lineno ttype msg) io)))"
proof -
  obtain res where r: "result_name ttype = Some res" using assms(1) by auto
  have h: "length (msg_head e fname lineno ttype res) < 1022" using assms(2) r by (simp add: full_line_def)
  then have "head_length e fname lineno \<le> 1024" using length_msg_head [OF r] by simp
  then show ?thesis
    using assms(2) h by (subst print_result_unfold [OF r]) (simp_all add: put_message_eq full_line_def r)
qed

lemma length_full_line:
  "result_name ttype \<noteq> None \<Longrightarrow>
   length (full_line e fname lineno ttype msg) = head_length e fname lineno + length msg + length (errno_part e ttype)"
  using length_msg_head by (auto simp: full_line_def)

lemma length_too_long: "length too_long = 39"
  by (simp add: too_long_def)

lemma print_result_long:
  assumes "result_name ttype \<noteq> None" "1022 \<le> length (full_line e fname lineno ttype msg)" "head_length e fname lineno \<le> 982"
  shows "print_result e fname lineno ttype msg io = Some (Ret (Some (put_line e (take 1022 (full_line e fname lineno ttype msg))
     (update_results TWARN (put_line e (full_line e fname lineno TWARN too_long) io)))))"
proof -
  obtain res where r: "result_name ttype = Some res" using assms(1) by auto
  have w: "print_result e fname lineno TWARN too_long io = Some (Ret (Some (put_line e (full_line e fname lineno TWARN too_long) io)))"
    using assms(3) by (intro print_result_short) (simp_all add: length_full_line length_too_long)
  have h: "length (msg_head e fname lineno ttype res) \<le> 1022" using assms(3) by (simp add: length_msg_head [OF r])
  show ?thesis
    using assms(2,3) h by (subst print_result_unfold [OF r]) (simp_all add: put_message_eq full_line_def r w)
qed

text \<open>When even the announcement does not fit, it announces itself for ever.\<close>

lemma put_message_flag: "1022 \<le> length head + length msg \<Longrightarrow> snd (put_message e ttype head msg)"
  using put_part_flag [of head msg] by (auto simp: put_message_def split: prod.splits)

lemma print_result_stuck:
  assumes "head_length e fname lineno \<le> 1024" "983 \<le> head_length e fname lineno"
  shows "print_result e fname lineno TWARN too_long io = None"
proof -
  have "983 \<le> head_length e fname lineno \<longrightarrow> head_length e fname lineno \<le> 1024 \<longrightarrow> ttype = TWARN \<longrightarrow> msg \<noteq> too_long"
    if "print_result e fname lineno ttype msg io = Some y" for e fname lineno ttype msg io y
    using that
  proof (rule print_result.raw_induct [rotated], goal_cases)
    case (1 pr e fname lineno ttype msg io y)
    show ?case
    proof (intro impI notI)
      assume h: "983 \<le> head_length e fname lineno" "head_length e fname lineno \<le> 1024" and t: "ttype = TWARN" "msg = too_long"
      have l: "length (msg_head e fname lineno TWARN ''WARN'') = head_length e fname lineno"
        by (rule length_msg_head) simp
      have "snd (put_message e TWARN (msg_head e fname lineno TWARN ''WARN'') too_long)"
        using h(1) l by (intro put_message_flag) (simp add: length_too_long)
      then obtain z where "pr e fname lineno TWARN too_long io = Some z"
        using 1(2) h(2) l t by (auto simp: BUFSIZE_def Option.bind_eq_Some_conv split: prod.splits)
      then show False using 1(1) [of e fname lineno TWARN too_long io z] h by simp
    qed
  qed
  then show ?thesis using assms by (cases "print_result e fname lineno TWARN too_long io") fastforce+
qed

lemma write_loop_all: "\<forall>w \<in> set ws. 0 < w \<Longrightarrow> write_loop ws s = s"
  by (induction ws s rule: write_loop.induct) auto

lemma put_line_io:
  "\<forall>t. \<forall>w \<in> set (m_write e t). 0 < w \<Longrightarrow> put_line e text io = io\<lparr>err := err io @ text @ [NL]\<rparr>"
  by (simp add: put_line_def Let_def write_loop_all)

lemma update_results_err [simp]: "err (update_results t io) = err io" "out (update_results t io) = out io"
  by (auto simp: update_results_def split: option.splits)

lemma update_results_update [simp]:
  "update_results t (io\<lparr>err := x\<rparr>) = (update_results t io)\<lparr>err := x\<rparr>"
  by (auto simp: update_results_def split: option.splits)

text \<open>C17: \<open>print_result\<close> writes one line of at most 1023 characters, and the complete message exactly when it
  has fewer than 1022; a longer one is announced by a warning, which is counted.  With a file name
  and line number that leave fewer than 40 characters for the announcement it never returns, and
  beyond the buffer the behaviour is undefined.\<close>

theorem print_result_line:
  assumes "result_name ttype \<noteq> None" "\<forall>t. \<forall>w \<in> set (m_write e t). 0 < w"
    and "full = full_line e fname lineno ttype msg"
  shows "print_result e fname lineno ttype msg io =
    (if 1024 < head_length e fname lineno then Some (Undefined ''write outside buf'')
     else if length full < 1022 then Some (Ret (Some (io\<lparr>err := err io @ full @ [NL]\<rparr>)))
     else if head_length e fname lineno \<le> 982
     then Some (Ret (Some ((update_results TWARN io)
            \<lparr>err := err io @ full_line e fname lineno TWARN too_long @ [NL] @ take 1022 full @ [NL]\<rparr>)))
     else None)"
proof -
  obtain res where r: "result_name ttype = Some res" using assms(1) by auto
  let ?h = "msg_head e fname lineno ttype res"
  note l = length_msg_head [OF r, of e fname lineno]
  consider (outside) "1024 < head_length e fname lineno" | (short) "head_length e fname lineno \<le> 1024" "length full < 1022"
    | (long) "head_length e fname lineno \<le> 982" "1022 \<le> length full"
    | (stuck) "982 < head_length e fname lineno" "head_length e fname lineno \<le> 1024" "1022 \<le> length full" by linarith
  then show ?thesis
  proof cases
    case outside
    then show ?thesis by (subst print_result.simps) (simp add: r l BUFSIZE_def)
  next
    case short
    then show ?thesis using print_result_short [OF assms(1)] assms(3) by (simp add: put_line_io [OF assms(2)])
  next
    case long
    then show ?thesis using print_result_long [OF assms(1)] assms(3) by (simp add: put_line_io [OF assms(2)])
  next
    case stuck
    have "snd (put_message e ttype ?h msg)"
    proof (cases "length ?h \<le> 1022")
      case True
      then show ?thesis using stuck(3) assms(3) r by (simp add: put_message_eq full_line_def)
    qed (simp add: put_message_flag)
    then show ?thesis using stuck print_result_stuck [of e fname lineno io]
      by (subst print_result_unfold [OF r]) (auto split: prod.splits)
  qed
qed

theorem print_result_line_witness:
  "print_result \<lparr>m_errno = 2, m_tst_err = 0, m_tst_ret = 0, m_colour = False, m_write = \<lambda>_. [3]\<rparr> ''a.c'' 7
     (TFAIL OR TERRNO) ''open'' \<lparr>shm = None, err = [], out = []\<rparr>
   = Some (Ret (Some \<lparr>shm = None, err = ''a.c:7: FAIL: open: ENOENT (2)'' @ [NL], out = []\<rparr>))"
proof -
  let ?e = "\<lparr>m_errno = 2, m_tst_err = 0, m_tst_ret = 0, m_colour = False, m_write = \<lambda>_. [3]\<rparr>"
  have f: "full_line ?e ''a.c'' 7 (TFAIL OR TERRNO) ''open'' = ''a.c:7: FAIL: open: ENOENT (2)''" by code_simp
  have h: "head_length ?e ''a.c'' 7 \<le> 982" by code_simp
  have "result_name (TFAIL OR TERRNO) \<noteq> None" by code_simp
  then show ?thesis
    using print_result_line [of "TFAIL OR TERRNO" ?e "''a.c:7: FAIL: open: ENOENT (2)''" "''a.c''" 7 "''open''" "\<lparr>shm = None, err = [], out = []\<rparr>"]
      f h by simp
qed

subsection \<open>Parsing numbers\<close>

definition ERANGE :: errno where "ERANGE = 34"

text \<open>The return value and what is stored in \<open>*val\<close> at the end.\<close>

definition tst_parse_long :: "string option \<Rightarrow> int \<Rightarrow> int \<Rightarrow> int \<Rightarrow> int \<times> int" where
  "tst_parse_long str val mn mx =
     (case str of
        None \<Rightarrow> (0, val)
      | Some s \<Rightarrow>
          let (rval, rest, erange) = strtol10 s
          in if rest = s \<or> rest \<noteq> [] then (EINVAL, val)
             else if erange then (ERANGE, val)
             else if rval > mx \<or> rval < mn then (ERANGE, val)
             else (0, rval))"

definition tst_parse_int :: "string option \<Rightarrow> int \<Rightarrow> int \<Rightarrow> int \<Rightarrow> int \<times> int" where
  "tst_parse_int str val mn mx =
     (case str of
        None \<Rightarrow> (0, val)
      | Some s \<Rightarrow>
          let (ret, rval) = tst_parse_long (Some s) 0 mn mx
          in if ret \<noteq> 0 then (ret, val) else (0, wrap32 rval))"

text \<open>A printed number is read back when it is in the range, and nothing is stored otherwise.\<close>

lemma tst_parse_long_show_int:
  assumes "LONG_MIN \<le> v" "v \<le> LONG_MAX" "nondigit_head r"
  shows "tst_parse_long (Some (show_int v @ r)) old mn mx =
    (if r \<noteq> [] then (EINVAL, old) else if mn \<le> v \<and> v \<le> mx then (0, v) else (ERANGE, old))"
  using strtol10_show_int [OF assms(3,1,2)] by (auto simp: tst_parse_long_def)

lemma tst_parse_int_show_int:
  assumes "LONG_MIN \<le> v" "v \<le> LONG_MAX" "INT_MIN \<le> mn" "mx \<le> INT_MAX"
  shows "tst_parse_int (Some (show_int v)) old mn mx = (if mn \<le> v \<and> v \<le> mx then (0, v) else (ERANGE, old))"
  using tst_parse_long_show_int [OF assms(1,2), of "[]" 0 mn mx] assms(3,4)
  by (auto simp: tst_parse_int_def nondigit_head_def wrap32_id ERANGE_def)

end
