(* ===== verification/Tst_Test.thy ===== *)
theory Tst_Test
  imports Tst_Message
begin

section \<open>tst_test: the test process\<close>

text \<open>
  The process of \<open>lib/tst_test.c\<close> that runs the functions of a test: reports, \<open>tst_brk\<close> with its handler,
  the cleanup, reaping of children, and the loop over the iterations.  The functions of the test are
  given by the calls that they make, in order (\<open>test_act\<close>); what children do is given by their
  reports, which happen between the calls of the test process, and by the answers of \<open>wait\<close>.
  \<open>tst_brk_handler\<close> is a function pointer and an argument here.
\<close>

unbundle bit_operations_syntax

subsection \<open>Processes\<close>

text \<open>A process goes on, exits with a status, is killed by a signal, has undefined behaviour or never
  gets any further.\<close>

datatype 'a proc = Runs 'a | Exited int 'a | Killed signo 'a | Undef string | Stuck

fun then_proc :: "'a proc \<Rightarrow> ('a \<Rightarrow> 'a proc) \<Rightarrow> 'a proc" where
  "then_proc (Runs x) f = f x"
| "then_proc (Exited n x) f = Exited n x"
| "then_proc (Killed s x) f = Killed s x"
| "then_proc (Undef why) f = Undef why"
| "then_proc Stuck f = Stuck"

definition SIGABRT :: signo where "SIGABRT = 6"

text \<open>The status that \<open>wait\<close> reports.\<close>

fun wait_status :: "'a proc \<Rightarrow> int" where
  "wait_status (Exited n x) = (n mod 256) * 256"
| "wait_status (Killed s x) = s"
| "wait_status _ = 0"

subsection \<open>Reports\<close>

record report =
  r_env :: msg_env
  r_file :: string
  r_line :: int
  r_type :: int
  r_msg :: string

type_synonym handler = "report \<Rightarrow> io \<Rightarrow> io proc"

abbreviation r_result :: "report \<Rightarrow> int" where
  "r_result r \<equiv> TTYPE_RESULT (r_type r)"

text \<open>A call of the library itself, from the given line of its source.\<close>

definition lib_report :: "msg_env \<Rightarrow> int \<Rightarrow> int \<Rightarrow> string \<Rightarrow> report" where
  "lib_report e lineno ttype msg =
     \<lparr>r_env = e, r_file = ''tst_test.c'', r_line = lineno, r_type = ttype, r_msg = msg\<rparr>"

text \<open>\<open>print_result\<close> followed by \<open>f\<close>; an invalid type leads to \<open>tst_brk\<close> with the handler \<open>h\<close>, and to
  \<open>abort ()\<close> if that returns.\<close>

definition print_then :: "handler \<Rightarrow> report \<Rightarrow> (io \<Rightarrow> io proc) \<Rightarrow> io \<Rightarrow> io proc" where
  "print_then h r f io =
     (case print_result (r_env r) (r_file r) (r_line r) (r_type r) (r_msg r) io of
        None \<Rightarrow> Stuck
      | Some (Ret (Some io)) \<Rightarrow> f io
      | Some (Ret None) \<Rightarrow>
          then_proc (h (lib_report (r_env r) 208 TBROK (''Invalid ttype value '' @ show_int (r_type r))) io)
            (Killed SIGABRT)
      | Some (Exits n) \<Rightarrow> Exited n io
      | Some Aborts \<Rightarrow> Killed SIGABRT io
      | Some (Undefined why) \<Rightarrow> Undef why)"

definition no_handler :: handler where
  "no_handler r io = Undef ''not reached''"

definition tst_vres :: "handler \<Rightarrow> report \<Rightarrow> io \<Rightarrow> io proc" where
  "tst_vres h r io = print_then h r (\<lambda>io. Runs (update_results (r_result r) io)) io"

text \<open>The handler during the cleanup.  Its own \<open>tst_brk\<close> for an invalid type has the type \<open>TBROK\<close>, so that
  it is called once more at most.\<close>

definition as_warning :: "report \<Rightarrow> report" where
  "as_warning r =
     (if r_result r = TBROK then r\<lparr>r_type := (r_type r AND NOT TTYPE_MASK) OR TWARN\<rparr> else r)"

definition cvres_once :: "handler \<Rightarrow> handler" where
  "cvres_once h r io =
     (let r = as_warning r in print_then h r (\<lambda>io. Runs (update_results (r_result r) io)) io)"

definition tst_cvres :: handler where
  "tst_cvres r io = cvres_once (cvres_once no_handler) r io"

subsection \<open>The calls of a test function\<close>

datatype wait_answer = Reaped pid int | Wait_error errno

text \<open>\<open>Res\<close> and \<open>Brk\<close> are calls of \<open>tst_res\<close> and \<open>tst_brk\<close>; \<open>Brkm\<close> is a call of \<open>tst_brkm\<close>, which the
  functions of \<open>lib/safe_macros.c\<close> make when they fail; \<open>Child_res\<close> is a call of \<open>tst_res\<close> by a child; \<open>Reap\<close>
  is a call of \<open>tst_reap_children\<close> with the answers of \<open>wait\<close>, the last of which is \<open>ECHILD\<close>; \<open>Exit\<close> and
  \<open>Signal\<close> end the process.\<close>

datatype test_act =
  Res report
| Brk report
| Brkm report
| Child_res report
| Reap msg_env "wait_answer list"
| Exit int
| Signal signo

definition child_text :: "pid \<Rightarrow> string \<Rightarrow> string" where
  "child_text p text = ''Child ('' @ show_int p @ '') '' @ text"

definition check_child_status :: "handler \<Rightarrow> msg_env \<Rightarrow> pid \<Rightarrow> int \<Rightarrow> io \<Rightarrow> io proc" where
  "check_child_status h e p status io =
     then_proc
       (if WIFSIGNALED status
        then h (lib_report e 354 TBROK (child_text p (''killed by signal '' @ tst_strsig (WTERMSIG status)))) io
        else Runs io) (\<lambda>io.
     then_proc
       (if \<not> WIFEXITED status then h (lib_report e 359 TBROK (child_text p ''exited abnormaly'')) io
        else Runs io) (\<lambda>io.
     let ret = WEXITSTATUS status
     in if ret = TPASS then Runs io
        else if ret = TBROK \<or> ret = TCONF
        then h (lib_report e 367 ret (''Reported by child ('' @ show_int p @ '')'')) io
        else h (lib_report e 370 TBROK (''Invalid child ('' @ show_int p @ '') exit value '' @ show_int ret)) io))"

definition ECHILD :: errno where "ECHILD = 10"

fun tst_reap_children :: "handler \<Rightarrow> msg_env \<Rightarrow> wait_answer list \<Rightarrow> io \<Rightarrow> io proc" where
  "tst_reap_children h e [] io = Runs io"
| "tst_reap_children h e (Reaped p status # ws) io =
     then_proc (check_child_status h e p status io) (tst_reap_children h e ws)"
| "tst_reap_children h e (Wait_error en # ws) io =
     (if en = ECHILD then Runs io
      else if en = EINTR then tst_reap_children h e ws io
      else then_proc (h (lib_report (e\<lparr>m_errno := en\<rparr>) 393 (TBROK OR TERRNO) ''wait() failed'') io)
             (tst_reap_children h e ws))"

text \<open>A child that reports an invalid type prints the message of \<open>tst_brk\<close> and exits with \<open>TBROK\<close>; its
  parent goes on.\<close>

definition child_handler :: handler where
  "child_handler r io = print_then no_handler r Runs io"

definition child_res :: "report \<Rightarrow> io \<Rightarrow> io proc" where
  "child_res r io =
     (case tst_vres child_handler r io of Killed s io \<Rightarrow> Runs io | p \<Rightarrow> p)"

fun exec_act :: "handler \<Rightarrow> test_act \<Rightarrow> io \<Rightarrow> io proc" where
  "exec_act h (Res r) io = tst_vres h r io"
| "exec_act h (Brk r) io = h r io"
| "exec_act h (Brkm r) io = then_proc (h r io) (Killed SIGABRT)"
| "exec_act h (Child_res r) io = child_res r io"
| "exec_act h (Reap e ws) io = tst_reap_children h e ws io"
| "exec_act h (Exit n) io = Exited n io"
| "exec_act h (Signal s) io = Killed s io"

fun exec_acts :: "handler \<Rightarrow> test_act list \<Rightarrow> io \<Rightarrow> io proc" where
  "exec_acts h [] io = Runs io"
| "exec_acts h (a # as) io = then_proc (exec_act h a io) (exec_acts h as)"

subsection \<open>Ending the test\<close>

text \<open>\<open>clean\<close> holds the calls of \<open>tst_test->cleanup\<close> and after them the warnings of \<open>tst_free_all\<close> about its guarded
  buffers (theory \<open>Tst_Buffers\<close>); it is \<open>None\<close> when there are no such calls.\<close>

definition do_test_cleanup :: "test_act list option \<Rightarrow> io \<Rightarrow> io proc" where
  "do_test_cleanup clean io = (case clean of None \<Rightarrow> Runs io | Some as \<Rightarrow> exec_acts tst_cvres as io)"

text \<open>\<open>main\<close> says whether the caller is the process \<open>main_pid\<close>.  Here, too, the report for an invalid type is
  valid.\<close>

definition vbrk_once :: "handler \<Rightarrow> bool \<Rightarrow> test_act list option \<Rightarrow> handler" where
  "vbrk_once h main clean r io =
     print_then h r (\<lambda>io.
       then_proc (if main then do_test_cleanup clean io else Runs io) (\<lambda>io. Exited (r_result r) io)) io"

definition tst_vbrk :: "bool \<Rightarrow> test_act list option \<Rightarrow> handler" where
  "tst_vbrk main clean r io = vbrk_once (vbrk_once no_handler main clean) main clean r io"

subsection \<open>Running the tests\<close>

definition results_equal :: "results \<Rightarrow> results \<Rightarrow> bool" where
  "results_equal a b \<longleftrightarrow> passed a = passed b \<and> failed a = failed b \<and> skipped a = skipped b"

text \<open>The calls of one test function, and the answers of \<open>wait\<close> afterwards.  \<open>results\<close> must be mapped.\<close>

type_synonym script = "test_act list \<times> wait_answer list"

definition run_one :: "handler \<Rightarrow> msg_env \<Rightarrow> int \<Rightarrow> string \<Rightarrow> script \<Rightarrow> io \<Rightarrow> io proc" where
  "run_one h e lineno what sc io =
     (case shm io of
        None \<Rightarrow> Undef ''null pointer''
      | Some saved \<Rightarrow>
          then_proc (exec_acts h (fst sc) io) (\<lambda>io.
          then_proc (tst_reap_children h e (snd sc) io) (\<lambda>io.
          case shm io of
            None \<Rightarrow> Undef ''null pointer''
          | Some now \<Rightarrow>
              if results_equal saved now
              then h (lib_report e lineno TBROK (what @ '' haven't reported results!'')) io
              else Runs io)))"

fun run_cases :: "handler \<Rightarrow> msg_env \<Rightarrow> nat \<Rightarrow> script list \<Rightarrow> io \<Rightarrow> io proc" where
  "run_cases h e i [] io = Runs io"
| "run_cases h e i (sc # scs) io =
     then_proc (run_one h e 1061 (''Test '' @ show_nat i) sc io) (run_cases h e (Suc i) scs)"

text \<open>\<open>Test_all\<close> is one function without argument, \<open>Test\<close> a function that is called with the numbers below
  \<open>tcnt\<close>.\<close>

datatype tests = Test_all script | Test "script list"

fun run_tests :: "handler \<Rightarrow> msg_env \<Rightarrow> tests \<Rightarrow> io \<Rightarrow> io proc" where
  "run_tests h e (Test_all sc) io = run_one h e 1046 ''Test'' sc io"
| "run_tests h e (Test scs) io = run_cases h e 0 scs io"

text \<open>The parts of \<open>struct tst_test\<close>, the options and the answers that the test process uses.  \<open>t_clock\<close>
  says whether the clock of the n-th heartbeat could be read; \<open>t_times\<close> are the times that \<open>get_time_ms\<close>
  returns before the stop time is reached.\<close>

record test_proc =
  t_env :: msg_env
  t_setup :: "test_act list option"
  t_cleanup :: "test_act list option"
  t_tests :: "nat \<Rightarrow> tests"
  t_iterations :: int
  t_stop_time :: int
  t_times :: "int list"
  t_clock :: "nat \<Rightarrow> bool"

definition heartbeat :: "handler \<Rightarrow> test_proc \<Rightarrow> nat \<Rightarrow> io \<Rightarrow> io proc" where
  "heartbeat h t n io =
     (if t_clock t n then Runs io
      else tst_vres h (lib_report (t_env t) 1095 (TWARN OR TERRNO) ''tst_clock_gettime() failed'') io)"

definition do_test_setup :: "handler \<Rightarrow> test_proc \<Rightarrow> io \<Rightarrow> io proc" where
  "do_test_setup h t io = (case t_setup t of None \<Rightarrow> Runs io | Some as \<Rightarrow> exec_acts h as io)"

text \<open>The comparison with \<open>iterations\<close> is one of unsigned numbers.\<close>

function test_loop :: "handler \<Rightarrow> test_proc \<Rightarrow> nat \<Rightarrow> nat \<Rightarrow> int list \<Rightarrow> io \<Rightarrow> io proc" where
  "test_loop h t k i ts io =
     (let more = int i < t_iterations t mod 2 ^ 32;
          early = (t_stop_time t \<noteq> 0 \<and> ts \<noteq> [] \<and> hd ts < t_stop_time t)
      in if \<not> more \<and> \<not> early then Runs io
         else then_proc (run_tests h (t_env t) (t_tests t k) io) (\<lambda>io.
              then_proc (heartbeat h t (Suc k) io)
                (test_loop h t (Suc k) (if more then Suc i else i)
                   (if t_stop_time t \<noteq> 0 then tl ts else ts))))"
  by pat_completeness auto
termination
  by (relation "measure (\<lambda>(h, t, k, i, ts, io). nat (t_iterations t mod 2 ^ 32) - i + length ts)") auto

declare test_loop.simps [simp del]

definition testrun :: "test_proc \<Rightarrow> io \<Rightarrow> io proc" where
  "testrun t io =
     (let h = tst_vbrk True (t_cleanup t)
      in then_proc (heartbeat (tst_vbrk False (t_cleanup t)) t 0 io) (\<lambda>io.
         then_proc (do_test_setup h t io) (\<lambda>io.
         then_proc (test_loop h t 0 0 (t_times t) io) (\<lambda>io.
         then_proc (do_test_cleanup (t_cleanup t) io) (\<lambda>io.
         Exited 0 io)))))"

subsection \<open>What is counted\<close>

text \<open>The abstract view of a process: the types of the results that it counts, in order, and how it
  ends.\<close>

datatype ending = Fine | Ends int | Dies signo

type_synonym spec = "int list \<times> ending"

fun spec_then :: "spec \<Rightarrow> spec \<Rightarrow> spec" where
  "spec_then (ts, Fine) (us, e) = (ts @ us, e)"
| "spec_then (ts, e) _ = (ts, e)"

lemma spec_then_assoc: "spec_then (spec_then a b) c = spec_then a (spec_then b c)"
  by (cases a; cases b; cases c; cases "snd a"; cases "snd b") auto

lemma spec_then_Fine [simp]: "spec_then ([], Fine) a = a" "spec_then a ([], Fine) = a"
  by (cases a; simp) (cases a; cases "snd a"; simp)

fun ends_as :: "ending \<Rightarrow> io \<Rightarrow> io proc" where
  "ends_as Fine io = Runs io"
| "ends_as (Ends n) io = Exited n io"
| "ends_as (Dies s) io = Killed s io"

text \<open>The code \<open>f\<close> implements the abstract view \<open>a\<close>: started with mapped results it counts and ends as
  described.  Only stderr is left open.\<close>

definition impl :: "(io \<Rightarrow> io proc) \<Rightarrow> spec \<Rightarrow> bool" where
  "impl f a \<longleftrightarrow> (\<forall>io. shm io \<noteq> None \<longrightarrow>
     (\<exists>io'. f io = ends_as (snd a) io' \<and> shm io' = shm (fold update_results (fst a) io) \<and> out io' = out io))"

lemma shm_update_cong: "shm io = shm io' \<Longrightarrow> shm (update_results t io) = shm (update_results t io')"
  by (cases "shm io'") (simp_all add: update_results_def)

lemma shm_fold_cong: "shm io = shm io' \<Longrightarrow> shm (fold update_results ts io) = shm (fold update_results ts io')"
proof (induction ts arbitrary: io io')
  case (Cons t ts)
  show ?case using Cons.IH [OF shm_update_cong [OF Cons.prems]] by simp
qed simp

lemma shm_fold_mapped: "shm (fold update_results ts io) = None \<longleftrightarrow> shm io = None"
proof (induction ts arbitrary: io)
  case (Cons t ts)
  have "shm (update_results t io) = None \<longleftrightarrow> shm io = None" by (cases "shm io") (simp_all add: update_results_def)
  then show ?case using Cons by simp
qed simp

lemma out_fold [simp]: "out (fold update_results ts io) = out io"
  by (induction ts arbitrary: io) auto

lemma impl_then:
  assumes "impl f a" "impl g b"
  shows "impl (\<lambda>io. then_proc (f io) g) (spec_then a b)"
  unfolding impl_def
proof (intro allI impI)
  fix io :: io assume m: "shm io \<noteq> None"
  obtain ts e us e' where ab: "a = (ts, e)" "b = (us, e')" by fastforce
  obtain io1 where f: "f io = ends_as e io1" "shm io1 = shm (fold update_results ts io)" "out io1 = out io"
    using assms(1) m unfolding impl_def ab by auto
  have m1: "shm io1 \<noteq> None" using f(2) m by (simp add: shm_fold_mapped)
  obtain io2 where g: "g io1 = ends_as e' io2" "shm io2 = shm (fold update_results us io1)" "out io2 = out io1"
    using assms(2) m1 unfolding impl_def ab by auto
  have "shm io2 = shm (fold update_results (ts @ us) io)"
    using g(2) shm_fold_cong [OF f(2), of us] by simp
  then show "\<exists>io'. then_proc (f io) g = ends_as (snd (spec_then a b)) io'
      \<and> shm io' = shm (fold update_results (fst (spec_then a b)) io) \<and> out io' = out io"
    using f g ab by (cases e) auto
qed

lemma impl_Runs: "impl Runs ([], Fine)" "impl (Killed s) ([], Dies s)" "impl (Exited n) ([], Ends n)"
  by (auto simp: impl_def)

subsection \<open>Reports with a short file name\<close>

definition good :: "report \<Rightarrow> bool" where
  "good r \<longleftrightarrow> result_name (r_type r) \<noteq> None \<and> head_length (r_env r) (r_file r) (r_line r) \<le> 982"

text \<open>The warning that announces a long message.\<close>

definition counted_types :: "report \<Rightarrow> int list" where
  "counted_types r =
     (if 1022 \<le> length (full_line (r_env r) (r_file r) (r_line r) (r_type r) (r_msg r)) then [TWARN] else [])"

lemma shm_put_line [simp]: "shm (put_line e t io) = shm io" "out (put_line e t io) = out io"
  by (simp_all add: put_line_def Let_def)

lemma impl_print_then:
  assumes "good r" "impl f a"
  shows "impl (print_then h r f) (spec_then (counted_types r, Fine) a)"
proof -
  let ?p = "print_result (r_env r) (r_file r) (r_line r) (r_type r) (r_msg r)"
  have ok: "result_name (r_type r) \<noteq> None" "head_length (r_env r) (r_file r) (r_line r) \<le> 982"
    using assms(1) by (simp_all add: good_def)
  have p: "\<exists>io'. ?p io = Some (Ret (Some io')) \<and> shm io' = shm (fold update_results (counted_types r) io) \<and> out io' = out io" for io
  proof (cases "length (full_line (r_env r) (r_file r) (r_line r) (r_type r) (r_msg r)) < 1022")
    case True
    then show ?thesis using print_result_short [OF ok(1) True] by (simp add: counted_types_def)
  next
    case False
    have "shm (update_results TWARN (put_line (r_env r) x io)) = shm (update_results TWARN io)" for x
      by (rule shm_update_cong) simp
    then show ?thesis using print_result_long [OF ok(1) _ ok(2), of "r_msg r" io] False by (simp add: counted_types_def)
  qed
  define g where "g = (\<lambda>io. case ?p io of Some (Ret (Some io)) \<Rightarrow> Runs io | _ \<Rightarrow> Stuck)"
  have "\<exists>io'. g io = Runs io' \<and> shm io' = shm (fold update_results (counted_types r) io) \<and> out io' = out io" for io
    using p [of io] by (auto simp: g_def)
  then have "impl g (counted_types r, Fine)" by (simp add: impl_def)
  note i = impl_then [OF this assms(2)]
  have "print_then h r f = (\<lambda>io. then_proc (g io) f)"
  proof
    fix io
    show "print_then h r f io = then_proc (g io) f" using p [of io] by (auto simp: print_then_def g_def)
  qed
  then show ?thesis using i by simp
qed

lemma impl_update: "impl (\<lambda>io. Runs (update_results t io)) ([t], Fine)"
  by (auto simp: impl_def)

lemma impl_vres: "good r \<Longrightarrow> impl (tst_vres h r) (counted_types r @ [r_result r], Fine)"
  using impl_print_then [OF _ impl_update, of r h "r_result r"] by (simp add: tst_vres_def [abs_def] eta_contract_eq)

subsection \<open>The abstract view of the handlers and of the calls\<close>

definition cv_spec :: "report \<Rightarrow> spec" where
  "cv_spec r = (counted_types (as_warning r) @ [r_result (as_warning r)], Fine)"

fun check_spec :: "(report \<Rightarrow> spec) \<Rightarrow> msg_env \<Rightarrow> pid \<Rightarrow> int \<Rightarrow> spec" where
  "check_spec hs e p status =
     spec_then
       (if WIFSIGNALED status
        then hs (lib_report e 354 TBROK (child_text p (''killed by signal '' @ tst_strsig (WTERMSIG status))))
        else ([], Fine))
     (spec_then
       (if \<not> WIFEXITED status then hs (lib_report e 359 TBROK (child_text p ''exited abnormaly'')) else ([], Fine))
     (let ret = WEXITSTATUS status
      in if ret = TPASS then ([], Fine)
         else if ret = TBROK \<or> ret = TCONF
         then hs (lib_report e 367 ret (''Reported by child ('' @ show_int p @ '')''))
         else hs (lib_report e 370 TBROK (''Invalid child ('' @ show_int p @ '') exit value '' @ show_int ret))))"

declare check_spec.simps [simp del]

fun reap_spec :: "(report \<Rightarrow> spec) \<Rightarrow> msg_env \<Rightarrow> wait_answer list \<Rightarrow> spec" where
  "reap_spec hs e [] = ([], Fine)"
| "reap_spec hs e (Reaped p status # ws) = spec_then (check_spec hs e p status) (reap_spec hs e ws)"
| "reap_spec hs e (Wait_error en # ws) =
     (if en = ECHILD then ([], Fine)
      else if en = EINTR then reap_spec hs e ws
      else spec_then (hs (lib_report (e\<lparr>m_errno := en\<rparr>) 393 (TBROK OR TERRNO) ''wait() failed''))
             (reap_spec hs e ws))"

fun act_spec :: "(report \<Rightarrow> spec) \<Rightarrow> test_act \<Rightarrow> spec" where
  "act_spec hs (Res r) = (counted_types r @ [r_result r], Fine)"
| "act_spec hs (Brk r) = hs r"
| "act_spec hs (Brkm r) = spec_then (hs r) ([], Dies SIGABRT)"
| "act_spec hs (Child_res r) = (counted_types r @ [r_result r], Fine)"
| "act_spec hs (Reap e ws) = reap_spec hs e ws"
| "act_spec hs (Exit n) = ([], Ends n)"
| "act_spec hs (Signal s) = ([], Dies s)"

fun acts_spec :: "(report \<Rightarrow> spec) \<Rightarrow> test_act list \<Rightarrow> spec" where
  "acts_spec hs [] = ([], Fine)"
| "acts_spec hs (a # as) = spec_then (act_spec hs a) (acts_spec hs as)"

definition clean_spec :: "test_act list option \<Rightarrow> spec" where
  "clean_spec clean = (case clean of None \<Rightarrow> ([], Fine) | Some as \<Rightarrow> acts_spec cv_spec as)"

definition vb_spec :: "bool \<Rightarrow> test_act list option \<Rightarrow> report \<Rightarrow> spec" where
  "vb_spec main clean r =
     spec_then (counted_types r, Fine)
       (spec_then (if main then clean_spec clean else ([], Fine)) ([], Ends (r_result r)))"

text \<open>The reports of a test that the abstract view covers.\<close>

fun good_act :: "test_act \<Rightarrow> bool" where
  "good_act (Res r) = good r"
| "good_act (Brk r) = good r"
| "good_act (Brkm r) = good r"
| "good_act (Child_res r) = good r"
| "good_act _ = True"

definition good_acts :: "test_act list option \<Rightarrow> bool" where
  "good_acts as \<longleftrightarrow> (\<forall>xs. as = Some xs \<longrightarrow> (\<forall>a \<in> set xs. good_act a))"

lemma TTYPE_RESULT_warning: "TTYPE_RESULT ((t AND NOT TTYPE_MASK) OR TWARN) = TWARN"
proof -
  have "((t AND NOT TTYPE_MASK) OR TWARN) AND TTYPE_MASK = TWARN AND TTYPE_MASK"
    by (rule bit_eqI) (auto simp: bit_simps)
  then show ?thesis by (simp add: TTYPE_RESULT_def ttype_defs)
qed

lemma r_result_as_warning [simp]: "r_result (as_warning r) = (if r_result r = TBROK then TWARN else r_result r)"
  by (simp add: as_warning_def TTYPE_RESULT_warning)

lemma good_as_warning: "good r \<Longrightarrow> good (as_warning r)"
  by (auto simp: good_def as_warning_def result_name_def TTYPE_RESULT_warning Let_def)

lemma good_lib_report:
  assumes "0 \<le> l" "l \<le> INT_MAX" "t \<in> {TBROK, TCONF, TBROK OR TERRNO, TWARN OR TERRNO}"
  shows "good (lib_report e l t m)"
proof -
  have "length (show_int l) \<le> 11" using assms(1,2) length_show_int [of l] by (simp add: int_limits)
  moreover have "result_name t \<noteq> None" using assms(3) by (auto simp: result_name_def TTYPE_RESULT_def ttype_defs)
  ultimately show ?thesis by (simp add: good_def lib_report_def head_length_def)
qed

lemmas good_lib = good_lib_report [unfolded int_limits]

lemma impl_cvres_once: "good r \<Longrightarrow> impl (cvres_once h r) (cv_spec r)"
  using impl_print_then [OF good_as_warning impl_update, of r h "r_result (as_warning r)"]
  by (simp add: cvres_once_def [abs_def] cv_spec_def Let_def)

subsection \<open>A contract for \<open>tst_brk_handler\<close>\<close>

locale brk_contract =
  fixes h :: handler and hs :: "report \<Rightarrow> spec"
  assumes law: "good r \<Longrightarrow> impl (h r) (hs r)"
begin

lemma check_impl: "impl (check_child_status h e p status) (check_spec hs e p status)"
proof -
  have "impl (\<lambda>io. if c then h (lib_report e l TBROK m) io else Runs io)
      (if c then hs (lib_report e l TBROK m) else ([], Fine))" if "l \<in> {354, 359}" for c l m
    using that law [OF good_lib, of l TBROK] impl_Runs(1) by auto
  moreover have "impl (\<lambda>io. let ret = WEXITSTATUS status
     in if ret = TPASS then Runs io
        else if ret = TBROK \<or> ret = TCONF
        then h (lib_report e 367 ret (''Reported by child ('' @ show_int p @ '')'')) io
        else h (lib_report e 370 TBROK (''Invalid child ('' @ show_int p @ '') exit value '' @ show_int ret)) io)
     (let ret = WEXITSTATUS status
      in if ret = TPASS then ([], Fine)
         else if ret = TBROK \<or> ret = TCONF
         then hs (lib_report e 367 ret (''Reported by child ('' @ show_int p @ '')''))
         else hs (lib_report e 370 TBROK (''Invalid child ('' @ show_int p @ '') exit value '' @ show_int ret)))"
    using law [OF good_lib, of 367 TBROK] law [OF good_lib, of 367 TCONF] law [OF good_lib, of 370 TBROK] impl_Runs(1)
    by (auto simp: Let_def)
  ultimately show ?thesis
    unfolding check_child_status_def [abs_def] check_spec.simps by (intro impl_then) auto
qed

lemma reap_impl: "impl (tst_reap_children h e ws) (reap_spec hs e ws)"
proof (induction ws)
  case (Cons w ws)
  show ?case
  proof (cases w)
    case (Reaped p status)
    then show ?thesis using impl_then [OF check_impl Cons.IH, of e p status] by simp
  next
    case (Wait_error en)
    have "impl (h (lib_report (e\<lparr>m_errno := en\<rparr>) 393 (TBROK OR TERRNO) ''wait() failed''))
        (hs (lib_report (e\<lparr>m_errno := en\<rparr>) 393 (TBROK OR TERRNO) ''wait() failed''))"
      by (intro law good_lib) auto
    from impl_then [OF this Cons.IH] show ?thesis
      using Cons.IH impl_Runs(1) Wait_error by (simp add: impl_def)
  qed
qed (use impl_Runs(1) in \<open>simp add: impl_def\<close>)

lemma act_impl: "good_act a \<Longrightarrow> impl (exec_act h a) (act_spec hs a)"
proof (induction a)
  case (Child_res r)
  then have i: "impl (tst_vres child_handler r) (counted_types r @ [r_result r], Fine)" by (simp add: impl_vres)
  have "child_res r io = tst_vres child_handler r io" if "shm io \<noteq> None" for io
    using i that by (fastforce simp: impl_def child_res_def)
  with i show ?case by (simp add: impl_def)
next
  case (Brkm r)
  then show ?case using impl_then [OF law impl_Runs(2), of r SIGABRT] by (simp add: impl_def)
qed (use impl_vres law reap_impl impl_Runs in \<open>auto simp: impl_def\<close>)

lemma acts_impl: "\<forall>a \<in> set as. good_act a \<Longrightarrow> impl (exec_acts h as) (acts_spec hs as)"
proof (induction as)
  case (Cons a as)
  then show ?case using impl_then [OF act_impl Cons.IH, of a] by (simp add: impl_def)
qed (use impl_Runs(1) in \<open>simp add: impl_def\<close>)

end

interpretation cv: brk_contract tst_cvres cv_spec
  by unfold_locales (simp add: tst_cvres_def [abs_def] impl_cvres_once)

lemma impl_cleanup: "good_acts clean \<Longrightarrow> impl (do_test_cleanup clean) (clean_spec clean)"
  using cv.acts_impl impl_Runs(1)
  by (auto simp: do_test_cleanup_def [abs_def] clean_spec_def good_acts_def split: option.splits)

lemma vbrk_contract:
  assumes "good_acts clean"
  shows "brk_contract (tst_vbrk main clean) (vb_spec main clean)"
proof
  fix r assume r: "good r"
  have "impl (\<lambda>io. then_proc (if main then do_test_cleanup clean io else Runs io) (\<lambda>io. Exited (r_result r) io))
      (spec_then (if main then clean_spec clean else ([], Fine)) ([], Ends (r_result r)))"
    using impl_cleanup [OF assms] impl_Runs(1,3) by (intro impl_then) auto
  from impl_print_then [OF r this] show "impl (tst_vbrk main clean r) (vb_spec main clean r)"
    by (simp add: tst_vbrk_def [abs_def] vbrk_once_def [abs_def] vb_spec_def)
qed

interpretation vb: brk_contract "tst_vbrk False None" "vb_spec False None"
  by (rule vbrk_contract) (simp add: good_acts_def)

subsection \<open>Counting\<close>

definition add_counts :: "int list \<Rightarrow> results \<Rightarrow> results" where
  "add_counts ts r = r\<lparr>passed := passed r + of_nat (count_list ts TPASS), skipped := skipped r + of_nat (count_list ts TCONF),
     failed := failed r + of_nat (count_list ts TFAIL), warnings := warnings r + of_nat (count_list ts TWARN)\<rparr>"

lemma shm_fold: "shm (fold update_results ts io) = map_option (add_counts ts) (shm io)"
proof (induction ts arbitrary: io)
  case Nil
  then show ?case by (cases "shm io") (simp_all add: add_counts_def)
next
  case (Cons t ts)
  have u: "shm (update_results t io) = map_option (add_counts [t]) (shm io)"
    by (cases "shm io") (simp_all add: update_results_def add_counts_def ttype_defs)
  have "add_counts ts (add_counts [t] r) = add_counts (t # ts) r" for r
    by (simp add: add_counts_def add.assoc)
  then show ?case using Cons by (simp add: u option.map_comp comp_def)
qed

text \<open>A test function has not reported a result; the counters wrap around.\<close>

definition silent :: "int list \<Rightarrow> bool" where
  "silent ts \<longleftrightarrow> (\<forall>t \<in> {TPASS, TFAIL, TCONF}. 2 ^ 32 dvd count_list ts t)"

lemma results_equal_silent: "results_equal r (add_counts ts r) \<longleftrightarrow> silent ts"
  by (auto simp: results_equal_def add_counts_def silent_def word_of_nat_eq_0_iff)

definition one_spec :: "(report \<Rightarrow> spec) \<Rightarrow> msg_env \<Rightarrow> int \<Rightarrow> string \<Rightarrow> script \<Rightarrow> spec" where
  "one_spec hs e lineno what sc =
     (let a = spec_then (acts_spec hs (fst sc)) (reap_spec hs e (snd sc))
      in if snd a = Fine \<and> silent (fst a)
         then spec_then a (hs (lib_report e lineno TBROK (what @ '' haven't reported results!''))) else a)"

fun cases_spec :: "(report \<Rightarrow> spec) \<Rightarrow> msg_env \<Rightarrow> nat \<Rightarrow> script list \<Rightarrow> spec" where
  "cases_spec hs e i [] = ([], Fine)"
| "cases_spec hs e i (sc # scs) =
     spec_then (one_spec hs e 1061 (''Test '' @ show_nat i) sc) (cases_spec hs e (Suc i) scs)"

fun tests_spec :: "(report \<Rightarrow> spec) \<Rightarrow> msg_env \<Rightarrow> tests \<Rightarrow> spec" where
  "tests_spec hs e (Test_all sc) = one_spec hs e 1046 ''Test'' sc"
| "tests_spec hs e (Test scs) = cases_spec hs e 0 scs"

definition good_script :: "script \<Rightarrow> bool" where
  "good_script sc \<longleftrightarrow> (\<forall>a \<in> set (fst sc). good_act a)"

fun good_tests :: "tests \<Rightarrow> bool" where
  "good_tests (Test_all sc) = good_script sc"
| "good_tests (Test scs) = (\<forall>sc \<in> set scs. good_script sc)"

definition beat_spec :: "test_proc \<Rightarrow> nat \<Rightarrow> spec" where
  "beat_spec t n =
     (if t_clock t n then ([], Fine)
      else (counted_types (lib_report (t_env t) 1095 (TWARN OR TERRNO) ''tst_clock_gettime() failed'') @ [TWARN], Fine))"

fun rounds_spec :: "(report \<Rightarrow> spec) \<Rightarrow> test_proc \<Rightarrow> nat \<Rightarrow> nat \<Rightarrow> spec" where
  "rounds_spec hs t k 0 = ([], Fine)"
| "rounds_spec hs t k (Suc n) =
     spec_then (tests_spec hs (t_env t) (t_tests t k)) (spec_then (beat_spec t (Suc k)) (rounds_spec hs t (Suc k) n))"

text \<open>The number of rounds: as many as \<open>iterations\<close>, read as an unsigned number, or as the stop time
  allows.\<close>

definition rounds_left :: "test_proc \<Rightarrow> nat \<Rightarrow> int list \<Rightarrow> nat" where
  "rounds_left t i ts =
     max (nat (t_iterations t mod 2 ^ 32) - i)
         (if t_stop_time t \<noteq> 0 then length (takeWhile (\<lambda>x. x < t_stop_time t) ts) else 0)"

lemma heartbeat_impl: "impl (heartbeat h t n) (beat_spec t n)"
proof -
  have "good (lib_report (t_env t) 1095 (TWARN OR TERRNO) ''tst_clock_gettime() failed'')"
    by (rule good_lib) auto
  from impl_vres [OF this, of h] show ?thesis
    using impl_Runs(1) by (auto simp: heartbeat_def [abs_def] beat_spec_def lib_report_def TTYPE_RESULT_def ttype_defs)
qed

lemma rounds_left_step:
  assumes "sorted ts"
  shows "rounds_left t i ts =
    (let more = int i < t_iterations t mod 2 ^ 32;
         early = (t_stop_time t \<noteq> 0 \<and> ts \<noteq> [] \<and> hd ts < t_stop_time t)
     in if \<not> more \<and> \<not> early then 0
        else Suc (rounds_left t (if more then Suc i else i) (if t_stop_time t \<noteq> 0 then tl ts else ts)))"
proof -
  define N where "N = nat (t_iterations t mod 2 ^ 32)"
  define m where "m = (\<lambda>ts. if t_stop_time t \<noteq> 0 then length (takeWhile (\<lambda>x. x < t_stop_time t) ts) else 0)"
  have more: "int i < t_iterations t mod 2 ^ 32 \<longleftrightarrow> i < N" by (auto simp: N_def)
  have left: "rounds_left t i ts = max (N - i) (m ts)" for i ts by (simp add: rounds_left_def N_def m_def)
  have tl: "m ts = (if t_stop_time t \<noteq> 0 \<and> ts \<noteq> [] \<and> hd ts < t_stop_time t then Suc (m (tl ts)) else 0)"
    by (cases ts) (auto simp: m_def)
  have "m (tl ts) = 0" if "m ts = 0"
  proof (cases ts)
    case (Cons x xs)
    with that assms show ?thesis by (cases xs) (auto simp: m_def split: if_splits)
  qed (simp add: m_def)
  moreover have "m ts = 0" if "t_stop_time t = 0" for ts using that by (simp add: m_def)
  ultimately show ?thesis unfolding left more Let_def using tl by (auto simp: max_def split: if_splits)
qed

lemma then_proc_assoc: "then_proc (then_proc p f) g = then_proc p (\<lambda>io. then_proc (f io) g)"
  by (cases p) auto

lemma add_counts_append: "add_counts us (add_counts vs r) = add_counts (vs @ us) r"
  by (simp add: add_counts_def add.assoc)

lemma implD:
  assumes "impl f a" "shm io = Some r"
  obtains io' where "f io = ends_as (snd a) io'" "shm io' = Some (add_counts (fst a) r)" "out io' = out io"
  using assms by (auto simp: impl_def shm_fold)

lemma implI:
  assumes "\<And>io r. shm io = Some r \<Longrightarrow>
    \<exists>io'. f io = ends_as (snd a) io' \<and> shm io' = Some (add_counts (fst a) r) \<and> out io' = out io"
  shows "impl f a"
  using assms by (auto simp: impl_def shm_fold)

text \<open>The check that a function has reported something.\<close>

lemma impl_check:
  assumes f: "impl f a" and g: "impl g b"
  shows "impl (\<lambda>io. case shm io of None \<Rightarrow> Undef ''null pointer''
     | Some saved \<Rightarrow> then_proc (f io) (\<lambda>io. case shm io of None \<Rightarrow> Undef ''null pointer''
         | Some now \<Rightarrow> if results_equal saved now then g io else Runs io))
     (if snd a = Fine \<and> silent (fst a) then spec_then a b else a)"
proof (rule implI, goal_cases)
  case (1 io r)
  obtain io1 where 2: "f io = ends_as (snd a) io1" "shm io1 = Some (add_counts (fst a) r)" "out io1 = out io"
    using implD [OF f 1] .
  obtain io2 where 3: "g io1 = ends_as (snd b) io2" "shm io2 = Some (add_counts (fst b) (add_counts (fst a) r))"
      "out io2 = out io1" using implD [OF g 2(2)] .
  show ?case
  proof (cases "snd a = Fine \<and> silent (fst a)")
    case True
    then have "spec_then a b = (fst a @ fst b, snd b)" by (cases a; cases b) simp
    then show ?thesis using True 1 2 3 add_counts_append
      by (intro exI [of _ io2]) (simp add: results_equal_silent)
  next
    case False
    then show ?thesis using 1 2 by (intro exI [of _ io1]) (cases "snd a"; auto simp: results_equal_silent)
  qed
qed

context brk_contract
begin

lemma one_impl:
  assumes "good_script sc" "0 \<le> l" "l \<le> INT_MAX"
  shows "impl (run_one h e l what sc) (one_spec hs e l what sc)"
proof -
  let ?b = "lib_report e l TBROK (what @ '' haven't reported results!'')"
  have "impl (exec_acts h (fst sc)) (acts_spec hs (fst sc))"
    using assms(1) by (intro acts_impl) (simp add: good_script_def)
  from impl_then [OF this reap_impl] have "impl (\<lambda>io. then_proc (exec_acts h (fst sc) io) (tst_reap_children h e (snd sc)))
      (spec_then (acts_spec hs (fst sc)) (reap_spec hs e (snd sc)))" .
  moreover have "impl (h ?b) (hs ?b)" using assms(2,3) by (intro law good_lib_report) simp_all
  ultimately show ?thesis
    unfolding run_one_def [abs_def] one_spec_def Let_def then_proc_assoc [symmetric] by (rule impl_check)
qed

lemma cases_impl: "\<forall>sc \<in> set scs. good_script sc \<Longrightarrow> impl (run_cases h e i scs) (cases_spec hs e i scs)"
proof (induction scs arbitrary: i)
  case (Cons sc scs)
  have a: "impl (run_one h e 1061 (''Test '' @ show_nat i) sc) (one_spec hs e 1061 (''Test '' @ show_nat i) sc)"
    using Cons.prems by (intro one_impl) (simp_all add: int_limits)
  have b: "impl (run_cases h e (Suc i) scs) (cases_spec hs e (Suc i) scs)" using Cons by simp
  have "run_cases h e i (sc # scs)
      = (\<lambda>io. then_proc (run_one h e 1061 (''Test '' @ show_nat i) sc io) (run_cases h e (Suc i) scs))"
    by (rule ext) simp
  then show ?case using impl_then [OF a b] by simp
qed (use impl_Runs(1) in \<open>simp add: impl_def\<close>)

lemma tests_impl: "good_tests ts \<Longrightarrow> impl (run_tests h e ts) (tests_spec hs e ts)"
  using one_impl [of _ 1046 e "''Test''"] cases_impl [of _ e 0] by (cases ts) (simp_all add: impl_def int_limits)

lemma loop_impl:
  assumes "\<forall>k. good_tests (t_tests t k)" "sorted ts"
  shows "impl (test_loop h t k i ts) (rounds_spec hs t k (rounds_left t i ts))"
  using assms(2)
proof (induction "rounds_left t i ts" arbitrary: k i ts)
  case 0
  then have "test_loop h t k i ts = Runs"
    using rounds_left_step [OF 0(2), of t i] by (intro ext) (subst test_loop.simps, auto simp: Let_def split: if_splits)
  then show ?case using 0(1) impl_Runs(1) by (simp flip: 0(1))
next
  case (Suc n)
  let ?more = "int i < t_iterations t mod 2 ^ 32"
  let ?i = "if ?more then Suc i else i" and ?ts = "if t_stop_time t \<noteq> 0 then tl ts else ts"
  let ?go = "?more \<or> t_stop_time t \<noteq> 0 \<and> ts \<noteq> [] \<and> hd ts < t_stop_time t"
  have st: "Suc n = (if \<not> ?go then 0 else Suc (rounds_left t ?i ?ts))"
    unfolding Suc.hyps(2) by (subst rounds_left_step [OF Suc.prems]) (simp only: Let_def de_Morgan_disj)
  have go: ?go by (rule ccontr) (use st in \<open>simp only: if_True not_False_eq_True nat.distinct\<close>)
  have n: "n = rounds_left t ?i ?ts" using st go by (simp only: if_False simp_thms nat.inject)
  have "impl (test_loop h t (Suc k) ?i ?ts) (rounds_spec hs t (Suc k) n)"
    unfolding n by (rule Suc.hyps(1) [OF n]) (use Suc.prems in \<open>simp add: sorted_tl\<close>)
  from impl_then [OF heartbeat_impl this]
  have "impl (\<lambda>io. then_proc (heartbeat h t (Suc k) io) (test_loop h t (Suc k) ?i ?ts))
      (spec_then (beat_spec t (Suc k)) (rounds_spec hs t (Suc k) n))" .
  from impl_then [OF tests_impl this, of "t_tests t k" "t_env t"] assms(1)
  have "impl (\<lambda>io. then_proc (run_tests h (t_env t) (t_tests t k) io)
      (\<lambda>io. then_proc (heartbeat h t (Suc k) io) (test_loop h t (Suc k) ?i ?ts)))
      (rounds_spec hs t k (rounds_left t i ts))" unfolding Suc.hyps(2) [symmetric] rounds_spec.simps by blast
  moreover have "test_loop h t k i ts io = then_proc (run_tests h (t_env t) (t_tests t k) io)
      (\<lambda>io. then_proc (heartbeat h t (Suc k) io) (test_loop h t (Suc k) ?i ?ts))" for io
    using go by (subst test_loop.simps) (auto simp: Let_def)
  ultimately show ?case unfolding impl_def by simp
qed

end

subsection \<open>The test process\<close>

definition good_test :: "test_proc \<Rightarrow> bool" where
  "good_test t \<longleftrightarrow> good_acts (t_setup t) \<and> good_acts (t_cleanup t) \<and> (\<forall>k. good_tests (t_tests t k))
     \<and> sorted (t_times t)"

definition proc_spec :: "test_proc \<Rightarrow> spec" where
  "proc_spec t =
     (let hs = vb_spec True (t_cleanup t)
      in spec_then (beat_spec t 0)
        (spec_then (case t_setup t of None \<Rightarrow> ([], Fine) | Some as \<Rightarrow> acts_spec hs as)
        (spec_then (rounds_spec hs t 0 (rounds_left t 0 (t_times t)))
        (spec_then (clean_spec (t_cleanup t)) ([], Ends 0)))))"

lemma testrun_impl:
  assumes "good_test t"
  shows "impl (testrun t) (proc_spec t)"
proof -
  let ?h = "tst_vbrk True (t_cleanup t)" and ?hs = "vb_spec True (t_cleanup t)"
  have c: "brk_contract ?h ?hs" using assms by (intro vbrk_contract) (simp add: good_test_def)
  have 1: "impl (do_test_setup ?h t) (case t_setup t of None \<Rightarrow> ([], Fine) | Some as \<Rightarrow> acts_spec ?hs as)"
    using brk_contract.acts_impl [OF c] assms impl_Runs(1)
    by (auto simp: do_test_setup_def [abs_def] good_test_def good_acts_def split: option.splits)
  have 2: "impl (test_loop ?h t 0 0 (t_times t)) (rounds_spec ?hs t 0 (rounds_left t 0 (t_times t)))"
    using assms by (intro brk_contract.loop_impl [OF c]) (auto simp: good_test_def)
  have 3: "impl (do_test_cleanup (t_cleanup t)) (clean_spec (t_cleanup t))"
    using assms by (intro impl_cleanup) (simp add: good_test_def)
  show ?thesis
    unfolding testrun_def [abs_def] proc_spec_def Let_def
    by (intro impl_then heartbeat_impl 1 2 3 impl_Runs(3))
qed

end
