(* ===== verification/Tst_Conf.thy ===== *)
theory Tst_Conf
  imports Tst_Flags
begin

section \<open>tst_sys_conf: saving and restoring kernel settings\<close>

text \<open>
  \<open>lib/tst_sys_conf.c\<close>.  The files are a map from paths to contents, in which a readable file has a
  content and a file that exists but cannot be opened is listed in \<open>cf_locked\<close>.  The saved values form a
  list, the newest first.
\<close>

unbundle bit_operations_syntax

record conf_fs =
  cf_files :: "string \<rightharpoonup> string"
  cf_locked :: "string list"

record sys_conf =
  sc_path :: string
  sc_value :: string

text \<open>\<open>strncpy\<close> copies at most \<open>PATH_MAX\<close> bytes, and leaves a longer string without terminating zero.\<close>

definition tst_sys_conf_save_str :: "string \<Rightarrow> string \<Rightarrow> sys_conf list \<Rightarrow> sys_conf list outcome" where
  "tst_sys_conf_save_str path val saved =
     (if PATH_MAX \<le> length path \<or> PATH_MAX \<le> length val then Undefined ''string without terminating zero''
      else Ret (\<lparr>sc_path = path, sc_value = val\<rparr> # saved))"

text \<open>The return value and the saved list; \<open>tst_brk\<close> ends the process.\<close>

definition tst_sys_conf_save :: "conf_fs \<Rightarrow> string option \<Rightarrow> sys_conf list \<Rightarrow> (int \<times> sys_conf list) outcome" where
  "tst_sys_conf_save fs name saved =
     (case name of
        None \<Rightarrow> tst_brk_exit TBROK
      | Some s \<Rightarrow>
          let flag = (if s = [] then NUL else hd s);
              path = (if flag = CHR ''?'' \<or> flag = CHR ''!'' then tl s else s)
          in case cf_files fs path of
               None \<Rightarrow> if flag = CHR ''?'' then Ret (1, saved)
                       else if flag = CHR ''!'' then tst_brk_exit (TBROK OR TERRNO)
                       else tst_brk_exit (TCONF OR TERRNO)
             | Some content \<Rightarrow>
                 if path \<in> set (cf_locked fs)
                 then if flag = CHR ''?'' then Ret (1, saved) else tst_brk_exit (TBROK OR TERRNO)
                 else if content = []
                 then if flag = CHR ''?'' then Ret (1, saved) else tst_brk_exit (TBROK OR TERRNO)
                 else bind_outcome (tst_sys_conf_save_str path (cstring (fgets PATH_MAX content)) saved)
                        (\<lambda>saved. Ret (0, saved)))"

text \<open>\<open>FILE_PRINTF\<close> replaces the content of a file, or warns when it cannot be opened.\<close>

fun tst_sys_conf_restore :: "sys_conf list \<Rightarrow> conf_fs \<Rightarrow> conf_fs" where
  "tst_sys_conf_restore [] fs = fs"
| "tst_sys_conf_restore (i # is) fs =
     tst_sys_conf_restore is
       (if sc_path i \<in> set (cf_locked fs) then fs
        else fs\<lparr>cf_files := (cf_files fs)(sc_path i \<mapsto> sc_value i)\<rparr>)"

fun save_all :: "conf_fs \<Rightarrow> string list \<Rightarrow> sys_conf list \<Rightarrow> sys_conf list outcome" where
  "save_all fs [] saved = Ret saved"
| "save_all fs (n # ns) saved =
     bind_outcome (tst_sys_conf_save fs (Some n) saved) (\<lambda>(_, saved). save_all fs ns saved)"

subsection \<open>Restoring\<close>

text \<open>A file of one line, as the settings of the kernel are.\<close>

definition one_line :: "string \<Rightarrow> bool" where
  "one_line c \<longleftrightarrow> length c < PATH_MAX \<and> NUL \<notin> set c \<and> (\<exists>l. c = l @ [NL] \<and> NL \<notin> set l)"

lemma fgets_one_line: "one_line c \<Longrightarrow> cstring (fgets PATH_MAX c) = c"
proof -
  assume "one_line c"
  then obtain l where c: "c = l @ [NL]" "NL \<notin> set l" "length c < PATH_MAX" "NUL \<notin> set c"
    by (auto simp: one_line_def)
  have "takeWhile (\<lambda>x. x \<noteq> NL) (l @ [NL]) = l" using c(2) by (subst takeWhile_append2) auto
  then have "fgets PATH_MAX c = c" using c(1,3) by (simp add: fgets_def)
  moreover have "cstring c = c" using c(4) unfolding cstring_def takeWhile_eq_all_conv by auto
  ultimately show ?thesis by simp
qed

text \<open>Every saved value is the first line of its file.\<close>

definition saved_from :: "conf_fs \<Rightarrow> sys_conf list \<Rightarrow> bool" where
  "saved_from fs saved \<longleftrightarrow> (\<forall>i \<in> set saved. sc_path i \<notin> set (cf_locked fs) \<and>
     (\<exists>c. cf_files fs (sc_path i) = Some c \<and> sc_value i = cstring (fgets PATH_MAX c)))"

lemma save_saved_from:
  assumes "tst_sys_conf_save fs name saved = Ret (r, saved')" "saved_from fs saved"
  shows "saved_from fs saved'"
  using assms
  by (auto simp: tst_sys_conf_save_def tst_sys_conf_save_str_def saved_from_def Let_def tst_brk_exit_def
      split: option.splits if_splits)

lemma save_all_saved_from:
  "save_all fs ns saved = Ret saved' \<Longrightarrow> saved_from fs saved \<Longrightarrow> saved_from fs saved'"
proof (induction ns arbitrary: saved)
  case (Cons n ns)
  then obtain r s where "tst_sys_conf_save fs (Some n) saved = Ret (r, s)" "save_all fs ns s = Ret saved'"
    by (cases "tst_sys_conf_save fs (Some n) saved") auto
  with Cons save_saved_from show ?case by blast
qed simp

lemma restore_locked [simp]: "cf_locked (tst_sys_conf_restore saved fs) = cf_locked fs"
  by (induction saved fs rule: tst_sys_conf_restore.induct) auto

lemma restore_value:
  assumes "\<forall>i \<in> set saved. sc_path i \<notin> set (cf_locked fs) \<and> F (sc_path i) = Some (sc_value i)"
  shows "cf_files (tst_sys_conf_restore saved fs) p = (if p \<in> sc_path ` set saved then F p else cf_files fs p)"
  using assms by (induction saved fs rule: tst_sys_conf_restore.induct) auto

text \<open>C21: the settings that \<open>tst_sys_conf_save\<close> has saved are restored by \<open>tst_sys_conf_restore\<close>, whatever a test
  has written in between, also when one of them was saved twice, and no other file is changed.  This
  is so for files of one line: of others only the first line is saved.\<close>

theorem sys_conf_restored:
  assumes "save_all fs names [] = Ret saved" "\<forall>i \<in> set saved. one_line (the (cf_files fs (sc_path i)))"
    and "cf_locked fs' = cf_locked fs"
  shows "cf_files (tst_sys_conf_restore saved fs') p = (if p \<in> sc_path ` set saved then cf_files fs p else cf_files fs' p)"
proof (rule restore_value, intro ballI)
  fix i assume i: "i \<in> set saved"
  have "saved_from fs saved" using save_all_saved_from [OF assms(1)] by (simp add: saved_from_def)
  then obtain c where "sc_path i \<notin> set (cf_locked fs)" "cf_files fs (sc_path i) = Some c"
      "sc_value i = cstring (fgets PATH_MAX c)" using i by (auto simp: saved_from_def)
  then show "sc_path i \<notin> set (cf_locked fs') \<and> cf_files fs (sc_path i) = Some (sc_value i)"
    using assms(2,3) i fgets_one_line [of c] by force
qed

definition ex_conf :: conf_fs where
  "ex_conf = \<lparr>cf_files = [''/a'' \<mapsto> ''1'' @ [NL], ''/b'' \<mapsto> ''x'' @ [NL]], cf_locked = []\<rparr>"

theorem sys_conf_restored_witness:
  "\<exists>saved. save_all ex_conf [''/a'', ''?/c'', ''!/a''] [] = Ret saved
     \<and> cf_files (tst_sys_conf_restore saved (ex_conf\<lparr>cf_files := [''/a'' \<mapsto> ''7'', ''/b'' \<mapsto> ''y'']\<rparr>)) ''/a'' = Some (''1'' @ [NL])"
proof -
  let ?s = "[\<lparr>sc_path = ''/a'', sc_value = ''1'' @ [NL]\<rparr>, \<lparr>sc_path = ''/a'', sc_value = ''1'' @ [NL]\<rparr>]"
  have "save_all ex_conf [''/a'', ''?/c'', ''!/a''] [] = Ret ?s"
    by (simp add: tst_sys_conf_save_def tst_sys_conf_save_str_def ex_conf_def PATH_MAX_def fgets_def cstring_def Let_def)
  then show ?thesis
    using sys_conf_restored [of ex_conf "[''/a'', ''?/c'', ''!/a'']" ?s "ex_conf\<lparr>cf_files := [''/a'' \<mapsto> ''7'', ''/b'' \<mapsto> ''y'']\<rparr>" "''/a''"]
    by (simp add: ex_conf_def one_line_def PATH_MAX_def)
qed

end
