(* ===== verification/Tst_Setup.thy ===== *)
theory Tst_Setup
  imports Tst_Test Tst_Conf Tst_Timer Kvercmp "HOL-Library.Multiset"
begin

section \<open>tst_test: setup and cleanup of the library\<close>

text \<open>
  The library process of \<open>lib/tst_test.c\<close>: \<open>do_setup\<close> with the functions it calls, \<open>do_cleanup\<close> and \<open>do_exit\<close>.
  The state holds the static variables of the file, and in \<open>held\<close> what the system has given out.
  \<open>tst_brk\<close> in this process calls \<open>do_exit\<close>; a step of the setup therefore ends with \<open>Break\<close> and the type.
  Which calls fail, and with which type they call \<open>tst_brk\<close> then, is an argument.
\<close>

unbundle bit_operations_syntax

subsection \<open>State\<close>

datatype resource = Ipc_fd | Shm_file | Mapping | Tmpdir | Mount | Overlay | Device

text \<open>The fields of \<open>struct tst_test\<close> that the library process reads.\<close>

record tst_test =
  tconf_msg :: bool
  has_test :: bool
  has_test_all :: bool
  has_sample :: bool
  tcnt :: nat
  needs_root :: bool
  min_kver :: "string option"
  needs_drivers :: "string list"
  want_format :: bool
  mount_device :: bool
  want_device :: bool
  all_filesystems :: bool
  request_hugepages :: bool
  needs_tmpdir :: bool
  needs_checkpoints :: bool
  child_needs_reinit :: bool
  has_bufs :: bool
  save_restore :: "string list"
  mntpoint :: bool
  needs_devfs :: bool
  needs_rofs :: bool
  needs_overlay :: bool
  resource_files :: "string list"
  restore_wallclock :: bool
  tags :: "(string \<times> string) list"

text \<open>The static variables; \<open>do_setup\<close> changes \<open>needs_device\<close> and \<open>format_device\<close> of the test.\<close>

record lib =
  l_io :: io
  needs_device :: bool
  format_device :: bool
  ipc_fd :: bool
  shm_in_tmp :: bool
  tmpdir :: bool
  mntpoint_mounted :: bool
  ovl_mounted :: bool
  tdev :: bool
  device_acquired :: bool
  l_clock :: wallclock
  l_conf :: "sys_conf list"
  l_fs :: conf_fs
  held :: "resource multiset"

datatype 'a step = Go 'a | Break int lib | Bad string

fun bind_step :: "'a step \<Rightarrow> ('a \<Rightarrow> 'b step) \<Rightarrow> 'b step" where
  "bind_step (Go x) f = f x"
| "bind_step (Break t l) f = Break t l"
| "bind_step (Bad why) f = Bad why"

datatype call = Open_shm | Chmod_shm | Truncate_shm | Map_shm | Unlink_shm | Close_shm
  | Mk_tmpdir | Hugepages | Alloc_bufs | Mkdir_mnt | Mount_devfs | Mount_ro bool | Make_dir | Make_file
  | Chmod_file | Remount_ro | Acquire | Mkfs | Mount_dev | Mount_ovl | Copy string

text \<open>The answers of the system.  \<open>a_fails c\<close> is the type of the \<open>tst_brk\<close> that a failing call \<open>c\<close> leads to;
  \<open>a_ltp_dev\<close> says that the device is the one of \<open>LTP_DEV\<close>, and not a loop device of its own.\<close>

record answers =
  a_fails :: "call \<Rightarrow> int option"
  a_kconfig :: "unit outcome"
  a_opts :: "int option"
  a_euid :: int
  a_release :: string
  a_driver :: "string \<Rightarrow> bool"
  a_dev_shm :: bool
  a_nodev :: bool
  a_ltp_dev :: bool
  a_real :: clock_answer
  a_raw :: clock_answer

definition attempt :: "answers \<Rightarrow> call \<Rightarrow> (lib \<Rightarrow> lib) \<Rightarrow> lib \<Rightarrow> lib step" where
  "attempt a c f l = (case a_fails a c of None \<Rightarrow> Go (f l) | Some t \<Rightarrow> Break t l)"

definition require :: "bool \<Rightarrow> int \<Rightarrow> lib \<Rightarrow> lib step" where
  "require c t l = (if c then Go l else Break t l)"

definition get :: "resource \<Rightarrow> lib \<Rightarrow> lib" where
  "get x l = l\<lparr>held := add_mset x (held l)\<rparr>"

definition warn :: "lib \<Rightarrow> lib" where
  "warn l = l\<lparr>l_io := update_results TWARN (l_io l)\<rparr>"

definition own :: "bool \<Rightarrow> resource \<Rightarrow> resource multiset" where
  "own c x = (if c then {#x#} else {#})"

text \<open>A resource is given back if the condition holds.\<close>

definition drop_res :: "bool \<Rightarrow> resource \<Rightarrow> lib \<Rightarrow> lib" where
  "drop_res c x l = l\<lparr>held := held l - own c x\<rparr>"

subsection \<open>Setup\<close>

definition lib_tmpdir :: "answers \<Rightarrow> lib \<Rightarrow> lib step" where
  "lib_tmpdir a l = (if tmpdir l then Go l else attempt a Mk_tmpdir (\<lambda>l. (get Tmpdir l)\<lparr>tmpdir := True\<rparr>) l)"

text \<open>A fresh shared page is zero.\<close>

definition no_results :: results where
  "no_results = \<lparr>passed = 0, skipped = 0, failed = 0, warnings = 0, timeout = 0\<rparr>"

definition map_results :: "lib \<Rightarrow> lib" where
  "map_results l = (get Mapping l)\<lparr>l_io := (l_io l)\<lparr>shm := Some no_results\<rparr>\<rparr>"

definition setup_ipc :: "tst_test \<Rightarrow> answers \<Rightarrow> lib \<Rightarrow> lib step" where
  "setup_ipc t a l =
     bind_step (if a_dev_shm a then Go l else lib_tmpdir a l) (\<lambda>l.
     bind_step (attempt a Open_shm
       (\<lambda>l. (get Shm_file (get Ipc_fd l))\<lparr>ipc_fd := True, shm_in_tmp := \<not> a_dev_shm a\<rparr>) l) (\<lambda>l.
     bind_step (attempt a Chmod_shm id l) (\<lambda>l.
     bind_step (attempt a Truncate_shm id l) (\<lambda>l.
     bind_step (attempt a Map_shm map_results l) (\<lambda>l.
     bind_step (if needs_checkpoints t \<or> child_needs_reinit t then Go l
       else attempt a Unlink_shm (drop_res True Shm_file) l) (\<lambda>l.
     attempt a Close_shm (\<lambda>l. (drop_res True Ipc_fd l)\<lparr>ipc_fd := False\<rparr>) l))))))"

definition assert_test_fn :: "tst_test \<Rightarrow> lib \<Rightarrow> lib step" where
  "assert_test_fn t l =
     (let cnt = (if has_test t then 1 else 0) + (if has_test_all t then 1 else 0) + (if has_sample t then 1 else 0 :: nat)
      in bind_step (require (cnt \<noteq> 0) TBROK l) (\<lambda>l.
         bind_step (require (cnt = 1) TBROK l) (\<lambda>l.
         bind_step (require (\<not> (has_test t \<and> tcnt t = 0)) TBROK l) (\<lambda>l.
         require (\<not> (\<not> has_test t \<and> tcnt t \<noteq> 0)) TBROK l))))"

text \<open>The warning for an invalid version comes before the results are mapped and is not counted.\<close>

definition check_kver :: "string \<Rightarrow> string \<Rightarrow> lib \<Rightarrow> lib step" where
  "check_kver release kver l =
     (let (_, v1, v2, v3) = tst_parse_kver kver
      in case tst_kvercmp release v1 v2 v3 of
           Ret d \<Rightarrow> require (\<not> d < 0) TCONF l
         | Exits n \<Rightarrow> Break n l
         | Aborts \<Rightarrow> Bad ''abort''
         | Undefined why \<Rightarrow> Bad why)"

fun check_drivers :: "answers \<Rightarrow> string list \<Rightarrow> lib \<Rightarrow> lib step" where
  "check_drivers a [] l = Go l"
| "check_drivers a (name # names) l =
     bind_step (require (a_driver a name) TCONF l) (check_drivers a names)"

fun save_confs :: "string list \<Rightarrow> lib \<Rightarrow> lib step" where
  "save_confs [] l = Go l"
| "save_confs (name # names) l =
     (case tst_sys_conf_save (l_fs l) (Some name) (l_conf l) of
        Ret (_, saved) \<Rightarrow> save_confs names (l\<lparr>l_conf := saved\<rparr>)
      | Exits n \<Rightarrow> Break n l
      | Aborts \<Rightarrow> Bad ''abort''
      | Undefined why \<Rightarrow> Bad why)"

definition mounted :: "lib \<Rightarrow> lib" where
  "mounted l = (get Mount l)\<lparr>mntpoint_mounted := True\<rparr>"

text \<open>The result is the return value, true when the file system could not be mounted.\<close>

definition prepare_and_mount_ro_fs :: "answers \<Rightarrow> bool \<Rightarrow> lib \<Rightarrow> (bool \<times> lib) step" where
  "prepare_and_mount_ro_fs a dev l =
     (if a_fails a (Mount_ro dev) \<noteq> None then Go (True, l)
      else bind_step (attempt a Make_dir id (mounted l)) (\<lambda>l.
           bind_step (attempt a Make_file id l) (\<lambda>l.
           bind_step (attempt a Chmod_file id l) (\<lambda>l.
           bind_step (attempt a Remount_ro id l) (\<lambda>l. Go (False, l))))))"

definition prepare_and_mount_dev_fs :: "answers \<Rightarrow> lib \<Rightarrow> lib step" where
  "prepare_and_mount_dev_fs a l = (if a_nodev a then attempt a Mount_devfs mounted l else Go l)"

definition prepare_device :: "tst_test \<Rightarrow> answers \<Rightarrow> lib \<Rightarrow> lib step" where
  "prepare_device t a l =
     bind_step (if format_device l then attempt a Mkfs id l else Go l) (\<lambda>l.
     if needs_rofs t then bind_step (prepare_and_mount_ro_fs a True l) (\<lambda>(_, l). Go l)
     else if mount_device t then attempt a Mount_dev mounted l
     else Go l)"

fun copy_resources :: "answers \<Rightarrow> string list \<Rightarrow> lib \<Rightarrow> lib step" where
  "copy_resources a [] l = Go l"
| "copy_resources a (f # fs) l = bind_step (attempt a (Copy f) id l) (copy_resources a fs)"

definition tmpdir_needed :: "tst_test \<Rightarrow> lib \<Rightarrow> bool" where
  "tmpdir_needed t l \<longleftrightarrow> needs_tmpdir t \<or> needs_device l \<or> mntpoint t \<or> resource_files t \<noteq> [] \<or> needs_checkpoints t"

definition tst_acquire_device :: "answers \<Rightarrow> lib \<Rightarrow> lib step" where
  "tst_acquire_device a l =
     attempt a Acquire (\<lambda>l. if a_ltp_dev a then l else (get Device l)\<lparr>device_acquired := True\<rparr>) l"

definition acquire_device :: "tst_test \<Rightarrow> answers \<Rightarrow> lib \<Rightarrow> lib step" where
  "acquire_device t a l =
     (if needs_device l \<and> \<not> mntpoint_mounted l
      then bind_step (tst_acquire_device a l) (\<lambda>l.
           if all_filesystems t then Go (l\<lparr>tdev := True\<rparr>) else prepare_device t a (l\<lparr>tdev := True\<rparr>))
      else Go l)"

definition mount_overlay :: "tst_test \<Rightarrow> answers \<Rightarrow> lib \<Rightarrow> lib step" where
  "mount_overlay t a l =
     bind_step (require (\<not> (needs_overlay t \<and> \<not> mount_device t)) TBROK l) (\<lambda>l.
     bind_step (require (\<not> (needs_overlay t \<and> \<not> mntpoint_mounted l)) TBROK l) (\<lambda>l.
     if needs_overlay t \<and> \<not> ovl_mounted l then attempt a Mount_ovl (\<lambda>l. (get Overlay l)\<lparr>ovl_mounted := True\<rparr>) l
     else Go l))"

definition save_clock :: "answers \<Rightarrow> lib \<Rightarrow> lib step" where
  "save_clock a l =
     (case tst_wallclock_save (a_real a) (a_raw a) (l_clock l) of
        Ret w \<Rightarrow> Go (l\<lparr>l_clock := w\<rparr>)
      | Exits n \<Rightarrow> Break n l
      | Aborts \<Rightarrow> Bad ''abort''
      | Undefined why \<Rightarrow> Bad why)"

text \<open>The checks before anything is acquired.\<close>

definition setup_checks :: "tst_test \<Rightarrow> answers \<Rightarrow> lib \<Rightarrow> lib step" where
  "setup_checks t a l =
     bind_step (require (\<not> tconf_msg t) TCONF l) (\<lambda>l.
     bind_step (case a_kconfig a of Ret _ \<Rightarrow> Go l | Exits n \<Rightarrow> Break n l | Aborts \<Rightarrow> Bad ''abort''
                | Undefined why \<Rightarrow> Bad why) (\<lambda>l.
     bind_step (assert_test_fn t l) (\<lambda>l.
     bind_step (case a_opts a of None \<Rightarrow> Go l | Some n \<Rightarrow> Break n l) (\<lambda>l.
     bind_step (require (\<not> (needs_root t \<and> a_euid a \<noteq> 0)) TCONF l) (\<lambda>l.
     bind_step (case min_kver t of None \<Rightarrow> Go l | Some v \<Rightarrow> check_kver (a_release a) v l) (\<lambda>l.
     check_drivers a (needs_drivers t) l))))))"

definition device_flags :: "tst_test \<Rightarrow> lib \<Rightarrow> lib" where
  "device_flags t l =
     l\<lparr>needs_device := want_device t \<or> want_format t \<or> mount_device t \<or> all_filesystems t,
       format_device := want_format t \<or> mount_device t\<rparr>"

text \<open>A failing mount of a read-only \<open>tmpfs\<close> falls back to a device.\<close>

definition setup_mounts :: "tst_test \<Rightarrow> answers \<Rightarrow> lib \<Rightarrow> lib step" where
  "setup_mounts t a l =
     bind_step (if mntpoint t then attempt a Mkdir_mnt id l else Go l) (\<lambda>l.
     bind_step (require (\<not> ((needs_devfs t \<or> needs_rofs t \<or> mount_device t \<or> all_filesystems t) \<and> \<not> mntpoint t)) TBROK l) (\<lambda>l.
     bind_step (require ((if needs_rofs t then 1 else 0) + (if needs_devfs t then 1 else 0)
                         + (if needs_device l then 1 else 0) \<le> (1 :: nat)) TBROK l) (\<lambda>l.
     bind_step (if needs_devfs t then prepare_and_mount_dev_fs a l else Go l) (\<lambda>l.
     bind_step (if needs_rofs t
                then bind_step (prepare_and_mount_ro_fs a False l) (\<lambda>(failed, l).
                     Go (if failed then l\<lparr>needs_device := True, format_device := True\<rparr> else l))
                else Go l) (\<lambda>l.
     bind_step (acquire_device t a l) (mount_overlay t a))))))"

definition do_setup :: "tst_test \<Rightarrow> answers \<Rightarrow> lib \<Rightarrow> lib step" where
  "do_setup t a l =
     bind_step (setup_checks t a l) (\<lambda>l.
     bind_step (if request_hugepages t then attempt a Hugepages id (device_flags t l) else Go (device_flags t l)) (\<lambda>l.
     bind_step (setup_ipc t a l) (\<lambda>l.
     bind_step (if has_bufs t then attempt a Alloc_bufs id l else Go l) (\<lambda>l.
     bind_step (if tmpdir_needed t l then lib_tmpdir a l else Go l) (\<lambda>l.
     bind_step (save_confs (save_restore t) l) (\<lambda>l.
     bind_step (setup_mounts t a l) (\<lambda>l.
     bind_step (copy_resources a (resource_files t) l) (\<lambda>l.
     if restore_wallclock t then save_clock a l else Go l))))))))"

subsection \<open>Cleanup\<close>

definition EBUSY :: errno where "EBUSY = 16"

text \<open>\<open>tst_umount\<close>: \<open>q\<close> are the errors of the next calls of \<open>umount\<close>, which succeeds after them.  The result
  says whether it succeeded.\<close>

fun umount_loop :: "nat \<Rightarrow> errno list \<Rightarrow> bool \<times> errno list" where
  "umount_loop i q =
     (if 50 \<le> i then (False, q)
      else case q of [] \<Rightarrow> (True, []) | e # q \<Rightarrow> if e \<noteq> EBUSY then (False, q) else umount_loop (Suc i) q)"

declare umount_loop.simps [simp del]

text \<open>What is not mounted cannot be unmounted.  A failure is a warning.\<close>

definition tst_umount :: "resource \<Rightarrow> errno list \<Rightarrow> lib \<Rightarrow> bool \<times> errno list \<times> lib" where
  "tst_umount x q l =
     (if x \<notin># held l then (False, q, warn l)
      else let (ok, q) = umount_loop 0 q in if ok then (True, q, drop_res True x l) else (False, q, warn l))"

text \<open>\<open>c_lost x\<close>: the call that gives back \<open>x\<close> fails, which is a warning each time.\<close>

record cleanup_answers =
  c_raw :: clock_answer
  c_set :: bool
  c_lost :: "resource \<Rightarrow> bool"
  c_colour :: bool

definition give_back :: "cleanup_answers \<Rightarrow> resource \<Rightarrow> lib \<Rightarrow> lib" where
  "give_back c x l = (if c_lost c x then warn l else drop_res True x l)"

definition tst_release_device :: "cleanup_answers \<Rightarrow> lib \<Rightarrow> lib" where
  "tst_release_device c l =
     (if device_acquired l then (give_back c Device l)\<lparr>device_acquired := False\<rparr> else l)"

text \<open>A directory that has been removed cannot be removed again; a removal that fails leaves the files.\<close>

definition lib_rmdir :: "cleanup_answers \<Rightarrow> lib \<Rightarrow> lib" where
  "lib_rmdir c l =
     (if c_lost c Tmpdir \<or> Tmpdir \<notin># held l then warn l
      else drop_res (shm_in_tmp l) Shm_file (drop_res True Tmpdir l))"

definition cleanup_ipc :: "cleanup_answers \<Rightarrow> lib \<Rightarrow> lib" where
  "cleanup_ipc c l =
     (let l = (if ipc_fd l then give_back c Ipc_fd l else l);
          l = (if Shm_file \<in># held l then give_back c Shm_file l else l);
          l = drop_res (shm (l_io l) \<noteq> None) Mapping l
      in l\<lparr>l_io := (l_io l)\<lparr>shm := None\<rparr>\<rparr>)"

definition restore_clock :: "cleanup_answers \<Rightarrow> lib \<Rightarrow> lib step" where
  "restore_clock c l =
     (case tst_wallclock_restore (c_raw c) (c_set c) (l_clock l) of
        Ret (_, w) \<Rightarrow> Go (l\<lparr>l_clock := w\<rparr>)
      | Exits n \<Rightarrow> Break n (l\<lparr>l_clock := (l_clock l)\<lparr>clock_saved := False\<rparr>\<rparr>)
      | Aborts \<Rightarrow> Bad ''abort''
      | Undefined why \<Rightarrow> Bad why)"

text \<open>The flags of the mounts are not reset.  \<open>SAFE_UMOUNT\<close> calls \<open>tst_brk\<close> when it fails.\<close>

definition do_cleanup :: "tst_test \<Rightarrow> cleanup_answers \<Rightarrow> errno list \<Rightarrow> lib \<Rightarrow> lib step \<times> errno list" where
  "do_cleanup t c q l =
     (let (ok, q, l) = (if ovl_mounted l then tst_umount Overlay q l else (True, q, l))
      in if \<not> ok then (Break (TBROK OR TERRNO) l, q)
         else let (_, q, l) = (if mntpoint_mounted l then tst_umount Mount q l else (True, q, l));
                  l = (if needs_device l \<and> tdev l then tst_release_device c l else l);
                  l = (if tmpdir l then lib_rmdir c l else l);
                  l = l\<lparr>l_fs := tst_sys_conf_restore (l_conf l) (l_fs l)\<rparr>
              in (bind_step (if restore_wallclock t then restore_clock c l else Go l) (\<lambda>l. Go (cleanup_ipc c l)), q))"

subsection \<open>Exit\<close>

definition exit_value :: "int \<Rightarrow> results option \<Rightarrow> int" where
  "exit_value ret rs =
     (case rs of
        None \<Rightarrow> ret
      | Some r \<Rightarrow>
          let ret = (if passed r \<noteq> 0 \<and> ret = TCONF then 0 else ret);
              ret = (if failed r \<noteq> 0 then ret OR TFAIL else ret);
              ret = (if skipped r \<noteq> 0 \<and> passed r = 0 then ret OR TCONF else ret)
          in if warnings r \<noteq> 0 then ret OR TWARN else ret)"

definition summary :: "results \<Rightarrow> string" where
  "summary r =
     [NL] @ ''Summary:'' @ [NL] @ ''passed   '' @ show_int (sint (passed r)) @ [NL] @
     ''failed   '' @ show_int (sint (failed r)) @ [NL] @ ''skipped  '' @ show_int (sint (skipped r)) @ [NL] @
     ''warnings '' @ show_int (sint (warnings r)) @ [NL]"

definition LINUX_GIT_URL :: string where
  "LINUX_GIT_URL = ''https://git.kernel.org/pub/scm/linux/kernel/git/torvalds/linux.git/commit/?id=''"

definition CVE_DB_URL :: string where
  "CVE_DB_URL = ''https://cve.mitre.org/cgi-bin/cvename.cgi?name=CVE-''"

definition print_colored :: "bool \<Rightarrow> string \<Rightarrow> string" where
  "print_colored colour str = (if colour then ansi ''1;33'' @ str @ ansi ''0'' else str)"

text \<open>One loop over the tags, for the tags of one name.\<close>

fun hint_loop :: "bool \<Rightarrow> string \<Rightarrow> string \<Rightarrow> string \<Rightarrow> bool \<Rightarrow> (string \<times> string) list \<Rightarrow> string" where
  "hint_loop colour name why url hint_printed [] = []"
| "hint_loop colour name why url hint_printed ((n, v) # ts) =
     (if n = name
      then (if hint_printed then [] else [NL] @ print_colored colour ''HINT: '' @ why @ [NL, NL]) @
           url @ v @ [NL] @ hint_loop colour name why url True ts
      else hint_loop colour name why url hint_printed ts)"

definition print_failure_hints :: "bool \<Rightarrow> (string \<times> string) list \<Rightarrow> string" where
  "print_failure_hints colour ts =
     hint_loop colour ''linux-git'' ''You _MAY_ be missing kernel fixes, see:'' LINUX_GIT_URL False ts @
     hint_loop colour ''CVE'' ''You _MAY_ be vunerable to CVE(s), see:'' CVE_DB_URL False ts"

definition print_summary :: "tst_test \<Rightarrow> cleanup_answers \<Rightarrow> lib \<Rightarrow> lib" where
  "print_summary t c l =
     (case shm (l_io l) of
        None \<Rightarrow> l
      | Some r \<Rightarrow>
          let hints = (if failed r \<noteq> 0 then print_failure_hints (c_colour c) (tags t) else [])
          in l\<lparr>l_io := (l_io l)\<lparr>out := out (l_io l) @ hints @ summary r\<rparr>\<rparr>)"

text \<open>A \<open>tst_brk\<close> during the cleanup starts \<open>do_exit\<close> again.\<close>

partial_function (option) do_exit ::
  "tst_test \<Rightarrow> cleanup_answers \<Rightarrow> int \<Rightarrow> errno list \<Rightarrow> lib \<Rightarrow> lib proc option" where
  "do_exit t c ret q l =
     (let ret' = exit_value ret (shm (l_io l))
      in case do_cleanup t c q (print_summary t c l) of
           (Go l, q) \<Rightarrow> Some (Exited ret' l)
         | (Break ty l, q) \<Rightarrow> do_exit t c (TTYPE_RESULT ty) q l
         | (Bad why, q) \<Rightarrow> Some (Undef why))"

declare do_exit.simps [simp del]

text \<open>The hint comes once, before the references of the tags with the name, in their order.\<close>

lemma hint_loop_eq:
  "hint_loop colour name why url hint_printed ts =
     (let vs = map snd (filter (\<lambda>(n, v). n = name) ts)
      in (if vs = [] \<or> hint_printed then [] else [NL] @ print_colored colour ''HINT: '' @ why @ [NL, NL]) @
         concat (map (\<lambda>v. url @ v @ [NL]) vs))"
  by (induction ts arbitrary: hint_printed) (auto simp: Let_def)

subsection \<open>What the flags say about the resources\<close>

lemma own_simps [simp]: "own True x = {#x#}" "own False x = {#}"
  by (simp_all add: own_def)

text \<open>The flags describe what is held, apart from the shared file, which is looked up.\<close>

definition holds :: "lib \<Rightarrow> bool" where
  "holds l \<longleftrightarrow> (device_acquired l \<longrightarrow> tdev l) \<and> (tdev l \<longrightarrow> needs_device l) \<and> (shm_in_tmp l \<longrightarrow> tmpdir l) \<and>
     (\<exists>file. held l = own (ipc_fd l) Ipc_fd + own (shm (l_io l) \<noteq> None) Mapping + own (tmpdir l) Tmpdir
        + own (mntpoint_mounted l) Mount + own (ovl_mounted l) Overlay + own (device_acquired l) Device + own file Shm_file)"

definition fresh :: "lib \<Rightarrow> bool" where
  "fresh l \<longleftrightarrow> held l = {#} \<and> \<not> ipc_fd l \<and> shm (l_io l) = None \<and> \<not> tmpdir l \<and> \<not> mntpoint_mounted l
     \<and> \<not> ovl_mounted l \<and> \<not> tdev l \<and> \<not> device_acquired l \<and> \<not> shm_in_tmp l \<and> \<not> clock_saved (l_clock l)"

text \<open>A step that goes on with \<open>Q\<close> and breaks with \<open>R\<close>.\<close>

fun step_ok :: "('a \<Rightarrow> bool) \<Rightarrow> (lib \<Rightarrow> bool) \<Rightarrow> 'a step \<Rightarrow> bool" where
  "step_ok Q R (Go x) = Q x"
| "step_ok Q R (Break t l) = R l"
| "step_ok Q R (Bad why) = True"

lemma bind_ok:
  "step_ok Q R s \<Longrightarrow> (\<And>x. Q x \<Longrightarrow> step_ok Q' R (f x)) \<Longrightarrow> step_ok Q' R (bind_step s f)"
  by (cases s) auto

lemma attempt_ok: "R l \<Longrightarrow> Q (f l) \<Longrightarrow> step_ok Q R (attempt a c f l)"
  by (auto simp: attempt_def split: option.splits)

lemma require_ok: "R l \<Longrightarrow> Q l \<Longrightarrow> step_ok Q R (require c t l)"
  by (simp add: require_def)

text \<open>The invariant: the resources, and a clock that can be restored.\<close>

definition keeps :: "tst_test \<Rightarrow> cleanup_answers \<Rightarrow> lib \<Rightarrow> bool" where
  "keeps t c l \<longleftrightarrow> holds l \<and>
     (restore_wallclock t \<longrightarrow> (\<exists>x. tst_wallclock_restore (c_raw c) (c_set c) (l_clock l) = Ret x))"

definition clear_mounts :: "tst_test \<Rightarrow> cleanup_answers \<Rightarrow> lib \<Rightarrow> bool" where
  "clear_mounts t c l \<longleftrightarrow> keeps t c l \<and> \<not> mntpoint_mounted l \<and> \<not> ovl_mounted l \<and> \<not> tdev l"

lemmas keep_defs = keeps_def clear_mounts_def holds_def get_def drop_res_def mounted_def

lemma fresh_clear: "fresh l \<Longrightarrow> clear_mounts t c l"
  by (auto simp: fresh_def keep_defs tst_wallclock_restore_def intro!: exI [of _ False])

lemma checks_ok:
  assumes "Q l" "R l"
  shows "step_ok Q R (setup_checks t a l)"
proof -
  have d: "step_ok Q R (check_drivers a ns l)" for ns
    using assms by (induction ns) (auto simp: require_def)
  have v: "step_ok (\<lambda>x. x = l) R (check_kver r v l)" for r v
    using assms by (auto simp: check_kver_def require_def split: prod.splits outcome.splits)
  have "step_ok (\<lambda>x. x = l) R (assert_test_fn t l)"
    using assms by (auto simp: assert_test_fn_def require_def Let_def)
  then show ?thesis unfolding setup_checks_def
    using assms d v by (intro bind_ok [where Q = "\<lambda>x. x = l"])
      (auto simp: require_def split: outcome.splits option.splits)
qed

lemma fresh_flags: "fresh l \<Longrightarrow> fresh (device_flags t l)"
  by (simp add: fresh_def device_flags_def)

lemma clock_unsaved: "\<not> clock_saved w \<Longrightarrow> \<exists>x. tst_wallclock_restore r s w = Ret x"
  by (simp add: tst_wallclock_restore_def)

lemma ipc_ok:
  assumes "fresh l"
  shows "step_ok (clear_mounts t c) (keeps t c) (setup_ipc t a l)"
  using assms clock_unsaved [of "l_clock l" "c_raw c" "c_set c"]
  by (auto simp: setup_ipc_def lib_tmpdir_def attempt_def map_results_def fresh_def keep_defs ex_bool_eq
      split: option.splits)

lemma tmpdir_ok:
  assumes "clear_mounts t c l"
  shows "step_ok (clear_mounts t c) (keeps t c) (lib_tmpdir a l)"
  using assms by (auto simp: lib_tmpdir_def attempt_def keep_defs ex_bool_eq split: option.splits)

lemma confs_ok:
  "clear_mounts t c l \<Longrightarrow> step_ok (clear_mounts t c) (keeps t c) (save_confs names l)"
proof (induction names arbitrary: l)
  case (Cons n names)
  have "clear_mounts t c (l\<lparr>l_conf := s\<rparr>)" for s using Cons.prems by (auto simp: keep_defs)
  then show ?case using Cons by (auto simp: clear_mounts_def split: outcome.splits)
qed simp

lemma ro_fs_ok:
  assumes "keeps t c l" "\<not> mntpoint_mounted l" "\<not> ovl_mounted l"
  shows "step_ok (\<lambda>(failed, l'). keeps t c l' \<and> \<not> ovl_mounted l' \<and> (failed \<longrightarrow> l' = l) \<and> (\<not> failed \<longrightarrow> mntpoint_mounted l')
      \<and> needs_device l' = needs_device l \<and> tdev l' = tdev l)
    (keeps t c) (prepare_and_mount_ro_fs a dev l)"
  using assms by (auto simp: prepare_and_mount_ro_fs_def attempt_def keep_defs ex_bool_eq split: option.splits)

lemma device_ok:
  assumes "keeps t c l" "\<not> mntpoint_mounted l" "\<not> ovl_mounted l"
  shows "step_ok (\<lambda>l. keeps t c l \<and> \<not> ovl_mounted l) (keeps t c) (prepare_device t a l)"
proof -
  have m: "keeps t c (mounted l) \<and> \<not> ovl_mounted (mounted l)" using assms by (auto simp: keep_defs ex_bool_eq)
  have r: "step_ok (\<lambda>l. keeps t c l \<and> \<not> ovl_mounted l) (keeps t c) (bind_step (prepare_and_mount_ro_fs a True l) (\<lambda>(_, l). Go l))"
    by (rule bind_ok [OF ro_fs_ok [OF assms]]) auto
  show ?thesis unfolding prepare_device_def
    by (rule bind_ok [where Q = "\<lambda>x. x = l"]) (use assms m r in \<open>auto simp: attempt_def split: option.splits\<close>)
qed

lemma acquire_ok:
  assumes "keeps t c l" "\<not> ovl_mounted l" "\<not> tdev l"
  shows "step_ok (\<lambda>l. keeps t c l \<and> \<not> ovl_mounted l) (keeps t c) (acquire_device t a l)"
proof (cases "needs_device l \<and> \<not> mntpoint_mounted l")
  case True
  let ?l = "if a_ltp_dev a then l else (get Device l)\<lparr>device_acquired := True\<rparr>"
  have k: "keeps t c (?l\<lparr>tdev := True\<rparr>)" "\<not> mntpoint_mounted (?l\<lparr>tdev := True\<rparr>)" "\<not> ovl_mounted (?l\<lparr>tdev := True\<rparr>)"
    using assms True by (auto simp: keep_defs ex_bool_eq)
  show ?thesis unfolding acquire_device_def if_P [OF True] tst_acquire_device_def
    by (rule bind_ok [where Q = "\<lambda>x. x = ?l"]) (use assms k device_ok [OF k] in \<open>auto simp: attempt_def split: option.splits\<close>)
qed (use assms in \<open>auto simp: acquire_device_def\<close>)

lemma overlay_ok:
  assumes "keeps t c l" "\<not> ovl_mounted l"
  shows "step_ok (keeps t c) (keeps t c) (mount_overlay t a l)"
  using assms by (auto simp: mount_overlay_def require_def attempt_def keep_defs ex_bool_eq split: option.splits)

lemma mounts_ok:
  assumes "clear_mounts t c l"
  shows "step_ok (keeps t c) (keeps t c) (setup_mounts t a l)"
proof -
  let ?free = "\<lambda>l. keeps t c l \<and> \<not> ovl_mounted l \<and> \<not> tdev l"
  have l: "keeps t c l" "?free l" "\<not> mntpoint_mounted l" using assms by (auto simp: clear_mounts_def)
  have m: "?free (mounted l)" using l by (auto simp: keep_defs ex_bool_eq)
  have ro: "step_ok ?free (keeps t c) (bind_step (prepare_and_mount_ro_fs a False l) (\<lambda>(failed, l).
      Go (if failed then l\<lparr>needs_device := True, format_device := True\<rparr> else l)))"
    by (rule bind_ok [OF ro_fs_ok]) (use l in \<open>auto simp: keep_defs\<close>)
  have fs: "step_ok (\<lambda>l'. ?free l' \<and> (needs_rofs t \<longrightarrow> l' = l)) (keeps t c)
      (if needs_devfs t then prepare_and_mount_dev_fs a l else Go l)" if "\<not> (needs_rofs t \<and> needs_devfs t)"
    using l m that by (auto simp: prepare_and_mount_dev_fs_def attempt_def split: option.splits)
  have ac: "step_ok (keeps t c) (keeps t c) (bind_step (acquire_device t a l') (mount_overlay t a))" if "?free l'" for l'
    by (rule bind_ok [OF acquire_ok]) (use that overlay_ok in auto)
  show ?thesis unfolding setup_mounts_def
  proof (rule bind_ok [where Q = "\<lambda>x. x = l"], goal_cases)
    case (2 x)
    show ?case unfolding 2
    proof (rule bind_ok [where Q = "\<lambda>x. x = l"], goal_cases)
      case (2 x)
      show ?case unfolding 2
      proof (rule bind_ok [where Q = "\<lambda>x. x = l \<and> \<not> (needs_rofs t \<and> needs_devfs t)"], goal_cases)
        case (2 x)
        then have x: "x = l" "\<not> (needs_rofs t \<and> needs_devfs t)" by auto
        show ?case unfolding x(1)
        proof (rule bind_ok [OF fs [OF x(2)]], goal_cases)
          case (1 y)
          then have "step_ok ?free (keeps t c) (if needs_rofs t
                then bind_step (prepare_and_mount_ro_fs a False y) (\<lambda>(failed, l).
                     Go (if failed then l\<lparr>needs_device := True, format_device := True\<rparr> else l)) else Go y)"
            using ro by auto
          then show ?case by (rule bind_ok) (rule ac)
        qed
      qed (use l in \<open>auto simp: require_def\<close>)
    qed (use l in \<open>auto simp: require_def\<close>)
  qed (use l in \<open>auto simp: attempt_def split: option.splits\<close>)
qed

lemma copies_ok: "keeps t c l \<Longrightarrow> step_ok (keeps t c) (keeps t c) (copy_resources a fs l)"
  by (induction fs arbitrary: l) (auto simp: attempt_def split: option.splits)

text \<open>The clock values of the setup can be restored at the end.\<close>

definition clock_fine :: "answers \<Rightarrow> cleanup_answers \<Rightarrow> bool" where
  "clock_fine a c \<longleftrightarrow> (\<forall>r m w. a_real a = Now r \<longrightarrow> a_raw a = Now m \<longrightarrow>
     (\<exists>x. tst_wallclock_restore (c_raw c) (c_set c) (w\<lparr>real_begin := r, mono_begin := m, clock_saved := True\<rparr>) = Ret x))"

lemma save_clock_ok:
  assumes "keeps t c l" "clock_fine a c"
  shows "step_ok (keeps t c) (keeps t c) (save_clock a l)"
  using assms
  by (auto simp: save_clock_def tst_wallclock_save_def tst_brk_exit_def keeps_def holds_def clock_fine_def
      split: clock_answer.splits)

lemma setup_ok:
  assumes "fresh l" "clock_fine a c"
  shows "step_ok (keeps t c) (keeps t c) (do_setup t a l)"
proof -
  have f: "fresh (device_flags t l)" by (rule fresh_flags [OF assms(1)])
  have k: "keeps t c x" if "clear_mounts t c x" for x using that by (simp add: clear_mounts_def)
  have h: "step_ok fresh (keeps t c) (if request_hugepages t then attempt a Hugepages id (device_flags t l) else Go (device_flags t l))"
    using f k [OF fresh_clear [OF f]] by (auto simp: attempt_def split: option.splits)
  have b: "step_ok (clear_mounts t c) (keeps t c) (if has_bufs t then attempt a Alloc_bufs id x else Go x)"
    if "clear_mounts t c x" for x using that k by (auto simp: attempt_def split: option.splits)
  have d: "step_ok (clear_mounts t c) (keeps t c) (if tmpdir_needed t x then lib_tmpdir a x else Go x)"
    if "clear_mounts t c x" for x using that tmpdir_ok by auto
  have e: "step_ok (keeps t c) (keeps t c) (if restore_wallclock t then save_clock a x else Go x)" if "keeps t c x" for x
    using that save_clock_ok assms(2) by auto
  have "step_ok (\<lambda>x. x = l) (keeps t c) (setup_checks t a l)"
    by (rule checks_ok) (use k [OF fresh_clear [OF assms(1)]] in simp_all)
  then show ?thesis unfolding do_setup_def
  proof (rule bind_ok, goal_cases)
    case (1 x)
    show ?case unfolding 1
      by (rule bind_ok [OF h] bind_ok [OF ipc_ok] bind_ok [OF b] bind_ok [OF d] bind_ok [OF confs_ok]
          bind_ok [OF mounts_ok] bind_ok [OF copies_ok] e | assumption)+
  qed
qed

subsection \<open>Releasing everything\<close>

lemma umount_loop_busy: "set q \<subseteq> {EBUSY} \<Longrightarrow> i + length q < 50 \<Longrightarrow> umount_loop i q = (True, [])"
  by (induction q arbitrary: i) (subst umount_loop.simps, auto)+

lemma tst_umount_ok:
  assumes "x \<in># held l" "set q \<subseteq> {EBUSY}" "length q < 50"
  shows "tst_umount x q l = (True, [], drop_res True x l)"
  using assms umount_loop_busy [of q 0] by (simp add: tst_umount_def)

text \<open>The cleanup after the mounts.\<close>

definition rest_cleanup :: "cleanup_answers \<Rightarrow> lib \<Rightarrow> lib" where
  "rest_cleanup c l =
     (let l = (if needs_device l \<and> tdev l then tst_release_device c l else l);
          l = (if tmpdir l then lib_rmdir c l else l)
      in l\<lparr>l_fs := tst_sys_conf_restore (l_conf l) (l_fs l)\<rparr>)"

lemma warn_simps [simp]:
  "held (warn l) = held l" "l_fs (warn l) = l_fs l" "l_conf (warn l) = l_conf l" "l_clock (warn l) = l_clock l"
  "tmpdir (warn l) = tmpdir l" "shm_in_tmp (warn l) = shm_in_tmp l" "ipc_fd (warn l) = ipc_fd l"
  "ovl_mounted (warn l) = ovl_mounted l" "mntpoint_mounted (warn l) = mntpoint_mounted l"
  "out (l_io (warn l)) = out (l_io l)" "(shm (l_io (warn l)) = None) = (shm (l_io l) = None)"
  "warn (l\<lparr>l_clock := w\<rparr>) = (warn l)\<lparr>l_clock := w\<rparr>"
  by (auto simp: warn_def update_results_def Let_def split: option.splits)

lemmas cleanup_defs = rest_cleanup_def tst_release_device_def lib_rmdir_def give_back_def drop_res_def cleanup_ipc_def Let_def

lemma do_cleanup_rest:
  "do_cleanup t c q l =
     (let (ok, q, l) = (if ovl_mounted l then tst_umount Overlay q l else (True, q, l))
      in if \<not> ok then (Break (TBROK OR TERRNO) l, q)
         else let (_, q, l) = (if mntpoint_mounted l then tst_umount Mount q l else (True, q, l));
                  l = rest_cleanup c l
              in (bind_step (if restore_wallclock t then restore_clock c l else Go l) (\<lambda>l. Go (cleanup_ipc c l)), q))"
  by (simp only: do_cleanup_def rest_cleanup_def Let_def)

lemma rest_same:
  "l_clock (rest_cleanup c l) = l_clock l" "out (l_io (rest_cleanup c l)) = out (l_io l)"
  "l_fs (rest_cleanup c l) = tst_sys_conf_restore (l_conf l) (l_fs l)" "ovl_mounted (rest_cleanup c l) = ovl_mounted l"
  "out (l_io (cleanup_ipc c l)) = out (l_io l)" "l_fs (cleanup_ipc c l) = l_fs l"
  by (simp_all add: cleanup_defs)

text \<open>Apart from the mounts, what is left is what could not be given back.\<close>

lemma give_back_simps [simp]:
  "count (held (give_back c y l)) x = (if x = y \<and> \<not> c_lost c y then count (held l) x - 1 else count (held l) x)"
  "ipc_fd (give_back c y l) = ipc_fd l" "(shm (l_io (give_back c y l)) = None) = (shm (l_io l) = None)"
  "tmpdir (give_back c y l) = tmpdir l" "shm_in_tmp (give_back c y l) = shm_in_tmp l"
  by (simp_all add: give_back_def drop_res_def)

lemma drop_res_simps [simp]:
  "count (held (drop_res b y l)) x = (if x = y \<and> b then count (held l) x - 1 else count (held l) x)"
  "ipc_fd (drop_res b y l) = ipc_fd l" "l_io (drop_res b y l) = l_io l" "tdev (drop_res b y l) = tdev l"
  "tmpdir (drop_res b y l) = tmpdir l" "shm_in_tmp (drop_res b y l) = shm_in_tmp l"
  "needs_device (drop_res b y l) = needs_device l" "device_acquired (drop_res b y l) = device_acquired l"
  by (simp_all add: drop_res_def own_def)

definition returned :: "cleanup_answers \<Rightarrow> lib \<Rightarrow> resource \<Rightarrow> bool" where
  "returned c l x \<longleftrightarrow> (case x of
     Ipc_fd \<Rightarrow> ipc_fd l \<and> \<not> c_lost c Ipc_fd | Shm_file \<Rightarrow> \<not> c_lost c Shm_file | Mapping \<Rightarrow> shm (l_io l) \<noteq> None
   | Tmpdir \<Rightarrow> tmpdir l \<and> \<not> c_lost c Tmpdir | Device \<Rightarrow> needs_device l \<and> tdev l \<and> device_acquired l \<and> \<not> c_lost c Device
   | Mount \<Rightarrow> False | Overlay \<Rightarrow> False)"

lemma release_count:
  "count (held (tst_release_device c l)) x =
     (if x = Device \<and> device_acquired l \<and> \<not> c_lost c Device then count (held l) x - 1 else count (held l) x)"
  "ipc_fd (tst_release_device c l) = ipc_fd l" "(shm (l_io (tst_release_device c l)) = None) = (shm (l_io l) = None)"
  "tmpdir (tst_release_device c l) = tmpdir l"
  by (simp_all add: tst_release_device_def)

lemma rmdir_count:
  "x \<noteq> Shm_file \<Longrightarrow> count (held (lib_rmdir c l)) x =
     (if x = Tmpdir \<and> \<not> c_lost c Tmpdir then count (held l) x - 1 else count (held l) x)"
  "count (held (lib_rmdir c l)) Shm_file \<le> count (held l) Shm_file"
  "ipc_fd (lib_rmdir c l) = ipc_fd l" "(shm (l_io (lib_rmdir c l)) = None) = (shm (l_io l) = None)"
  by (auto simp: lib_rmdir_def not_in_iff)

lemma ipc_count:
  "count (held (cleanup_ipc c l)) x =
     (if x = Ipc_fd \<and> ipc_fd l \<and> \<not> c_lost c Ipc_fd \<or> x = Shm_file \<and> \<not> c_lost c Shm_file \<or> x = Mapping \<and> shm (l_io l) \<noteq> None
      then count (held l) x - 1 else count (held l) x)"
proof -
  define l1 where "l1 = (if ipc_fd l then give_back c Ipc_fd l else l)"
  define l2 where "l2 = (if Shm_file \<in># held l1 then give_back c Shm_file l1 else l1)"
  have 1: "count (held l1) x = (if x = Ipc_fd \<and> ipc_fd l \<and> \<not> c_lost c Ipc_fd then count (held l) x - 1 else count (held l) x)"
      "(shm (l_io l1) = None) = (shm (l_io l) = None)" by (simp_all add: l1_def)
  have 2: "count (held l2) x = (if x = Shm_file \<and> \<not> c_lost c Shm_file then count (held l1) x - 1 else count (held l1) x)"
      "(shm (l_io l2) = None) = (shm (l_io l1) = None)" by (auto simp: l2_def not_in_iff)
  have "held (cleanup_ipc c l) = held (drop_res (shm (l_io l2) \<noteq> None) Mapping l2)"
    by (simp add: cleanup_ipc_def Let_def l2_def l1_def)
  then show ?thesis using 1 2 by (cases x) simp_all
qed

lemma rest_count:
  "count (held (cleanup_ipc c ((rest_cleanup c l)\<lparr>l_clock := w\<rparr>))) x \<le>
     (if returned c l x then count (held l) x - 1 else count (held l) x)"
proof -
  define l1 where "l1 = (if needs_device l \<and> tdev l then tst_release_device c l else l)"
  define l2 where "l2 = (if tmpdir l1 then lib_rmdir c l1 else l1)"
  have 1: "count (held l1) x = (if x = Device \<and> returned c l x then count (held l) x - 1 else count (held l) x)"
      "(shm (l_io l1) = None) = (shm (l_io l) = None)" "tmpdir l1 = tmpdir l" "ipc_fd l1 = ipc_fd l"
    by (auto simp: l1_def release_count returned_def)
  have 2: "x \<noteq> Shm_file \<Longrightarrow> count (held l2) x = (if x = Tmpdir \<and> returned c l x then count (held l1) x - 1 else count (held l1) x)"
      "count (held l2) Shm_file \<le> count (held l1) Shm_file"
      "(shm (l_io l2) = None) = (shm (l_io l1) = None)" "ipc_fd l2 = ipc_fd l1"
    using rmdir_count [where c = c and l = l1] 1(3) by (auto simp: l2_def returned_def)
  have "rest_cleanup c l = l2\<lparr>l_fs := tst_sys_conf_restore (l_conf l2) (l_fs l2)\<rparr>"
    by (simp add: rest_cleanup_def l1_def l2_def Let_def)
  then show ?thesis using 1 2 by (cases x) (auto simp: ipc_count returned_def)
qed

lemma released_all:
  assumes "holds l"
  defines "l2 \<equiv> drop_res (mntpoint_mounted l) Mount (drop_res (ovl_mounted l) Overlay l)"
  shows "held (cleanup_ipc c ((rest_cleanup c l2)\<lparr>l_clock := w\<rparr>)) \<subseteq># filter_mset (c_lost c) (held l)"
proof (rule mset_subset_eqI)
  fix x
  have "(if returned c l2 x then count (held l2) x - 1 else count (held l2) x) \<le> count (filter_mset (c_lost c) (held l)) x"
    using assms(1) by (cases x) (auto simp: returned_def l2_def holds_def own_def)
  then show "count (held (cleanup_ipc c ((rest_cleanup c l2)\<lparr>l_clock := w\<rparr>))) x \<le> count (filter_mset (c_lost c) (held l)) x"
    using rest_count [where c = c and l = l2 and w = w and x = x] by (rule order_trans [rotated])
qed

lemma umount_if:
  assumes "b \<Longrightarrow> x \<in># held l" "set q \<subseteq> {EBUSY}" "length q < 50"
  obtains q' where "(if b then tst_umount x q l else (True, q, l)) = (True, q', drop_res b x l)"
    "set q' \<subseteq> {EBUSY}" "length q' < 50"
  using assms tst_umount_ok [of x l q] by (cases b) (auto simp: drop_res_def own_def)

lemma do_cleanup_ok:
  assumes "keeps t c l" "set q \<subseteq> {EBUSY}" "length q < 50"
  shows "\<exists>l' q'. do_cleanup t c q l = (Go l', q') \<and> held l' \<subseteq># filter_mset (c_lost c) (held l)
    \<and> l_fs l' = tst_sys_conf_restore (l_conf l) (l_fs l) \<and> out (l_io l') = out (l_io l)"
proof -
  have h: "holds l" using assms(1) by (simp add: keeps_def)
  have "Overlay \<in># held l" if "ovl_mounted l" using h that by (auto simp: holds_def)
  then obtain q1 where q1: "(if ovl_mounted l then tst_umount Overlay q l else (True, q, l))
      = (True, q1, drop_res (ovl_mounted l) Overlay l)" "set q1 \<subseteq> {EBUSY}" "length q1 < 50"
    using umount_if [of "ovl_mounted l" Overlay l q] assms(2,3) by blast
  define l1 where "l1 = drop_res (ovl_mounted l) Overlay l"
  have m1: "mntpoint_mounted l1 = mntpoint_mounted l" by (simp add: l1_def drop_res_def)
  have "Mount \<in># held l1" if "mntpoint_mounted l1"
    using h that by (auto simp: holds_def l1_def drop_res_def own_def in_diff_count)
  then obtain q2 where q2: "(if mntpoint_mounted l1 then tst_umount Mount q1 l1 else (True, q1, l1))
      = (True, q2, drop_res (mntpoint_mounted l1) Mount l1)"
    using umount_if [of "mntpoint_mounted l1" Mount l1 q1] q1(2,3) by blast
  define l3 where "l3 = rest_cleanup c (drop_res (mntpoint_mounted l) Mount l1)"
  have same: "l_clock l3 = l_clock l" "out (l_io l3) = out (l_io l)" "l_fs l3 = tst_sys_conf_restore (l_conf l) (l_fs l)"
    by (simp_all add: l3_def l1_def rest_same drop_res_def)
  have e: "held (cleanup_ipc c (l3\<lparr>l_clock := w\<rparr>)) \<subseteq># filter_mset (c_lost c) (held l)" for w
    using released_all [OF h] by (simp add: l3_def l1_def)
  have c: "do_cleanup t c q l = (bind_step (if restore_wallclock t then restore_clock c l3 else Go l3) (\<lambda>l. Go (cleanup_ipc c l)), q2)"
    unfolding do_cleanup_rest q1(1) l1_def [symmetric]
    by (simp only: Let_def prod.case not_True_eq_False if_False m1 q2 [unfolded m1] l3_def)
  have "\<exists>w. (if restore_wallclock t then restore_clock c l3 else Go l3) = Go (l3\<lparr>l_clock := w\<rparr>)"
    using assms(1) by (cases "restore_wallclock t")
      (auto simp: restore_clock_def keeps_def same intro: exI [of _ "l_clock l3"])
  then obtain w where "(if restore_wallclock t then restore_clock c l3 else Go l3) = Go (l3\<lparr>l_clock := w\<rparr>)" ..
  then show ?thesis using c e [of w] same by (simp add: rest_same)
qed

lemma print_summary_keeps [simp]: "keeps t c (print_summary t' c' l) = keeps t c l"
  by (auto simp: print_summary_def keeps_def holds_def Let_def split: option.splits)

lemma print_summary_same [simp]: "l_fs (print_summary t c l) = l_fs l" "l_conf (print_summary t c l) = l_conf l"
  "held (print_summary t c l) = held l"
  by (simp_all add: print_summary_def Let_def split: option.splits)

lemma exit_ok:
  assumes "keeps t c l" "set q \<subseteq> {EBUSY}" "length q < 50"
  shows "\<exists>l'. do_exit t c ret q l = Some (Exited (exit_value ret (shm (l_io l))) l') \<and> held l' \<subseteq># filter_mset (c_lost c) (held l)
    \<and> l_fs l' = tst_sys_conf_restore (l_conf l) (l_fs l) \<and> out (l_io l') = out (l_io (print_summary t c l))"
proof -
  have "keeps t c (print_summary t c l)" using assms(1) by simp
  from do_cleanup_ok [OF this assms(2,3)] show ?thesis
    by (subst do_exit.simps) (auto simp: Let_def)
qed


definition ex_lib :: lib where
  "ex_lib = \<lparr>l_io = \<lparr>shm = None, err = [], out = []\<rparr>, needs_device = False, format_device = False, ipc_fd = False,
     shm_in_tmp = False, tmpdir = False, mntpoint_mounted = False, ovl_mounted = False, tdev = False, device_acquired = False,
     l_clock = \<lparr>real_begin = \<lparr>tv_sec = 0, tv_nsec = 0\<rparr>, mono_begin = \<lparr>tv_sec = 0, tv_nsec = 0\<rparr>, clock_saved = False\<rparr>,
     l_conf = [], l_fs = \<lparr>cf_files = Map.empty, cf_locked = []\<rparr>, held = {#}\<rparr>"

definition ex_test :: tst_test where
  "ex_test = \<lparr>tconf_msg = False, has_test = False, has_test_all = True, has_sample = False, tcnt = 0, needs_root = True,
     min_kver = None, needs_drivers = [], want_format = False, mount_device = True, want_device = False,
     all_filesystems = False, request_hugepages = False, needs_tmpdir = False, needs_checkpoints = True,
     child_needs_reinit = False, has_bufs = False, save_restore = [], mntpoint = True, needs_devfs = False,
     needs_rofs = False, needs_overlay = True, resource_files = [''data''], restore_wallclock = False, tags = [(''CVE'', ''2017-1000'')]\<rparr>"

definition ex_answers :: answers where
  "ex_answers = \<lparr>a_fails = \<lambda>x. if x = Copy ''data'' then Some (TBROK OR TERRNO) else None, a_kconfig = Ret (), a_opts = None,
     a_euid = 0, a_release = [], a_driver = \<lambda>_. True, a_dev_shm = False, a_nodev = False, a_ltp_dev = False,
     a_real = Fails 0, a_raw = Fails 0\<rparr>"


subsection \<open>A cleanup that never ends\<close>

lemma lost_overlay_aux:
  assumes "do_exit t c ret q l = Some p"
  shows "ovl_mounted l \<longrightarrow> Overlay \<in># held l"
  using assms
proof (rule do_exit.raw_induct [rotated], goal_cases)
  case (1 f t c ret q l p)
  show ?case
  proof (rule ccontr)
    assume n: "\<not> (ovl_mounted l \<longrightarrow> Overlay \<in># held l)"
    define l1 where "l1 = warn (print_summary t c l)"
    have s: "ovl_mounted (print_summary t c l)" "Overlay \<notin># held (print_summary t c l)"
      using n by (auto simp: print_summary_def Let_def split: option.splits)
    then have "do_cleanup t c q (print_summary t c l) = (Break (TBROK OR TERRNO) l1, q)"
      by (simp add: do_cleanup_def tst_umount_def l1_def)
    then have "f t c (TTYPE_RESULT (TBROK OR TERRNO)) q l1 = Some p" using 1(2) by (simp add: Let_def)
    from 1(1) [OF this] show False using s by (simp add: l1_def)
  qed
qed

lemma lost_overlay_loops: "ovl_mounted l \<Longrightarrow> Overlay \<notin># held l \<Longrightarrow> do_exit t c ret q l = None"
  using lost_overlay_aux by (cases "do_exit t c ret q l") blast+



end
