(* ===== verification/Tst_Run.thy ===== *)
theory Tst_Run
  imports Tst_Setup
begin

section \<open>tst_test: running the test processes\<close>

text \<open>
  The library process of \<open>lib/tst_test.c\<close> after the setup: \<open>fork_testrun\<close>, which waits for one test process,
  the loops over file systems and variants, and the signal handlers while it waits.  The test
  process is that of theory \<open>Tst_Test\<close>; it shares the results with the library process.
\<close>

unbundle bit_operations_syntax

subsection \<open>One test process\<close>

datatype verdict = Returns int | Breaks int

text \<open>The end of \<open>fork_testrun\<close>: its return value, or the type of the \<open>tst_brk\<close> for a killed process.\<close>

definition judge :: "int \<Rightarrow> verdict" where
  "judge status =
     (if WIFEXITED status \<and> WEXITSTATUS status \<noteq> 0 then Returns (WEXITSTATUS status)
      else if WIFSIGNALED status \<and> WTERMSIG status = SIGKILL then Breaks TBROK
      else if WIFSIGNALED status then Breaks TBROK
      else Returns 0)"

text \<open>\<open>tst_set_timeout\<close> stores the timeout that it computes from the test and the environment; its message
  is of type \<open>TINFO\<close> and is not counted.\<close>

definition set_timeout :: "32 word \<Rightarrow> io \<Rightarrow> io" where
  "set_timeout secs io = io\<lparr>shm := map_option (\<lambda>r. r\<lparr>timeout := secs\<rparr>) (shm io)\<rparr>"

fun proc_io :: "io proc \<Rightarrow> io option" where
  "proc_io (Runs io) = Some io"
| "proc_io (Exited n io) = Some io"
| "proc_io (Killed s io) = Some io"
| "proc_io _ = None"

text \<open>A run ends with a value, with a call of \<open>do_exit\<close>, or never or with undefined behaviour.\<close>

datatype 'a running = Value 'a lib | Quit int lib | Lost

fun bind_running :: "'a running \<Rightarrow> ('a \<Rightarrow> lib \<Rightarrow> 'b running) \<Rightarrow> 'b running" where
  "bind_running (Value x l) f = f x l"
| "bind_running (Quit n l) f = Quit n l"
| "bind_running Lost f = Lost"

fun of_step :: "lib step \<Rightarrow> unit running" where
  "of_step (Go l) = Value () l"
| "of_step (Break ty l) = Quit (TTYPE_RESULT ty) l"
| "of_step (Bad why) = Lost"

text \<open>\<open>fork\<close> may fail.\<close>

definition fork_testrun :: "bool \<Rightarrow> 32 word \<Rightarrow> test_proc \<Rightarrow> lib \<Rightarrow> int running" where
  "fork_testrun fork_ok secs p l =
     (let l = l\<lparr>l_io := set_timeout secs (l_io l)\<rparr>
      in if \<not> fork_ok then Quit (TTYPE_RESULT (TBROK OR TERRNO)) l
         else let pr = testrun p (l_io l)
              in case proc_io pr of
                   None \<Rightarrow> Lost
                 | Some io \<Rightarrow>
                     let l = l\<lparr>l_io := io\<rparr>
                     in case judge (wait_status pr) of Returns n \<Rightarrow> Value n l | Breaks ty \<Rightarrow> Quit (TTYPE_RESULT ty) l)"

subsection \<open>All file systems\<close>

text \<open>The runs of one variant: one per supported file system, with the answers for \<open>prepare_device\<close> and for
  \<open>umount\<close>.  The flag of the mount is reset also when \<open>umount\<close> fails.\<close>

record fs_run =
  f_answers :: answers
  f_fork :: bool
  f_secs :: "32 word"
  f_proc :: test_proc
  f_umount :: "errno list"

fun fs_loop :: "tst_test \<Rightarrow> fs_run list \<Rightarrow> int \<Rightarrow> lib \<Rightarrow> int running" where
  "fs_loop t [] ret l = Value ret l"
| "fs_loop t (f # fs) ret l =
     bind_running (of_step (prepare_device t (f_answers f) l)) (\<lambda>_ l.
     bind_running (fork_testrun (f_fork f) (f_secs f) (f_proc f) l) (\<lambda>ret l.
     let l = (if mntpoint_mounted l
              then (snd (snd (tst_umount Mount (f_umount f) l)))\<lparr>mntpoint_mounted := False\<rparr> else l)
     in if ret = TCONF then fs_loop t fs ret (l\<lparr>l_io := update_results ret (l_io l)\<rparr>)
        else if ret = 0 then fs_loop t fs ret l
        else Quit ret l))"

definition run_tcases_per_fs :: "tst_test \<Rightarrow> fs_run list \<Rightarrow> lib \<Rightarrow> int running" where
  "run_tcases_per_fs t fs l = (if fs = [] then Quit TCONF l else fs_loop t fs 0 l)"

subsection \<open>All variants\<close>

definition run_variant :: "tst_test \<Rightarrow> fs_run list \<Rightarrow> lib \<Rightarrow> int running" where
  "run_variant t fs l =
     (if all_filesystems t then run_tcases_per_fs t fs l
      else case fs of [] \<Rightarrow> Lost | f # _ \<Rightarrow> fork_testrun (f_fork f) (f_secs f) (f_proc f) l)"

fun variant_loop :: "tst_test \<Rightarrow> fs_run list list \<Rightarrow> int \<Rightarrow> lib \<Rightarrow> int running" where
  "variant_loop t [] ret l = Quit ret l"
| "variant_loop t (v # vs) ret l =
     bind_running (run_variant t v l) (\<lambda>r l.
     let ret = ret OR r in if ret AND NOT TCONF \<noteq> 0 then Quit ret l else variant_loop t vs ret l)"

text \<open>The whole run; \<open>None\<close> when it never ends.\<close>

definition tst_run_tcases ::
  "tst_test \<Rightarrow> answers \<Rightarrow> cleanup_answers \<Rightarrow> errno list \<Rightarrow> fs_run list list \<Rightarrow> lib \<Rightarrow> lib proc option" where
  "tst_run_tcases t a c q vs l =
     (case do_setup t a l of
        Break ty l \<Rightarrow> do_exit t c (TTYPE_RESULT ty) q l
      | Bad why \<Rightarrow> Some (Undef why)
      | Go l \<Rightarrow>
          (case variant_loop t vs 0 l of
             Quit ret l \<Rightarrow> do_exit t c ret q l
           | _ \<Rightarrow> Some Stuck))"

subsection \<open>Signals while waiting\<close>

datatype signal_event = Sigalrm | Sigusr1 | Sigint

text \<open>\<open>w_alarm\<close> is the number of seconds of the pending alarm, \<open>w_kills\<close> the number of times that the process
  group was killed, \<open>w_exit\<close> the status of \<open>_exit\<close>.\<close>

record waiting =
  w_alarm :: nat
  w_retries :: nat
  w_kills :: nat
  w_exit :: "int option"

definition alarm_handler :: "waiting \<Rightarrow> waiting" where
  "alarm_handler w =
     (let w = w\<lparr>w_kills := Suc (w_kills w), w_alarm := 5, w_retries := Suc (w_retries w)\<rparr>
      in if w_retries w > 10 then w\<lparr>w_exit := Some TFAIL\<rparr> else w)"

definition heartbeat_handler :: "nat \<Rightarrow> waiting \<Rightarrow> waiting" where
  "heartbeat_handler secs w = w\<lparr>w_alarm := secs, w_retries := 0\<rparr>"

text \<open>There is a test process while the library waits.\<close>

definition sigint_handler :: "waiting \<Rightarrow> waiting" where
  "sigint_handler w = w\<lparr>w_kills := Suc (w_kills w)\<rparr>"

text \<open>A signal calls its handler, as long as the process has not ended.\<close>

definition take_signal :: "nat \<Rightarrow> signal_event \<Rightarrow> waiting \<Rightarrow> waiting" where
  "take_signal secs ev w =
     (if w_exit w \<noteq> None then w
      else case ev of Sigalrm \<Rightarrow> alarm_handler w | Sigusr1 \<Rightarrow> heartbeat_handler secs w | Sigint \<Rightarrow> sigint_handler w)"

lemmas handler_defs = take_signal_def alarm_handler_def heartbeat_handler_def sigint_handler_def

definition take_signals :: "nat \<Rightarrow> signal_event list \<Rightarrow> waiting \<Rightarrow> waiting" where
  "take_signals secs evs w = fold (take_signal secs) evs w"

subsection \<open>The results after the setup\<close>

lemma bind_io:
  assumes "step_ok (\<lambda>x. l_io x = io) R s" "\<And>x. l_io x = io \<Longrightarrow> step_ok (\<lambda>x. l_io x = io) R (f x)"
  shows "step_ok (\<lambda>x. l_io x = io) R (bind_step s f)"
  using assms by (rule bind_ok)

lemma attempt_io: "l_io l = io \<Longrightarrow> l_io (f l) = io \<Longrightarrow> step_ok (\<lambda>x. l_io x = io) (\<lambda>_. True) (attempt a c f l)"
  by (rule attempt_ok) auto

lemma get_io [simp]: "l_io (get x l) = l_io l" "l_io (mounted l) = l_io l" "l_io (drop_res b x l) = l_io l"
  by (simp_all add: get_def mounted_def drop_res_def)

lemma confs_io: "step_ok (\<lambda>x. l_io x = l_io l) (\<lambda>_. True) (save_confs names l)"
proof (induction names arbitrary: l)
  case (Cons n names)
  have "l_io (l\<lparr>l_conf := s\<rparr>) = l_io l" for s by simp
  then show ?case using Cons [of "l\<lparr>l_conf := _\<rparr>"] by (auto split: outcome.splits)
qed simp

lemma ro_fs_io: "step_ok (\<lambda>(_, x). l_io x = l_io l) (\<lambda>_. True) (prepare_and_mount_ro_fs a dev l)"
  by (auto simp: prepare_and_mount_ro_fs_def attempt_def split: option.splits)

lemma device_io: "step_ok (\<lambda>x. l_io x = l_io l) (\<lambda>_. True) (prepare_device t a l)"
  using ro_fs_io [of l a True]
  by (cases "prepare_and_mount_ro_fs a True l") (auto simp: prepare_device_def attempt_def split: option.splits)

lemma acquire_io: "step_ok (\<lambda>x. l_io x = l_io l) (\<lambda>_. True) (acquire_device t a l)"
  using device_io [of "(if a_ltp_dev a then l else (get Device l)\<lparr>device_acquired := True\<rparr>)\<lparr>tdev := True\<rparr>" t a]
  by (auto simp: acquire_device_def tst_acquire_device_def attempt_def split: option.splits)

lemma overlay_io: "step_ok (\<lambda>x. l_io x = l_io l) (\<lambda>_. True) (mount_overlay t a l)"
  by (auto simp: mount_overlay_def require_def attempt_def split: option.splits)

lemma copies_io: "step_ok (\<lambda>x. l_io x = l_io l) (\<lambda>_. True) (copy_resources a fs l)"
  by (induction fs arbitrary: l) (auto simp: attempt_def split: option.splits)

lemma clock_io: "step_ok (\<lambda>x. l_io x = l_io l) (\<lambda>_. True) (save_clock a l)"
  by (auto simp: save_clock_def split: outcome.splits)

lemma mounts_io: "step_ok (\<lambda>x. l_io x = l_io l) (\<lambda>_. True) (setup_mounts t a l)"
proof -
  have ro: "step_ok (\<lambda>x. l_io x = l_io l) (\<lambda>_. True) (bind_step (prepare_and_mount_ro_fs a False x) (\<lambda>(failed, l).
      Go (if failed then l\<lparr>needs_device := True, format_device := True\<rparr> else l)))" if "l_io x = l_io l" for x
    using ro_fs_io [of x a False] that by (cases "prepare_and_mount_ro_fs a False x") auto
  have dev: "step_ok (\<lambda>x. l_io x = l_io l) (\<lambda>_. True) (prepare_and_mount_dev_fs a x)" if "l_io x = l_io l" for x
    using that by (auto simp: prepare_and_mount_dev_fs_def attempt_def split: option.splits)
  have ac: "step_ok (\<lambda>x. l_io x = l_io l) (\<lambda>_. True) (acquire_device t a x)" if "l_io x = l_io l" for x
    using acquire_io [of x t a] that by simp
  have ov: "step_ok (\<lambda>x. l_io x = l_io l) (\<lambda>_. True) (mount_overlay t a x)" if "l_io x = l_io l" for x
    using overlay_io [of x t a] that by simp
  show ?thesis unfolding setup_mounts_def
    by (intro bind_io) (auto simp: require_def attempt_def intro: ro dev ac ov split: option.splits)
qed

lemma ipc_io: "step_ok (\<lambda>x. shm (l_io x) = Some no_results) (\<lambda>_. True) (setup_ipc t a l)"
  by (auto simp: setup_ipc_def lib_tmpdir_def attempt_def map_results_def split: option.splits)

lemma setup_results:
  assumes "do_setup t a l0 = Go l"
  shows "shm (l_io l) = Some no_results"
proof -
  let ?Q = "\<lambda>x. shm (l_io x) = Some no_results" and ?R = "\<lambda>_. True"
  have lift: "step_ok ?Q ?R s" if "step_ok (\<lambda>x. l_io x = l_io l') ?R s" "?Q l'" for s :: "lib step" and l'
    using that by (cases s) auto
  have b: "step_ok ?Q ?R (if has_bufs t then attempt a Alloc_bufs id x else Go x)" if "?Q x" for x
    using that by (auto simp: attempt_def split: option.splits)
  have d: "step_ok ?Q ?R (if tmpdir_needed t x then lib_tmpdir a x else Go x)" if "?Q x" for x
    using that by (auto simp: lib_tmpdir_def attempt_def split: option.splits)
  have e: "step_ok ?Q ?R (if restore_wallclock t then save_clock a x else Go x)" if "?Q x" for x
    using that lift [OF clock_io] by auto
  have "step_ok ?Q ?R (do_setup t a l0)" unfolding do_setup_def
    by (rule bind_ok [where Q = ?R], rule checks_ok, simp, simp, rule bind_ok [where Q = ?R],
        simp add: attempt_def split: option.splits)
      (rule bind_ok [OF ipc_io] bind_ok [OF b] bind_ok [OF d] bind_ok [OF lift [OF confs_io]]
        bind_ok [OF lift [OF mounts_io]] bind_ok [OF lift [OF copies_io]] e | assumption)+
  then show ?thesis using assms by simp
qed

subsection \<open>The exit status\<close>

lemma judge_exit: "judge (wait_status (Exited n io)) = Returns (n mod 256)"
proof -
  have "(n mod 256) * 256 mod 128 = (0 :: int)" by presburger
  moreover have "(n mod 256) * 256 div 256 mod 256 = n mod 256" by simp
  ultimately show ?thesis
    by (auto simp: judge_def WIFEXITED_def WTERMSIG_def WEXITSTATUS_def WIFSIGNALED_def)
qed

lemma judge_killed: "0 < s \<Longrightarrow> s < 127 \<Longrightarrow> judge (wait_status (Killed s io)) = Breaks TBROK"
  by (simp add: judge_def WIFEXITED_def WTERMSIG_def WEXITSTATUS_def WIFSIGNALED_def)

text \<open>What the exit status is made of: how the test process ended, and the types of the results.\<close>

fun end_value :: "ending \<Rightarrow> int" where
  "end_value Fine = 0"
| "end_value (Ends n) = n mod 256"
| "end_value (Dies s) = TBROK"

definition status_spec :: "int list \<Rightarrow> int \<Rightarrow> int" where
  "status_spec ts ret =
     (let ret = (if TPASS \<in> set ts \<and> ret = TCONF then 0 else ret);
          ret = (if TFAIL \<in> set ts then ret OR TFAIL else ret);
          ret = (if TCONF \<in> set ts \<and> TPASS \<notin> set ts then ret OR TCONF else ret)
      in if TWARN \<in> set ts then ret OR TWARN else ret)"

lemma count_word:
  assumes "length ts < 2 ^ 32"
  shows "(of_nat (count_list ts t) :: 32 word) = 0 \<longleftrightarrow> t \<notin> set ts"
proof -
  have "count_list ts t < 2 ^ 32" using assms count_le_length [of ts t] by linarith
  then have "2 ^ 32 dvd count_list ts t \<longleftrightarrow> count_list ts t = 0" by (auto dest: dvd_imp_le)
  then show ?thesis by (simp add: word_of_nat_eq_0_iff count_list_0_iff)
qed

lemma exit_value_counts:
  assumes "length ts < 2 ^ 32"
  shows "exit_value ret (Some (add_counts ts (no_results\<lparr>timeout := s\<rparr>))) = status_spec ts ret"
  using count_word [OF assms] by (simp add: exit_value_def status_spec_def add_counts_def no_results_def)

lemma fork_impl:
  assumes "good_test p" "proc_spec p = (ts, e)" "shm (l_io l) = Some r"
    and "\<forall>s. e = Dies s \<longrightarrow> 0 < s \<and> s < 127"
  shows "\<exists>io'. shm io' = Some (add_counts ts (r\<lparr>timeout := secs\<rparr>)) \<and> fork_testrun True secs p l =
    (case e of Dies s \<Rightarrow> Quit TBROK (l\<lparr>l_io := io'\<rparr>) | _ \<Rightarrow> Value (end_value e) (l\<lparr>l_io := io'\<rparr>))"
proof -
  define io where "io = set_timeout secs (l_io l)"
  have r: "shm io = Some (r\<lparr>timeout := secs\<rparr>)" using assms(3) by (simp add: io_def set_timeout_def)
  obtain io' where p: "testrun p io = ends_as e io'" "shm io' = Some (add_counts ts (r\<lparr>timeout := secs\<rparr>))"
    using implD [OF testrun_impl [OF assms(1)] r] assms(2) by auto
  have T: "TTYPE_RESULT TBROK = TBROK" by (simp add: TTYPE_RESULT_def ttype_defs)
  have "judge (wait_status (Runs io')) = Returns 0"
    by (simp add: judge_def WIFEXITED_def WTERMSIG_def WEXITSTATUS_def WIFSIGNALED_def)
  then show ?thesis
    using p assms(4) judge_exit [of _ io'] judge_killed [of _ io'] T
    by (intro exI [of _ io'] conjI) (cases e; simp add: fork_testrun_def Let_def flip: io_def)+
qed

text \<open>The results and the combined return value of a list of variants.\<close>

fun variants_spec :: "test_proc list \<Rightarrow> int \<Rightarrow> int list \<times> int" where
  "variants_spec [] ret = ([], ret)"
| "variants_spec (p # ps) ret =
     (let (ts, e) = proc_spec p; ret' = ret OR end_value e
      in case e of
           Dies s \<Rightarrow> (ts, TBROK)
         | _ \<Rightarrow> if ret' AND NOT TCONF \<noteq> 0 then (ts, ret')
               else let (us, r) = variants_spec ps ret' in (ts @ us, r))"

definition good_proc :: "test_proc \<Rightarrow> bool" where
  "good_proc p \<longleftrightarrow> good_test p \<and> (\<forall>s. snd (proc_spec p) = Dies s \<longrightarrow> 0 < s \<and> s < 127)"

definition counts_of :: "int list \<Rightarrow> results \<Rightarrow> bool" where
  "counts_of ts r \<longleftrightarrow> (\<exists>s. r = add_counts ts (no_results\<lparr>timeout := s\<rparr>))"

lemma counts_of_add: "counts_of ts r \<Longrightarrow> counts_of (ts @ us) (add_counts us (r\<lparr>timeout := s\<rparr>))"
  by (auto simp: counts_of_def add_counts_def no_results_def add.assoc)

lemma counts_of_Nil: "counts_of [] no_results"
  by (auto simp: counts_of_def add_counts_def no_results_def)

lemma variant_loop_impl:
  assumes "\<not> all_filesystems t" "\<forall>f \<in> set fs. f_fork f \<and> good_proc (f_proc f)"
    and "shm (l_io l) = Some r" "counts_of us r" "variants_spec (map f_proc fs) ret = (ts, n)"
  shows "\<exists>io' r'. variant_loop t (map (\<lambda>f. [f]) fs) ret l = Quit n (l\<lparr>l_io := io'\<rparr>) \<and> shm io' = Some r' \<and> counts_of (us @ ts) r'"
  using assms(2-5)
proof (induction fs arbitrary: us ret l r ts n)
  case Nil
  then show ?case by (auto intro!: exI [of _ "l_io l"])
next
  case (Cons f fs)
  obtain vs e where p: "proc_spec (f_proc f) = (vs, e)" by fastforce
  have g: "good_test (f_proc f)" "\<forall>s. e = Dies s \<longrightarrow> 0 < s \<and> s < 127" "f_fork f"
    using Cons.prems(1) p by (auto simp: good_proc_def)
  obtain io' where io: "shm io' = Some (add_counts vs (r\<lparr>timeout := f_secs f\<rparr>))"
      "fork_testrun True (f_secs f) (f_proc f) l =
        (case e of Dies s \<Rightarrow> Quit TBROK (l\<lparr>l_io := io'\<rparr>) | _ \<Rightarrow> Value (end_value e) (l\<lparr>l_io := io'\<rparr>))"
    using fork_impl [OF g(1) p Cons.prems(2) g(2)] by blast
  have c: "counts_of (us @ vs) (add_counts vs (r\<lparr>timeout := f_secs f\<rparr>))" by (rule counts_of_add [OF Cons.prems(3)])
  have v: "run_variant t [f] l = fork_testrun True (f_secs f) (f_proc f) l"
    using assms(1) g(3) by (simp add: run_variant_def)
  show ?case
  proof (cases "(\<exists>s. e = Dies s) \<or> (ret OR end_value e) AND NOT TCONF \<noteq> 0")
    case True
    then show ?thesis using Cons.prems(4) io c
      by (intro exI [of _ io']) (cases e; auto simp: p v Let_def)
  next
    case False
    obtain ws where w: "variants_spec (map f_proc fs) (ret OR end_value e) = (ws, n)" "ts = vs @ ws"
      using False Cons.prems(4) p by (cases e) (auto split: prod.splits)
    have "variant_loop t (map (\<lambda>f. [f]) (f # fs)) ret l
        = variant_loop t (map (\<lambda>f. [f]) fs) (ret OR end_value e) (l\<lparr>l_io := io'\<rparr>)"
      using False io(2) by (cases e) (simp_all add: v)
    moreover have "shm (l_io (l\<lparr>l_io := io'\<rparr>)) = Some (add_counts vs (r\<lparr>timeout := f_secs f\<rparr>))" using io(1) by simp
    ultimately show ?thesis
      using Cons.IH [OF _ _ c w(1), of "l\<lparr>l_io := io'\<rparr>"] Cons.prems(1) w(2) by auto
  qed
qed

lemma keeps_io: "shm (l_io l) \<noteq> None \<Longrightarrow> shm io \<noteq> None \<Longrightarrow> keeps t c l \<Longrightarrow> keeps t c (l\<lparr>l_io := io\<rparr>)"
  by (auto simp: keeps_def holds_def)


definition plain_env :: msg_env where
  "plain_env = \<lparr>m_errno = 0, m_tst_err = 0, m_tst_ret = 0, m_colour = False, m_write = \<lambda>_. []\<rparr>"

definition ex_report :: "int \<Rightarrow> report" where
  "ex_report ty = \<lparr>r_env = plain_env, r_file = ''t.c'', r_line = 7, r_type = ty, r_msg = ''m''\<rparr>"

text \<open>A function that passes while its child fails.\<close>

definition ex_proc :: test_proc where
  "ex_proc = \<lparr>t_env = plain_env, t_setup = None, t_cleanup = None,
     t_tests = \<lambda>_. Test_all ([Res (ex_report TPASS), Child_res (ex_report TFAIL)], [Reaped 8 0]),
     t_iterations = 1, t_stop_time = 0, t_times = [], t_clock = \<lambda>_. True\<rparr>"

lemma ex_report_good: "ty \<in> {TPASS, TFAIL, TBROK, TWARN, TCONF} \<Longrightarrow> good (ex_report ty)"
  by (auto simp: good_def ex_report_def plain_env_def head_length_def result_name_def TTYPE_RESULT_def ttype_defs
      show_int_def show_nat.simps)

lemma ex_report_result: "ty \<in> {TPASS, TFAIL, TBROK, TWARN, TCONF} \<Longrightarrow> r_result (ex_report ty) = ty"
  by (auto simp: ex_report_def TTYPE_RESULT_def ttype_defs)

lemma ex_report_counted: "ty \<in> {TPASS, TFAIL, TBROK, TWARN, TCONF} \<Longrightarrow> counted_types (ex_report ty) = []"
proof -
  assume ty: "ty \<in> {TPASS, TFAIL, TBROK, TWARN, TCONF}"
  have "errno_part plain_env ty = []"
    using ty by (auto simp: errno_part_def msg_errno_def has_flag_def ttype_defs)
  moreover have "result_name ty \<noteq> None" using ty by (auto simp: result_name_def TTYPE_RESULT_def ttype_defs)
  ultimately show ?thesis
    by (simp add: counted_types_def ex_report_def length_full_line head_length_def plain_env_def show_int_def show_nat.simps)
qed

lemma ex_proc_good: "good_proc ex_proc"
  and ex_proc_spec: "proc_spec ex_proc = ([TPASS, TFAIL], Ends 0)"
proof -
  have "check_spec hs e 8 0 = ([], Fine)" for hs e
    by (simp add: check_spec.simps WIFSIGNALED_def WIFEXITED_def WTERMSIG_def WEXITSTATUS_def TPASS_def)
  moreover have "\<not> silent [TPASS, TFAIL]" by (simp add: silent_def ttype_defs)
  moreover have "rounds_left ex_proc 0 [] = Suc 0" by (simp add: rounds_left_def ex_proc_def)
  ultimately show s: "proc_spec ex_proc = ([TPASS, TFAIL], Ends 0)"
    by (simp add: proc_spec_def ex_proc_def one_spec_def ex_report_counted ex_report_result beat_spec_def clean_spec_def Let_def)
  have "good_test ex_proc"
    by (simp add: good_test_def ex_proc_def good_acts_def good_script_def ex_report_good)
  then show "good_proc ex_proc" by (simp add: good_proc_def s)
qed


subsection \<open>Tests that report nothing, and calls in the cleanup\<close>





subsection \<open>Timeouts\<close>

text \<open>The number of alarms since the last heartbeat.\<close>

fun alarms_since :: "signal_event list \<Rightarrow> nat \<Rightarrow> nat" where
  "alarms_since [] n = n"
| "alarms_since (Sigalrm # evs) n = alarms_since evs (Suc n)"
| "alarms_since (Sigusr1 # evs) n = alarms_since evs 0"
| "alarms_since (Sigint # evs) n = alarms_since evs n"

lemma take_signals_simps [simp]:
  "take_signals secs [] w = w"
  "take_signals secs (evs @ [e]) w = take_signal secs e (take_signals secs evs w)"
  by (simp_all add: take_signals_def)

lemma alarms_since_snoc:
  "alarms_since (evs @ [e]) n =
     (case e of Sigalrm \<Rightarrow> Suc (alarms_since evs n) | Sigusr1 \<Rightarrow> 0 | Sigint \<Rightarrow> alarms_since evs n)"
  by (induction evs n rule: alarms_since.induct) (auto split: signal_event.splits)

lemma take_signals_inv:
  assumes "w_exit w = None" "w_retries w = 0" "w' = take_signals secs evs w"
  shows "(if \<forall>k \<le> length evs. alarms_since (take k evs) 0 \<le> 10
          then w_exit w' = None \<and> w_retries w' = alarms_since evs 0 else w_exit w' = Some TFAIL)"
  using assms(3)
proof (induction evs arbitrary: w' rule: rev_induct)
  case Nil
  then show ?case using assms(1,2) by simp
next
  case (snoc e evs)
  let ?w = "take_signals secs evs w" and ?ok = "\<forall>k \<le> length evs. alarms_since (take k evs) 0 \<le> 10"
  have ih: "if ?ok then w_exit ?w = None \<and> w_retries ?w = alarms_since evs 0 else w_exit ?w = Some TFAIL"
    by (rule snoc.IH) simp
  have all: "(\<forall>k \<le> length (evs @ [e]). alarms_since (take k (evs @ [e])) 0 \<le> 10)
      \<longleftrightarrow> ?ok \<and> alarms_since (evs @ [e]) 0 \<le> 10" (is "?l = ?r")
  proof
    assume l: ?l
    have "alarms_since (take k evs) 0 \<le> 10" if "k \<le> length evs" for k
      using l [rule_format, of k] that by simp
    moreover have "alarms_since (evs @ [e]) 0 \<le> 10" using l [rule_format, of "Suc (length evs)"] by simp
    ultimately show ?r by blast
  next
    assume r: ?r
    show ?l
    proof (intro allI impI)
      fix k assume "k \<le> length (evs @ [e])"
      then show "alarms_since (take k (evs @ [e])) 0 \<le> 10" using r by (cases "k \<le> length evs") (auto simp: not_le)
    qed
  qed
  have w: "w' = take_signal secs e ?w" using snoc.prems by simp
  have last: "alarms_since evs 0 \<le> 10" if ?ok using that [rule_format, of "length evs"] by simp
  show ?case
  proof (cases ?ok)
    case True
    then show ?thesis using ih last unfolding all w alarms_since_snoc
      by (cases e) (auto simp: handler_defs Let_def)
  next
    case False
    then have "w_exit ?w = Some TFAIL" using ih by (simp only: if_False)
    then have "w_exit w' = Some TFAIL" by (simp add: w take_signal_def)
    then show ?thesis unfolding all using False by (simp only: simp_thms if_False)
  qed
qed

text \<open>C20: while the library waits, it gives up with the status \<open>TFAIL\<close> exactly when eleven alarms have come without
  a heartbeat between them; a heartbeat resets the count, and until then every alarm kills the process
  group of the test again.\<close>

theorem timeout_gives_up:
  assumes "w_exit w = None" "w_retries w = 0"
  shows "w_exit (take_signals secs evs w) =
    (if \<exists>k \<le> length evs. 11 \<le> alarms_since (take k evs) 0 then Some TFAIL else None)"
proof -
  have "(\<exists>k \<le> length evs. 11 \<le> alarms_since (take k evs) 0) \<longleftrightarrow> \<not> (\<forall>k \<le> length evs. alarms_since (take k evs) 0 \<le> 10)"
    by (auto simp: not_le Suc_le_eq eval_nat_numeral)
  then show ?thesis using take_signals_inv [OF assms refl, of evs secs] by (auto split: if_splits)
qed

theorem timeout_gives_up_witness:
  "w_exit (take_signals 300 (replicate 10 Sigalrm @ [Sigusr1, Sigint] @ replicate 11 Sigalrm)
     \<lparr>w_alarm = 300, w_retries = 0, w_kills = 0, w_exit = None\<rparr>) = Some TFAIL"
proof -
  let ?e = "replicate 10 Sigalrm @ [Sigusr1, Sigint] @ replicate 11 Sigalrm"
  have "\<exists>k \<le> length ?e. 11 \<le> alarms_since (take k ?e) 0"
    by (intro exI [of _ 23]) (simp add: eval_nat_numeral)
  then show ?thesis
    using timeout_gives_up [of "\<lparr>w_alarm = 300, w_retries = 0, w_kills = 0, w_exit = None\<rparr>" 300 ?e] by simp
qed

end
