(* ===== verification/Timer_Test.thy ===== *)
theory Timer_Test
  imports Tst_Message "HOL-Library.Multiset"
begin

section \<open>tst_timer_test: measuring how long a call sleeps\<close>

text \<open>
  \<open>lib/tst_timer_test.c\<close>.  A test gives a function that sleeps and records the measured time; the library calls it a number
  of times, sorts the samples and compares them with the time asked for.  The array of samples is a list of
  its elements, which \<open>malloc\<close> leaves unset.  Numbers of samples are natural numbers up to \<open>INT_MAX\<close>, as
  both callers have them.  The frequency plot, which computes with floats, is left out; the messages are
  values with the numbers that they print.
\<close>

unbundle bit_operations_syntax

definition MAX_SAMPLES :: nat where "MAX_SAMPLES = 500"

record timer_st =
  samples :: "int option list"
  cur_sample :: nat

text \<open>The static variables that the setup sets, and the file for the samples: whether it is asked for, can be
  opened and can be closed.\<close>

record timer_cfg =
  monotonic_resolution :: "32 word"
  timerslack :: "32 word"
  file_name :: bool
  fopen_ok :: bool
  fclose_ok :: bool

datatype timer_msg = Sleeping | Sampling_failed | Outliners nat int int | Woken_early nat int int
  | Statistics int int int nat | Too_long | Within | File_warning

fun timer_type :: "timer_msg \<Rightarrow> int" where
  "timer_type (Woken_early k a b) = TFAIL"
| "timer_type Too_long = TFAIL"
| "timer_type Within = TPASS"
| "timer_type File_warning = TWARN OR TERRNO"
| "timer_type _ = TINFO"

subsection \<open>Samples\<close>

definition tst_timer_sample :: "int \<Rightarrow> timer_st \<Rightarrow> timer_st outcome" where
  "tst_timer_sample us st =
     (if cur_sample st < length (samples st)
      then Ret (st\<lparr>samples := (samples st)[cur_sample st := Some us], cur_sample := Suc (cur_sample st)\<rparr>)
      else Undefined ''samples[cur_sample]'')"

fun record_all :: "int list \<Rightarrow> timer_st \<Rightarrow> timer_st outcome" where
  "record_all [] st = Ret st"
| "record_all (us # uss) st = bind_outcome (tst_timer_sample us st) (record_all uss)"

text \<open>\<open>f i\<close> is what the function of the test does in turn \<open>i\<close>: the times it records and whether it fails.\<close>

fun sample_loop :: "(nat \<Rightarrow> int list \<times> bool) \<Rightarrow> nat list \<Rightarrow> timer_st \<Rightarrow> (bool \<times> timer_st) outcome" where
  "sample_loop f [] st = Ret (True, st)"
| "sample_loop f (i # is) st =
     bind_outcome (record_all (fst (f i)) st) (\<lambda>st. if snd (f i) then Ret (False, st) else sample_loop f is st)"

text \<open>The difference of two \<open>long long\<close> is returned as an \<open>int\<close>.\<close>

definition cmp :: "int \<Rightarrow> int \<Rightarrow> int" where
  "cmp aa bb = wrap32 (bb - aa)"

text \<open>\<open>qsort\<close> of the C library needs a function that orders the elements.\<close>

definition consistent :: "('a \<Rightarrow> 'a \<Rightarrow> int) \<Rightarrow> 'a list \<Rightarrow> bool" where
  "consistent c xs \<longleftrightarrow> (\<forall>x \<in> set xs. \<forall>y \<in> set xs. (c x y < 0 \<longleftrightarrow> c y x > 0)
     \<and> (\<forall>z \<in> set xs. c x y \<le> 0 \<longrightarrow> c y z \<le> 0 \<longrightarrow> c x z \<le> 0))"

fun insert_by :: "('a \<Rightarrow> 'a \<Rightarrow> int) \<Rightarrow> 'a \<Rightarrow> 'a list \<Rightarrow> 'a list" where
  "insert_by c x [] = [x]"
| "insert_by c x (y # ys) = (if c x y \<le> 0 then x # y # ys else y # insert_by c x ys)"

definition qsort :: "('a \<Rightarrow> 'a \<Rightarrow> int) \<Rightarrow> 'a list \<Rightarrow> 'a list outcome" where
  "qsort c xs = (if consistent c xs then Ret (foldr (insert_by c) xs []) else Undefined ''qsort'')"

definition sort_samples :: "nat \<Rightarrow> timer_st \<Rightarrow> int list outcome" where
  "sort_samples nsamples st =
     (if length (samples st) < nsamples then Undefined ''samples''
      else case those (take nsamples (samples st)) of
        None \<Rightarrow> Undefined ''unset sample''
      | Some xs \<Rightarrow> qsort cmp xs)"

definition write_to_file :: "timer_cfg \<Rightarrow> int list \<Rightarrow> timer_msg list \<times> string option" where
  "write_to_file cfg xs =
     (if \<not> file_name cfg then ([], None)
      else if \<not> fopen_ok cfg then ([File_warning], None)
      else (if fclose_ok cfg then [] else [File_warning], Some (concat (map (\<lambda>x. show_int x @ [NL]) xs))))"

subsection \<open>Thresholds\<close>

text \<open>Unsigned arithmetic of 32 bits.\<close>

definition compute_threshold :: "timer_cfg \<Rightarrow> int \<Rightarrow> nat \<Rightarrow> int" where
  "compute_threshold cfg requested_us nsamples =
     (let slack_per_scall = word_of_int (min 100000 (tdiv requested_us 1000)) :: 32 word;
          slack_per_scall = max slack_per_scall (timerslack cfg)
      in uint ((400 + 2 * monotonic_resolution cfg + slack_per_scall) * of_nat nsamples + of_nat (3000 div nsamples)))"

definition compute_discard :: "nat \<Rightarrow> nat" where
  "compute_discard nsamples = (if nsamples = 1 then 0 else max 1 (nsamples div 20))"

subsection \<open>The test\<close>

text \<open>Both loops over the sorted samples read the element before they test the index.  The outliners, from the largest
  sample: \<open>xs\<close> are the samples from index \<open>i\<close> on, and \<open>cap\<close> is the size of the array.\<close>

fun outlier_loop :: "timer_cfg \<Rightarrow> int \<Rightarrow> nat \<Rightarrow> int list \<Rightarrow> nat \<Rightarrow> nat outcome" where
  "outlier_loop cfg usec cap [] i = (if i < cap then Ret i else Undefined ''samples[nsamples]'')"
| "outlier_loop cfg usec cap (x # xs) i =
     (if x > 10 * usec \<and> \<not> x \<le> uint (3 * monotonic_resolution cfg) then outlier_loop cfg usec cap xs (Suc i) else Ret i)"

text \<open>The samples that are too short, from the smallest on: their number.\<close>

fun early_loop :: "int \<Rightarrow> int list \<Rightarrow> nat \<Rightarrow> nat outcome" where
  "early_loop usec [] k = Undefined ''samples[-1]''"
| "early_loop usec (x # xs) k = (if x < usec then early_loop usec xs (Suc k) else Ret k)"

fun sum_loop :: "int list \<Rightarrow> int \<Rightarrow> int outcome" where
  "sum_loop [] trunc_mean = Ret trunc_mean"
| "sum_loop (x # xs) trunc_mean = bind_outcome (long_of (trunc_mean + x)) (sum_loop xs)"

text \<open>What is reported about the sorted samples \<open>xs\<close>.\<close>

definition judge_samples :: "timer_cfg \<Rightarrow> int \<Rightarrow> nat \<Rightarrow> nat \<Rightarrow> int list \<Rightarrow> timer_msg list outcome" where
  "judge_samples cfg usec nsamples cap xs =
     (let discard = compute_discard nsamples;
          threshold = compute_threshold cfg usec (nsamples - discard)
      in bind_outcome (long_of (10 * usec)) (\<lambda>_.
         bind_outcome (outlier_loop cfg usec cap xs 0) (\<lambda>out.
         bind_outcome (early_loop usec (rev xs) 0) (\<lambda>early.
         bind_outcome (sum_loop (drop discard xs) 0) (\<lambda>trunc_mean.
         bind_outcome (long_of (int (nsamples - discard) * usec)) (\<lambda>m.
         bind_outcome (long_of (m + threshold)) (\<lambda>limit.
         Ret ((if out > 0 then [Outliners out (xs ! 0) (xs ! (out - 1))] else [])
            @ (if early > 0 then [Woken_early early (xs ! (nsamples - early)) (xs ! (nsamples - 1))] else [])
            @ [Statistics (xs ! (nsamples - 1)) (xs ! 0) (xs ! (nsamples div 2)) discard]
            @ (if trunc_mean > limit then [Too_long] else [])
            @ (if early > 0 \<or> trunc_mean > limit then [] else [Within])))))))))"

definition do_timer_test ::
  "timer_cfg \<Rightarrow> (nat \<Rightarrow> int list \<times> bool) \<Rightarrow> int \<Rightarrow> nat \<Rightarrow> timer_st \<Rightarrow> (timer_msg list \<times> string option \<times> timer_st) outcome" where
  "do_timer_test cfg f usec nsamples st =
     bind_outcome (sample_loop f [0..<nsamples] (st\<lparr>cur_sample := 0\<rparr>)) (\<lambda>(ok, st).
     if \<not> ok then Ret ([Sleeping, Sampling_failed], None, st)
     else bind_outcome (sort_samples nsamples st) (\<lambda>xs.
          let st = st\<lparr>samples := map Some xs @ drop nsamples (samples st)\<rparr>;
              (warns, content) = write_to_file cfg (map the (take (cur_sample st) (samples st)))
          in bind_outcome (judge_samples cfg usec nsamples (length (samples st)) xs) (\<lambda>msgs.
             Ret ([Sleeping] @ warns @ msgs, content, st))))"

subsection \<open>Setup\<close>

definition timer_resolution :: "int \<Rightarrow> 32 word" where
  "timer_resolution nsec = word_of_int (tdiv nsec 1000)"

text \<open>\<open>ret\<close> is the answer of \<open>prctl\<close>.\<close>

definition timer_slack :: "int \<Rightarrow> 32 word" where
  "timer_slack ret = (if ret < 0 then 50 else word_of_int (tdiv ret 1000))"

text \<open>The options: the sleep time, the number of samples and the argument of \<open>tst_set_timeout\<close>, if they replace the
  table of test cases.  \<open>tst_set_timeout\<close> breaks the test for less than one second.\<close>

definition parse_timer_opts :: "string option \<Rightarrow> string option \<Rightarrow> (int \<times> int \<times> int) option outcome" where
  "parse_timer_opts str_sleep_time str_sample_cnt =
     (let (e1, sleep_time) = tst_parse_int str_sleep_time (-1) 0 INT_MAX;
          (e2, sample_cnt) = tst_parse_int str_sample_cnt 0 1 INT_MAX
      in if e1 \<noteq> 0 then Exits TBROK
         else if e2 \<noteq> 0 then Exits TBROK
         else if str_sleep_time = None \<and> str_sample_cnt = None then Ret None
         else let sleep_time = (if sleep_time < 0 then 10000 else sleep_time);
                  sample_cnt = (if sample_cnt = 0 then 500 else sample_cnt)
              in bind_outcome (int_of_expr (sleep_time * sample_cnt)) (\<lambda>us.
                 let timeout = us div 1000000; timeout = timeout + timeout div 10
                 in if timeout < 1 then Exits TBROK else Ret (Some (sleep_time, sample_cnt, timeout))))"

definition sample_space :: "int \<Rightarrow> nat" where
  "sample_space sample_cnt = max MAX_SAMPLES (nat sample_cnt)"

definition tcases :: "(int \<times> nat) list" where
  "tcases = [(1000, 500), (2000, 500), (5000, 300), (10000, 100), (25000, 50), (100000, 10), (1000000, 2)]"

definition timer_test_fn :: "timer_cfg \<Rightarrow> (nat \<Rightarrow> int list \<times> bool) \<Rightarrow> nat \<Rightarrow> timer_st \<Rightarrow> (timer_msg list \<times> string option \<times> timer_st) outcome" where
  "timer_test_fn cfg f n st = do_timer_test cfg f (fst (tcases ! n)) (snd (tcases ! n)) st"

subsection \<open>Sorting\<close>

lemma insert_by_mset: "mset (insert_by c x ys) = add_mset x (mset ys)"
  by (induction ys) auto

lemma insert_by_set [simp]: "set (insert_by c x ys) = insert x (set ys)"
  using arg_cong [OF insert_by_mset [of c x ys], of set_mset] by simp

lemma qsort_mset: "mset (foldr (insert_by c) xs []) = mset xs"
  by (induction xs) (simp_all add: insert_by_mset)

definition in_range :: "int \<Rightarrow> bool" where
  "in_range x \<longleftrightarrow> 0 \<le> x \<and> x \<le> INT_MAX"

lemma cmp_in_range: "in_range a \<Longrightarrow> in_range b \<Longrightarrow> cmp a b = b - a"
  by (simp add: cmp_def in_range_def wrap32_id int_limits)

lemma insert_by_cmp:
  assumes "in_range x" "\<forall>y \<in> set ys. in_range y" "sorted_wrt (\<ge>) ys"
  shows "sorted_wrt (\<ge>) (insert_by cmp x ys)"
  using assms by (induction ys) (auto simp: cmp_in_range)

text \<open>As long as all differences fit into an \<open>int\<close> the samples are sorted, the largest first.\<close>

lemma qsort_cmp:
  assumes "\<forall>x \<in> set xs. in_range x"
  shows "qsort cmp xs = Ret (rev (sort xs))"
proof -
  have s: "set (foldr (insert_by cmp) ys []) = set ys" for ys :: "int list"
    by (induction ys) auto
  have "sorted_wrt (\<ge>) (foldr (insert_by cmp) xs [])"
    using assms by (induction xs) (auto intro!: insert_by_cmp simp: s)
  then have "sorted (rev (foldr (insert_by cmp) xs []))" by (simp add: sorted_wrt_rev)
  moreover have "mset (rev (foldr (insert_by cmp) xs [])) = mset xs" by (simp add: qsort_mset)
  ultimately have "sort xs = rev (foldr (insert_by cmp) xs [])" by (metis properties_for_sort)
  moreover have "consistent cmp xs" using assms by (auto simp: consistent_def cmp_in_range)
  ultimately show ?thesis by (simp add: qsort_def)
qed

subsection \<open>The loops\<close>

lemma early_loop_eq:
  "early_loop usec xs k =
     (if \<forall>x \<in> set xs. x < usec then Undefined ''samples[-1]'' else Ret (k + length (takeWhile (\<lambda>x. x < usec) xs)))"
  by (induction xs arbitrary: k) auto

lemma takeWhile_sorted: "sorted xs \<Longrightarrow> takeWhile (\<lambda>x. x < u) xs = filter (\<lambda>x. x < (u :: int)) xs"
proof (induction xs)
  case (Cons a xs)
  have "filter (\<lambda>x. x < u) xs = []" if "\<not> a < u" using Cons.prems that by (auto simp: filter_empty_conv)
  then show ?case using Cons by auto
qed simp

lemma early_count:
  "length (takeWhile (\<lambda>x. x < u) (sort xs)) = length (filter (\<lambda>x. x < u) xs)" for u :: int
  by (simp add: takeWhile_sorted filter_sort)

lemma outlier_loop_Ret:
  assumes "i + length xs < cap \<or> (\<exists>x \<in> set xs. x \<le> 10 * usec)"
  shows "\<exists>out. outlier_loop cfg usec cap xs i = Ret out"
  using assms by (induction xs arbitrary: i) (auto split: if_splits)

lemma sum_loop_Ret:
  assumes "\<forall>x \<in> set xs. in_range x" "0 \<le> acc" "acc + int (length xs) * INT_MAX \<le> LONG_MAX"
  shows "sum_loop xs acc = Ret (acc + sum_list xs)"
  using assms
proof (induction xs arbitrary: acc)
  case (Cons x xs)
  have l: "acc + x + int (length xs) * INT_MAX \<le> LONG_MAX"
    using Cons.prems by (auto simp: in_range_def algebra_simps)
  moreover have "0 \<le> int (length xs) * INT_MAX" by (simp add: INT_MAX_def)
  ultimately have "acc + x \<le> LONG_MAX" by linarith
  then show ?case
    using Cons.IH [of "acc + x"] Cons.prems l by (simp add: long_of_def in_range_def LONG_MIN_def)
qed simp

lemma compute_discard_less: "0 < n \<Longrightarrow> compute_discard n < n"
  by (auto simp: compute_discard_def)

lemma threshold_bounds: "0 \<le> compute_threshold cfg u n \<and> compute_threshold cfg u n < 2 ^ 32"
  using uint_lt2p [where 'a = 32] by (simp add: compute_threshold_def Let_def)

lemma small_product:
  assumes "n \<le> 2 ^ 31" "in_range u"
  shows "int n * u \<le> 2 ^ 62"
proof -
  have "int n * u \<le> 2 ^ 31 * 2 ^ 31"
    using assms by (intro mult_mono) (auto simp: in_range_def INT_MAX_def)
  then show ?thesis by simp
qed

subsection \<open>The verdict\<close>

text \<open>The samples without the largest ones, in total longer than asked for.\<close>

definition slept_too_long :: "timer_cfg \<Rightarrow> int \<Rightarrow> int list \<Rightarrow> bool" where
  "slept_too_long cfg usec ys \<longleftrightarrow>
     (let keep = length ys - compute_discard (length ys)
      in int keep * usec + compute_threshold cfg usec keep < sum_list (take keep (sort ys)))"

definition early_samples :: "int \<Rightarrow> int list \<Rightarrow> nat" where
  "early_samples usec ys = length (filter (\<lambda>x. x < usec) ys)"

definition verdict_of :: "timer_cfg \<Rightarrow> int \<Rightarrow> int list \<Rightarrow> timer_msg list \<Rightarrow> bool" where
  "verdict_of cfg usec ys msgs \<longleftrightarrow> (Too_long \<in> set msgs \<longleftrightarrow> slept_too_long cfg usec ys)
     \<and> (\<forall>k. (\<exists>a b. Woken_early k a b \<in> set msgs) \<longleftrightarrow> k = early_samples usec ys \<and> 0 < k)
     \<and> (Within \<in> set msgs \<longleftrightarrow> early_samples usec ys = 0 \<and> \<not> slept_too_long cfg usec ys)"

lemma judge_samples_verdict:
  assumes "xs = rev (sort ys)" "\<forall>x \<in> set ys. in_range x" "in_range usec" "length ys = n" "0 < n" "int n \<le> INT_MAX"
    and "\<exists>x \<in> set ys. usec \<le> x" "n < cap \<or> (\<exists>x \<in> set ys. x \<le> 10 * usec)"
  shows "\<exists>msgs. judge_samples cfg usec n cap xs = Ret msgs \<and> verdict_of cfg usec ys msgs"
proof -
  define keep where "keep = n - compute_discard n"
  let ?d = "compute_discard n" and ?t = "compute_threshold cfg usec keep" and ?early = "early_samples usec ys"
  have k: "keep \<le> n" "n \<le> 2 ^ 31" using assms(6) by (simp_all add: keep_def INT_MAX_def)
  have ten: "long_of (10 * usec) = Ret (10 * usec)" using assms(3) by (simp add: long_of_def in_range_def int_limits)
  obtain out where out: "outlier_loop cfg usec cap xs 0 = Ret out"
    using outlier_loop_Ret [of 0 xs cap usec cfg] assms(1,4,8) by auto
  have er: "early_loop usec (rev xs) 0 = Ret ?early"
    using assms(1,7) by (auto simp: early_loop_eq early_count early_samples_def not_less)
  have dr: "drop ?d xs = rev (take keep (sort ys))"
    using assms(1,4) by (simp add: drop_rev keep_def)
  have len: "length (take keep (sort ys)) = keep" using assms(4) k(1) by simp
  have in_take: "\<forall>x \<in> set (rev (take keep (sort ys))). in_range x" using assms(2) by (auto dest: in_set_takeD)
  have "int keep * INT_MAX \<le> 2 ^ 62"
    using small_product [of keep INT_MAX] k by (simp add: in_range_def INT_MAX_def)
  then have "sum_loop (rev (take keep (sort ys))) 0 = Ret (sum_list (take keep (sort ys)))"
    using sum_loop_Ret [OF in_take, of 0] len by (simp add: LONG_MAX_def)
  then have su: "sum_loop (drop ?d xs) 0 = Ret (sum_list (take keep (sort ys)))" by (simp only: dr)
  have p: "0 \<le> int keep * usec" "int keep * usec \<le> 2 ^ 62"
    using small_product [of keep usec] k assms(3) by (auto simp: in_range_def)
  then have pr: "long_of (int keep * usec) = Ret (int keep * usec)" by (simp add: long_of_def int_limits)
  have lim: "long_of (int keep * usec + ?t) = Ret (int keep * usec + ?t)"
    using p threshold_bounds [of cfg usec keep] by (simp add: long_of_def int_limits)
  show ?thesis
    by (simp only: judge_samples_def Let_def keep_def [symmetric] ten bind_outcome.simps out er su pr lim)
      (auto simp: verdict_of_def slept_too_long_def assms(4) keep_def Let_def)
qed

lemma record_one:
  "cur_sample st < length (samples st) \<Longrightarrow>
     record_all [u] st = Ret (st\<lparr>samples := (samples st)[cur_sample st := Some u], cur_sample := Suc (cur_sample st)\<rparr>)"
  by (simp add: tst_timer_sample_def)

lemma sample_loop_eq:
  assumes "\<forall>i \<in> set is. f i = ([g i], False)" "cur_sample st + length is \<le> length (samples st)"
  shows "sample_loop f is st = Ret (True, st\<lparr>
    samples := take (cur_sample st) (samples st) @ map (Some \<circ> g) is @ drop (cur_sample st + length is) (samples st),
    cur_sample := cur_sample st + length is\<rparr>)"
  using assms
proof (induction "is" arbitrary: st)
  case (Cons i "is")
  let ?st = "st\<lparr>samples := (samples st)[cur_sample st := Some (g i)], cur_sample := Suc (cur_sample st)\<rparr>"
  have "sample_loop f (i # is) st = sample_loop f is ?st"
    using Cons.prems record_one [of st "g i"] by simp
  moreover have "take (Suc (cur_sample st)) ((samples st)[cur_sample st := Some (g i)]) = take (cur_sample st) (samples st) @ [Some (g i)]"
    using Cons.prems(2) by (simp add: take_Suc_conv_app_nth)
  ultimately show ?case using Cons.IH [of ?st] Cons.prems by simp
qed simp

lemma those_map_Some: "those (map (Some \<circ> g) is) = Some (map g is)"
  by (induction "is") auto

text \<open>C25: a timer test whose calls record one time each reports that the call woke up early exactly when a sample is
  below the time asked for, with the number of such samples; that it slept too long exactly when the sum of the samples
  without the discarded largest ones exceeds the sum of the times asked for plus the threshold; and that it passed
  exactly when neither holds.\<close>

theorem timer_verdict:
  assumes "0 < n" "n \<le> length (samples st)" "int n \<le> INT_MAX" "in_range usec"
    and "\<forall>i < n. f i = ([g i], False) \<and> in_range (g i)"
    and "\<exists>i < n. usec \<le> g i" "n < length (samples st) \<or> (\<exists>i < n. g i \<le> 10 * usec)"
  shows "\<exists>msgs content st'. do_timer_test cfg f usec n st = Ret (msgs, content, st')
    \<and> verdict_of cfg usec (map g [0..<n]) msgs"
proof -
  define ys where "ys = map g [0..<n]"
  define st1 where "st1 = st\<lparr>samples := map (Some \<circ> g) [0..<n] @ drop n (samples st), cur_sample := n\<rparr>"
  have l: "length (samples st1) = length (samples st)" "length ys = n" using assms(2) by (simp_all add: st1_def ys_def)
  have r: "\<forall>x \<in> set ys. in_range x" using assms(5) by (auto simp: ys_def)
  have a: "sample_loop f [0..<n] (st\<lparr>cur_sample := 0\<rparr>) = Ret (True, st1)"
    using sample_loop_eq [of "[0..<n]" f g "st\<lparr>cur_sample := 0\<rparr>"] assms(2,5) by (simp add: st1_def)
  have b: "sort_samples n st1 = Ret (rev (sort ys))"
    using assms(2) qsort_cmp [OF r] those_map_Some [of g "[0..<n]"]
    by (simp add: sort_samples_def st1_def ys_def)
  have e: "\<exists>x \<in> set ys. usec \<le> x" "n < length (samples st) \<or> (\<exists>x \<in> set ys. x \<le> 10 * usec)"
    using assms(6,7) by (auto simp: ys_def)
  obtain msgs where m: "judge_samples cfg usec n (length (samples st)) (rev (sort ys)) = Ret msgs" "verdict_of cfg usec ys msgs"
    using judge_samples_verdict [OF refl r assms(4) l(2) assms(1,3) e, of cfg] by auto
  have c1: "cur_sample st1 = n" by (simp add: st1_def)
  obtain ws co where w: "write_to_file cfg (map the (take n (map Some (rev (sort ys)) @ drop n (samples st1)))) = (ws, co)"
    by (cases "write_to_file cfg (map the (take n (map Some (rev (sort ys)) @ drop n (samples st1))))")
  then have ws: "set ws \<subseteq> {File_warning}" by (auto simp: write_to_file_def split: if_splits)
  have "length (map Some (rev (sort ys)) @ drop n (samples st1)) = length (samples st)" using assms(2) l by simp
  then have "\<exists>st'. do_timer_test cfg f usec n st = Ret ([Sleeping] @ ws @ msgs, co, st')"
    using m(1) w c1 by (simp only: do_timer_test_def a b bind_outcome.simps prod.case Let_def not_True_eq_False if_False
        timer_st.simps) simp
  moreover have "Too_long \<notin> set ws" "Woken_early k x y \<notin> set ws" "Within \<notin> set ws" for k x y using ws by auto
  then have "verdict_of cfg usec ys ([Sleeping] @ ws @ msgs)" using m(2) by (simp add: verdict_of_def)
  ultimately show ?thesis unfolding ys_def by blast
qed

theorem timer_verdict_witness:
  "\<exists>msgs content st'. do_timer_test \<lparr>monotonic_resolution = 1, timerslack = 50, file_name = True, fopen_ok = True, fclose_ok = True\<rparr>
     (\<lambda>i. ([if i = 0 then 999 else 1100], False)) 1000 2 \<lparr>samples = replicate 500 None, cur_sample = 0\<rparr>
     = Ret (msgs, content, st') \<and> Within \<notin> set msgs \<and> (\<exists>a b. Woken_early 1 a b \<in> set msgs)"
proof -
  let ?g = "\<lambda>i :: nat. if i = 0 then 999 else 1100 :: int"
  have "early_samples 1000 (map ?g [0..<2]) = 1" by (simp add: early_samples_def upt_rec)
  then show ?thesis
    using timer_verdict [of 2 "\<lparr>samples = replicate 500 None, cur_sample = 0\<rparr>" 1000 "\<lambda>i. ([?g i], False)" ?g
        "\<lparr>monotonic_resolution = 1, timerslack = 50, file_name = True, fopen_ok = True, fclose_ok = True\<rparr>"]
    by (fastforce simp: verdict_of_def in_range_def INT_MAX_def intro: exI [of _ 1])
qed

subsection \<open>Reads outside the array and broken options\<close>

text \<open>When every call wakes up early, the search for the first good sample reads in front of the array, and when all
  samples are outliners of a full array, behind it.\<close>

lemma timer_all_early: "\<forall>x \<in> set xs. x < usec \<Longrightarrow> early_loop usec (rev xs) 0 = Undefined ''samples[-1]''"
  by (simp add: early_loop_eq)

lemma timer_all_outliners:
  "\<forall>x \<in> set xs. 10 * usec < x \<and> uint (3 * monotonic_resolution cfg) < x \<Longrightarrow>
     outlier_loop cfg usec (i + length xs) xs i = Undefined ''samples[nsamples]''"
proof (induction xs arbitrary: i)
  case (Cons x xs)
  then show ?case using Cons.IH [of "Suc i"] by auto
qed simp

lemma whole_seconds: "0 \<le> p \<Longrightarrow> p div 1000000 + p div 1000000 div 10 < 1 \<longleftrightarrow> p < (1000000 :: int)"
proof -
  assume p: "0 \<le> p"
  have "1 \<le> p div 1000000" if "1000000 \<le> p" using zdiv_mono1 [OF that, of 1000000] by simp
  moreover have "0 \<le> p div 1000000 div 10" using p by (simp add: pos_imp_zdiv_nonneg_iff)
  ultimately show ?thesis using p by (cases "p < 1000000") auto
qed

text \<open>With the options for the sleep time and the number of samples the test breaks when they amount to less than a
  second, has undefined behaviour when their product exceeds an \<open>int\<close>, and else runs with a
  timeout of the whole seconds and a tenth.\<close>

theorem timer_opts_outcome:
  assumes "0 \<le> s" "s \<le> INT_MAX" "1 \<le> n" "n \<le> INT_MAX"
  shows "parse_timer_opts (Some (show_int s)) (Some (show_int n)) =
    (if INT_MAX < s * n then Undefined ''signed overflow''
     else if s * n < 1000000 then Exits TBROK
     else Ret (Some (s, n, (s * n) div 1000000 + (s * n) div 1000000 div 10)))"
proof -
  have "tst_parse_int (Some (show_int s)) (-1) 0 INT_MAX = (0, s)"
    using assms by (subst tst_parse_int_show_int) (auto simp: int_limits)
  moreover have "tst_parse_int (Some (show_int n)) 0 1 INT_MAX = (0, n)"
    using assms by (subst tst_parse_int_show_int) (auto simp: int_limits)
  moreover have "0 \<le> s * n" using assms by simp
  then have "int_of_expr (s * n) = (if INT_MAX < s * n then Undefined ''signed overflow'' else Ret (s * n))"
    by (auto simp: int_of_expr_def INT_MIN_def)
  moreover have "(s * n) div 1000000 + (s * n) div 1000000 div 10 < 1 \<longleftrightarrow> s * n < 1000000"
    using \<open>0 \<le> s * n\<close> by (rule whole_seconds)
  ultimately show ?thesis using assms by (simp add: parse_timer_opts_def Let_def)
qed

theorem timer_opts_outcome_witness:
  "parse_timer_opts (Some (show_int 10000)) (Some (show_int 50)) = Exits TBROK \<and>
   parse_timer_opts (Some (show_int 1000000)) (Some (show_int 3000)) = Undefined ''signed overflow''"
  using timer_opts_outcome [of 10000 50] timer_opts_outcome [of 1000000 3000] by (simp add: INT_MAX_def)

end
