(* ===== verification/Tst_Tmpdir.thy ===== *)
theory Tst_Tmpdir
  imports Tst_Res
begin

section \<open>tst_tmpdir: temporary directories\<close>

text \<open>
  \<open>lib/tst_tmpdir.c\<close>.  A directory tree has objects that are no directories, among them symbolic links, which the code
  does not follow, and directories with the entries that \<open>readdir\<close> returns without \<open>.\<close> and \<open>..\<close>, which the
  code skips.  What the system refuses is an argument, as an error number for each path, 0 for no error.  An error is
  returned with the last message that was written.  The part of the library that reports is
  that of theory \<open>Tst_Res\<close>.
\<close>

unbundle bit_operations_syntax

subsection \<open>Removing a tree\<close>

datatype node = Leaf | Dir "(string \<times> node) list"

record rm_sys =
  s_open :: "string \<Rightarrow> bool"
  s_opendir :: "string \<Rightarrow> errno"
  s_lstat :: "string \<Rightarrow> errno"
  s_nlink :: "string \<Rightarrow> nat"
  s_remove :: "string \<Rightarrow> errno"

definition EISDIR :: errno where "EISDIR = 21"

definition rm_error :: "string \<Rightarrow> string \<Rightarrow> errno \<Rightarrow> string" where
  "rm_error what obj n = what @ ''('' @ obj @ '') failed; errno='' @ show_int n @ '': '' @ tst_strerrno n"

definition opendir_error :: "string \<Rightarrow> errno \<Rightarrow> string" where
  "opendir_error path n = ''Cannot open directory '' @ path @ ''; errno='' @ show_int n @ '': '' @ tst_strerrno n"

text \<open>The check of \<open>purge_dir\<close> before its loop.\<close>

definition purge_refused :: "rm_sys \<Rightarrow> string \<Rightarrow> string option" where
  "purge_refused s path =
     (if path = ''/'' then Some ''Cannot purge system root directory''
      else if s_opendir s path \<noteq> 0 then Some (opendir_error path (s_opendir s path))
      else None)"

text \<open>The end of \<open>rmobj\<close> for an emptied directory.  A directory cannot be removed with \<open>unlink\<close>.\<close>

definition remove_dir :: "rm_sys \<Rightarrow> string \<Rightarrow> string option" where
  "remove_dir s obj =
     (if s_lstat s obj \<noteq> 0 then Some (rm_error ''lstat'' obj (s_lstat s obj))
      else if 3 \<le> s_nlink s obj then Some (rm_error ''unlink'' obj EISDIR)
      else if s_remove s obj \<noteq> 0 then Some (rm_error ''remove'' obj (s_remove s obj))
      else None)"

definition child :: "string \<Rightarrow> string \<Rightarrow> string" where
  "child path name = path @ ''/'' @ name"

text \<open>The last error and what is left of the object.  The path of an entry is written into an array of
  \<open>PATH_MAX\<close> bytes.\<close>

fun rmobj :: "rm_sys \<Rightarrow> string \<Rightarrow> node \<Rightarrow> (string option \<times> node option) outcome"
and purge_loop :: "rm_sys \<Rightarrow> string \<Rightarrow> (string \<times> node) list \<Rightarrow> (string option \<times> (string \<times> node) list) outcome" where
  "rmobj s obj Leaf =
     (if s_remove s obj \<noteq> 0 then Ret (Some (rm_error ''unlink'' obj (s_remove s obj)), Some Leaf) else Ret (None, None))"
| "rmobj s obj (Dir es) =
     (if \<not> s_open s obj then Ret (Some (rm_error ''unlink'' obj EISDIR), Some (Dir es))
      else case purge_refused s obj of
        Some e \<Rightarrow> Ret (Some e, Some (Dir es))
      | None \<Rightarrow> bind_outcome (purge_loop s obj es) (\<lambda>(err, es).
          case err of
            Some e \<Rightarrow> Ret (Some e, Some (Dir es))
          | None \<Rightarrow> (case remove_dir s obj of None \<Rightarrow> Ret (None, None) | Some e \<Rightarrow> Ret (Some e, Some (Dir es)))))"
| "purge_loop s path [] = Ret (None, [])"
| "purge_loop s path ((name, n) # es) =
     (if PATH_MAX \<le> length (child path name) then Undefined ''dirobj''
      else bind_outcome (rmobj s (child path name) n) (\<lambda>(err, left).
           bind_outcome (purge_loop s path es) (\<lambda>(err', es').
           Ret (case err' of None \<Rightarrow> err | Some e \<Rightarrow> Some e, case left of None \<Rightarrow> es' | Some n' \<Rightarrow> (name, n') # es'))))"

definition purge_dir :: "rm_sys \<Rightarrow> string \<Rightarrow> (string \<times> node) list \<Rightarrow> (string option \<times> (string \<times> node) list) outcome" where
  "purge_dir s path es =
     (case purge_refused s path of Some e \<Rightarrow> Ret (Some e, es) | None \<Rightarrow> purge_loop s path es)"

lemma rmobj_Dir:
  "rmobj s obj (Dir es) =
     (if \<not> s_open s obj then Ret (Some (rm_error ''unlink'' obj EISDIR), Some (Dir es))
      else bind_outcome (purge_dir s obj es) (\<lambda>(err, es).
        case err of
          Some e \<Rightarrow> Ret (Some e, Some (Dir es))
        | None \<Rightarrow> (case remove_dir s obj of None \<Rightarrow> Ret (None, None) | Some e \<Rightarrow> Ret (Some e, Some (Dir es)))))"
  by (simp add: purge_dir_def split: option.splits)

subsection \<open>The temporary directory of a test\<close>

text \<open>\<open>TESTDIR\<close>, the directory at the start, and what is in the temporary directory.\<close>

record tmp_state =
  TESTDIR :: "string option"
  test_start_work_dir :: string
  tmp_tree :: "node option"

record tmp_env =
  te_res :: res_env
  te_tmpdir :: "string option"
  te_default :: string
  te_mkdtemp :: "string \<Rightarrow> string option"
  te_strdup :: bool
  te_gid :: int
  te_chown :: bool
  te_chmod :: bool
  te_getcwd :: "string option"
  te_chdir :: bool
  te_sys :: rm_sys

abbreviation tmp_file :: "string option" where "tmp_file \<equiv> Some ''tst_tmpdir.c''"

text \<open>\<open>tst_brkm\<close> without a cleanup function, next to the state of the directory.\<close>

definition tmp_brkm :: "tmp_env \<Rightarrow> string \<Rightarrow> int \<Rightarrow> int \<Rightarrow> string \<Rightarrow> tmp_state \<Rightarrow> res_state \<Rightarrow> (flow \<times> tmp_state) outcome" where
  "tmp_brkm e file lineno ttype mesg t st =
     bind_outcome (tst_brkm (te_res e) (Some file) lineno ttype None mesg st) (\<lambda>fl. Ret (fl, t))"

definition tmp_template :: "tmp_env \<Rightarrow> string \<Rightarrow> string" where
  "tmp_template e dir = snprintf PATH_MAX (dir @ ''/'' @ take 3 (e_tcid (te_res e)) @ ''XXXXXX'')"

text \<open>The removal of the directory, with a warning if it fails.\<close>

definition rm_testdir :: "tmp_env \<Rightarrow> int \<Rightarrow> string \<Rightarrow> string \<Rightarrow> tmp_state \<Rightarrow> res_state \<Rightarrow> (tmp_state \<times> res_state) outcome" where
  "rm_testdir e lineno caller dir t st =
     (case tmp_tree t of
        None \<Rightarrow> bind_outcome (tst_resm (te_res e) tmp_file lineno TWARN
            (caller @ '': rmobj('' @ dir @ '') failed: '' @ rm_error ''unlink'' dir ENOENT) st) (\<lambda>st. Ret (t, st))
      | Some n \<Rightarrow> bind_outcome (rmobj (te_sys e) dir n) (\<lambda>(err, left).
          let t = t\<lparr>tmp_tree := left\<rparr>
          in case err of
               None \<Rightarrow> Ret (t, st)
             | Some m \<Rightarrow> bind_outcome (tst_resm (te_res e) tmp_file lineno TWARN
                 (caller @ '': rmobj('' @ dir @ '') failed: '' @ m) st) (\<lambda>st. Ret (t, st))))"

text \<open>After the directory exists: its owner and mode, and the change into it.\<close>

definition enter_tmpdir :: "tmp_env \<Rightarrow> string \<Rightarrow> tmp_state \<Rightarrow> res_state \<Rightarrow> (flow \<times> tmp_state) outcome" where
  "enter_tmpdir e dir t st =
     (if \<not> te_chown e then tmp_brkm e ''safe_macros.c'' 592 (TBROK OR TERRNO)
        (''tst_tmpdir.c:281: chown('' @ dir @ '',-1,'' @ show_int (te_gid e) @ '') failed'') t st
      else if \<not> te_chmod e then tmp_brkm e ''safe_macros.c'' 560 (TBROK OR TERRNO) (''tst_tmpdir.c:283: chmod('' @ dir @ '',0777) failed'') t st
      else bind_outcome (case te_getcwd e of
          Some wd \<Rightarrow> Ret (t\<lparr>test_start_work_dir := wd\<rparr>, st)
        | None \<Rightarrow> bind_outcome (tst_resm (te_res e) tmp_file 286 TINFO ''Failed to record test working dir'' st)
            (\<lambda>st. Ret (t\<lparr>test_start_work_dir := []\<rparr>, st))) (\<lambda>(t, st).
      if te_chdir e then Ret (Goes st, t)
      else bind_outcome (tst_resm (te_res e) tmp_file 297 TERRNO (''tst_tmpdir: chdir('' @ dir @ '') failed'') st) (\<lambda>st.
           bind_outcome (rm_testdir e 301 ''tst_tmpdir'' dir t st) (\<lambda>(t, st).
           bind_outcome (tst_exit (te_res e) st) (\<lambda>fl. Ret (fl, t))))))"

definition tst_tmpdir :: "tmp_env \<Rightarrow> tmp_state \<Rightarrow> res_state \<Rightarrow> (flow \<times> tmp_state) outcome" where
  "tst_tmpdir e t st =
     (if (case te_tmpdir e of None \<Rightarrow> False | Some dir \<Rightarrow> take 1 dir \<noteq> ''/'')
      then tmp_brkm e ''tst_tmpdir.c'' 259 TBROK ''You must specify an absolute pathname for environment variable TMPDIR'' t st
      else let template = tmp_template e (case te_tmpdir e of Some dir \<Rightarrow> dir | None \<Rightarrow> te_default e)
           in case te_mkdtemp e template of
                None \<Rightarrow> tmp_brkm e ''tst_tmpdir.c'' 270 (TBROK OR TERRNO) (''tst_tmpdir: mkdtemp('' @ template @ '') failed'') t st
              | Some dir \<Rightarrow>
                  let t = t\<lparr>tmp_tree := Some (Dir [])\<rparr>
                  in if \<not> te_strdup e
                     then tmp_brkm e ''tst_tmpdir.c'' 276 (TBROK OR TERRNO) (''tst_tmpdir: strdup('' @ dir @ '') failed'') (t\<lparr>TESTDIR := None\<rparr>) st
                     else enter_tmpdir e dir (t\<lparr>TESTDIR := Some dir\<rparr>) st)"

text \<open>The page of the checkpoints that \<open>tst_rmdir\<close> unmaps is not modelled.\<close>

definition tst_rmdir :: "tmp_env \<Rightarrow> tmp_state \<Rightarrow> res_state \<Rightarrow> (tmp_state \<times> res_state) outcome" where
  "tst_rmdir e t st =
     (case TESTDIR t of
        None \<Rightarrow> bind_outcome (tst_resm (te_res e) tmp_file 317 TWARN
          ''tst_rmdir: TESTDIR was NULL; no removal attempted'' st) (\<lambda>st. Ret (t, st))
      | Some dir \<Rightarrow> rm_testdir e 336 ''tst_rmdir'' dir t st)"

definition tst_purge_dir :: "tmp_env \<Rightarrow> string \<Rightarrow> (string \<times> node) list \<Rightarrow> tmp_state \<Rightarrow> res_state \<Rightarrow> (flow \<times> (string \<times> node) list) outcome" where
  "tst_purge_dir e path es t st =
     bind_outcome (purge_dir (te_sys e) path es) (\<lambda>(err, es').
       case err of
         None \<Rightarrow> Ret (Goes st, es')
       | Some m \<Rightarrow> bind_outcome (tst_brkm (te_res e) tmp_file 346 TBROK None (''tst_purge_dir: '' @ m) st) (\<lambda>fl. Ret (fl, es')))"

subsection \<open>What is left of a tree\<close>

text \<open>Paths inside a tree are lists of names.\<close>

fun in_tree :: "node \<Rightarrow> string list \<Rightarrow> bool" where
  "in_tree n [] = True"
| "in_tree Leaf (m # p) = False"
| "in_tree (Dir es) (m # p) = (\<exists>(name, n) \<in> set es. name = m \<and> in_tree n p)"

definition left_in :: "node option \<Rightarrow> string list \<Rightarrow> bool" where
  "left_in n p \<longleftrightarrow> (case n of None \<Rightarrow> False | Some n \<Rightarrow> in_tree n p)"

text \<open>An object at a path inside the tree that cannot be removed: the system refuses it, or a directory above it
  cannot be read.\<close>

definition unreadable :: "rm_sys \<Rightarrow> string \<Rightarrow> bool" where
  "unreadable s path \<longleftrightarrow> \<not> s_open s path \<or> purge_refused s path \<noteq> None"

fun unremovable :: "rm_sys \<Rightarrow> string \<Rightarrow> node \<Rightarrow> string list \<Rightarrow> bool" where
  "unremovable s path Leaf [] = (s_remove s path \<noteq> 0)"
| "unremovable s path (Dir es) [] = (unreadable s path \<or> remove_dir s path \<noteq> None)"
| "unremovable s path Leaf (m # p) = False"
| "unremovable s path (Dir es) (m # p) =
     (\<exists>(name, n) \<in> set es. name = m \<and> in_tree n p \<and> (unreadable s path \<or> unremovable s (child path name) n p))"

lemma bex_pair: "(\<exists>(a, b) \<in> S. P a b) \<longleftrightarrow> (\<exists>a b. (a, b) \<in> S \<and> P a b)"
  by auto

lemma unremovable_in_tree: "unremovable s path n p \<Longrightarrow> in_tree n p"
  by (induction s path n p rule: unremovable.induct) auto

text \<open>All paths fit into the buffer.\<close>

fun fine_tree :: "string \<Rightarrow> node \<Rightarrow> bool" where
  "fine_tree path Leaf = True"
| "fine_tree path (Dir es) = (\<forall>(name, n) \<in> set es. length (child path name) < PATH_MAX \<and> fine_tree (child path name) n)"

definition survives :: "rm_sys \<Rightarrow> string \<Rightarrow> node \<Rightarrow> string list \<Rightarrow> bool" where
  "survives s path n p \<longleftrightarrow> (\<exists>q. unremovable s path n (p @ q))"

lemma survives_Leaf: "survives s path Leaf p \<longleftrightarrow> p = [] \<and> s_remove s path \<noteq> 0"
proof -
  have "unremovable s path Leaf x \<longleftrightarrow> x = [] \<and> s_remove s path \<noteq> 0" for x by (cases x) auto
  then show ?thesis by (auto simp: survives_def)
qed

lemma survives_Dir_Cons:
  "survives s path (Dir es) (m # p) \<longleftrightarrow> (\<exists>(name, n) \<in> set es. name = m \<and>
     (if unreadable s path then in_tree n p else survives s (child path name) n p))"
proof -
  have pre: "in_tree n (p @ q) \<Longrightarrow> in_tree n p" for n q by (induction n p rule: in_tree.induct) fastforce+
  have "(\<exists>q. in_tree n (p @ q) \<and> (unreadable s path \<or> unremovable s (child path name) n (p @ q))) =
      (if unreadable s path then in_tree n p else survives s (child path name) n p)" for name n
  proof (cases "unreadable s path")
    case True
    have "in_tree n p" if "in_tree n (p @ q)" for q using pre [OF that] .
    then show ?thesis using True by (auto intro: exI [of _ "[]"])
  next
    case False
    then show ?thesis unfolding survives_def using unremovable_in_tree by (simp only: if_False) blast
  qed
  then have "(\<exists>q. \<exists>(name, n) \<in> set es. name = m \<and> in_tree n (p @ q) \<and> (unreadable s path \<or> unremovable s (child path name) n (p @ q)))
      = (\<exists>(name, n) \<in> set es. name = m \<and> (if unreadable s path then in_tree n p else survives s (child path name) n p))"
    by fast
  then show ?thesis by (simp only: survives_def append_Cons unremovable.simps)
qed

lemma survives_Dir_Nil:
  "survives s path (Dir es) [] \<longleftrightarrow> unreadable s path \<or> remove_dir s path \<noteq> None
     \<or> (\<exists>(name, n) \<in> set es. survives s (child path name) n [])"
proof -
  have "(\<exists>q. unremovable s path (Dir es) q) \<longleftrightarrow> unremovable s path (Dir es) [] \<or> (\<exists>m q. unremovable s path (Dir es) (m # q))"
    by (metis neq_Nil_conv)
  moreover have "(\<exists>m q. unremovable s path (Dir es) (m # q)) \<longleftrightarrow> (\<exists>(name, n) \<in> set es. survives s (child path name) n [])"
    if "\<not> unreadable s path"
    unfolding survives_def unremovable.simps bex_pair append_Nil using that unremovable_in_tree by blast
  ultimately show ?thesis
    by (cases "unreadable s path") (simp_all only: survives_def append_Nil unremovable.simps simp_thms)
qed

definition rm_result :: "rm_sys \<Rightarrow> string \<Rightarrow> node \<Rightarrow> string option \<Rightarrow> node option \<Rightarrow> bool" where
  "rm_result s obj n err left \<longleftrightarrow> (err = None \<longleftrightarrow> left = None) \<and> (\<forall>p. left_in left p \<longleftrightarrow> survives s obj n p)"

definition loop_result :: "rm_sys \<Rightarrow> string \<Rightarrow> (string \<times> node) list \<Rightarrow> string option \<Rightarrow> (string \<times> node) list \<Rightarrow> bool" where
  "loop_result s path es err es' \<longleftrightarrow> (err = None \<longleftrightarrow> es' = []) \<and>
     (\<forall>m p. in_tree (Dir es') (m # p) \<longleftrightarrow> (\<exists>(name, n) \<in> set es. name = m \<and> survives s (child path name) n p))"

lemma loop_result_Cons:
  assumes "rm_result s (child path name) n err left" "loop_result s path es err' es'"
  shows "loop_result s path ((name, n) # es) (case err' of None \<Rightarrow> err | Some e \<Rightarrow> Some e)
    (case left of None \<Rightarrow> es' | Some n' \<Rightarrow> (name, n') # es')"
  using assms by (cases left) (auto simp: rm_result_def loop_result_def left_in_def split: option.splits)

lemma rm_result_Dir:
  assumes "loop_result s obj es err es'" "\<not> unreadable s obj"
  shows "\<exists>err' left. (case err of
      Some e \<Rightarrow> Ret (Some e, Some (Dir es'))
    | None \<Rightarrow> (case remove_dir s obj of None \<Rightarrow> Ret (None, None) | Some e \<Rightarrow> Ret (Some e, Some (Dir es')))) = Ret (err', left)
    \<and> rm_result s obj (Dir es) err' left"
proof -
  have c: "in_tree (Dir es') (m # p) = survives s obj (Dir es) (m # p)" for m p
    using assms by (simp add: loop_result_def survives_Dir_Cons)
  have e: "es' = [] \<longleftrightarrow> (\<forall>(name, n) \<in> set es. \<not> survives s (child obj name) n [])"
  proof -
    have "es' = [] \<longleftrightarrow> (\<forall>m. \<not> in_tree (Dir es') [m])" by (cases es') auto
    moreover have "in_tree (Dir es') [m] \<longleftrightarrow> (\<exists>(name, n) \<in> set es. name = m \<and> survives s (child obj name) n [])" for m
      using assms(1) by (simp only: loop_result_def)
    ultimately show ?thesis by blast
  qed
  have "left_in (Some (Dir es')) p = survives s obj (Dir es) p"
    if "es' \<noteq> [] \<or> remove_dir s obj \<noteq> None" for p
    using that e c by (cases p) (auto simp: left_in_def survives_Dir_Nil simp del: in_tree.simps(3))
  moreover have "\<not> survives s obj (Dir es) p" if "es' = []" "remove_dir s obj = None" for p
    using that e c assms(2) by (cases p) (auto simp: survives_Dir_Nil simp flip: c)
  moreover have "err = None \<longleftrightarrow> es' = []" using assms(1) by (simp add: loop_result_def)
  ultimately show ?thesis by (auto simp: rm_result_def left_in_def split: option.splits)
qed

lemma unreadable_result:
  assumes "unreadable s obj"
  shows "rm_result s obj (Dir es) (Some e) (Some (Dir es))"
proof -
  have "in_tree (Dir es) p = survives s obj (Dir es) p" for p
    using assms by (cases p) (simp_all add: survives_Dir_Cons survives_Dir_Nil)
  then show ?thesis by (simp add: rm_result_def left_in_def)
qed

lemma rmobj_result:
  "fine_tree obj n \<Longrightarrow> \<exists>err left. rmobj s obj n = Ret (err, left) \<and> rm_result s obj n err left"
  and purge_loop_result:
  "fine_tree path (Dir es) \<Longrightarrow> \<exists>err es'. purge_loop s path es = Ret (err, es') \<and> loop_result s path es err es'"
proof (induction s obj n and s path es rule: rmobj_purge_loop.induct)
  case (1 s obj)
  then show ?case by (auto simp: rm_result_def left_in_def survives_Leaf) (metis in_tree.simps(2) neq_Nil_conv)
next
  case (2 s obj es)
  show ?case
  proof (cases "unreadable s obj")
    case True
    then show ?thesis using unreadable_result [OF True] by (auto simp: unreadable_def)
  next
    case False
    then have r: "s_open s obj" "purge_refused s obj = None" by (auto simp: unreadable_def)
    obtain err es' where "purge_loop s obj es = Ret (err, es')" "loop_result s obj es err es'"
      using 2 r by blast
    then show ?thesis using rm_result_Dir [OF _ False] r by simp
  qed
next
  case (3 s path)
  then show ?case by (simp add: loop_result_def)
next
  case (4 s path name n es)
  then obtain err left err' es' where "rmobj s (child path name) n = Ret (err, left)" "rm_result s (child path name) n err left"
    "purge_loop s path es = Ret (err', es')" "loop_result s path es err' es'" by fastforce
  then show ?case using loop_result_Cons 4(3) by fastforce
qed

text \<open>C23: \<open>rmobj\<close> removes a tree up to the objects that the system refuses to remove or to read and the directories above
  them, goes on after an error, and returns an error exactly when something is left.\<close>

theorem rmobj_removes:
  assumes "fine_tree obj n"
  shows "\<exists>err left. rmobj s obj n = Ret (err, left) \<and> (err = None \<longleftrightarrow> left = None)
    \<and> (\<forall>p. left_in left p \<longleftrightarrow> (\<exists>q. unremovable s obj n (p @ q)))"
  using rmobj_result [OF assms, of s] by (simp add: rm_result_def survives_def)

definition ex_sys :: rm_sys where
  "ex_sys = \<lparr>s_open = \<lambda>_. True, s_opendir = \<lambda>_. 0, s_lstat = \<lambda>_. 0, s_nlink = \<lambda>_. 2,
     s_remove = \<lambda>p. if p = ''/tmp/a/f'' then EPERM else 0\<rparr>"

theorem rmobj_removes_witness:
  "\<exists>err left. rmobj ex_sys ''/tmp'' (Dir [(''a'', Dir [(''f'', Leaf), (''g'', Leaf)]), (''b'', Leaf)]) = Ret (err, left)
     \<and> left_in left [''a'', ''f''] \<and> \<not> left_in left [''b'']"
proof -
  let ?n = "Dir [(''a'', Dir [(''f'', Leaf), (''g'', Leaf)]), (''b'', Leaf)]"
  have "fine_tree ''/tmp'' ?n" by (simp add: child_def PATH_MAX_def)
  moreover have "unremovable ex_sys ''/tmp'' ?n ([''a'', ''f''] @ [])" by (simp add: child_def ex_sys_def EPERM_def)
  moreover have "\<not> unremovable ex_sys ''/tmp'' ?n ([''b''] @ q)" for q
    by (cases q) (auto simp: child_def ex_sys_def unreadable_def purge_refused_def)
  ultimately show ?thesis using rmobj_removes [of "''/tmp''" ?n ex_sys] by blast
qed

text \<open>The path of an entry is not tested for its length: below a directory with a long path the buffer
  overflows.\<close>

lemma rmobj_path_overflow:
  "\<not> unreadable s obj \<Longrightarrow> PATH_MAX \<le> length (child obj name) \<Longrightarrow> rmobj s obj (Dir ((name, n) # es)) = Undefined ''dirobj''"
  by (simp add: unreadable_def)

subsection \<open>A directory that cannot be entered\<close>

text \<open>A directory that can be made, but not entered.\<close>

definition cannot_enter :: "tmp_env \<Rightarrow> string \<Rightarrow> string \<Rightarrow> bool" where
  "cannot_enter e dir wd \<longleftrightarrow> (case te_tmpdir e of None \<Rightarrow> True | Some d \<Rightarrow> take 1 d = ''/'') \<and>
     te_mkdtemp e (tmp_template e (case te_tmpdir e of Some d \<Rightarrow> d | None \<Rightarrow> te_default e)) = Some dir \<and>
     te_strdup e \<and> te_chown e \<and> te_chmod e \<and> te_getcwd e = Some wd \<and> \<not> te_chdir e \<and>
     \<not> unremovable (te_sys e) dir (Dir []) []"

lemma rmobj_empty: "\<not> unremovable s dir (Dir []) [] \<Longrightarrow> rmobj s dir (Dir []) = Ret (None, None)"
  by (auto simp: unreadable_def)



end
