(* ===== verification/Tst_Buffers.thy ===== *)
theory Tst_Buffers
  imports Tst_Flags
begin

section \<open>tst_buffers: guarded buffers\<close>

text \<open>
  \<open>lib/tst_buffers.c\<close>.  A buffer ends at a page without access rights, and the bytes in front of it, up to the start of
  its first page, are filled with a pattern (the canary) that is checked when the buffers are freed.  Addresses are
  natural numbers, memory is a map from addresses to bytes; the size of a page, the addresses that \<open>mmap\<close>
  returns and the numbers of \<open>random\<close> are arguments.
\<close>

type_synonym memory = "nat \<Rightarrow> 8 word"

record buf_map =
  m_addr :: nat
  m_size :: nat
  buf_shift :: nat

text \<open>The list \<open>maps\<close>, the newest first, the memory, and the ranges without access rights.\<close>

record bufs =
  maps :: "buf_map list"
  mem :: memory
  guards :: "(nat \<times> nat) list"

subsection \<open>The canary\<close>

definition setup_canary :: "(nat \<Rightarrow> 8 word) \<Rightarrow> buf_map \<Rightarrow> memory \<Rightarrow> memory" where
  "setup_canary rnd m b =
     fold (\<lambda>i b. b(m_addr m + (buf_shift m - i - 1) := rnd i, m_addr m + i := rnd i)) [0..<buf_shift m div 2] b"

text \<open>The offsets, counted from the buffer, that a warning is printed for.\<close>

definition check_canary :: "buf_map \<Rightarrow> memory \<Rightarrow> int list" where
  "check_canary m b =
     map (\<lambda>i. - int i - 1)
       (filter (\<lambda>i. b (m_addr m + (buf_shift m - i - 1)) \<noteq> b (m_addr m + i)) [0..<buf_shift m div 2])"

subsection \<open>Allocation\<close>

text \<open>The number of pages is an \<open>unsigned int\<close>.\<close>

definition alloc_pages :: "nat \<Rightarrow> nat \<Rightarrow> nat" where
  "alloc_pages page_size sz = (sz div page_size + (if sz mod page_size \<noteq> 0 then 1 else 0) + 1) mod 2 ^ 32"

definition alloc_map :: "nat \<Rightarrow> nat \<Rightarrow> nat \<Rightarrow> buf_map" where
  "alloc_map page_size sz addr =
     \<lparr>m_addr = addr, m_size = alloc_pages page_size sz * page_size,
      buf_shift = (if sz mod page_size \<noteq> 0 then page_size - sz mod page_size else 0)\<rparr>"

text \<open>\<open>addr\<close> is the answer of \<open>mmap\<close>, whose pages are zero; when it fails, \<open>SAFE_MMAP\<close> breaks the test.\<close>

definition tst_alloc :: "nat \<Rightarrow> nat \<Rightarrow> nat option \<Rightarrow> (nat \<Rightarrow> 8 word) \<Rightarrow> bufs \<Rightarrow> (nat \<times> bufs) outcome" where
  "tst_alloc page_size sz addr rnd s =
     (case addr of
        None \<Rightarrow> Exits TBROK
      | Some addr \<Rightarrow>
          let m = alloc_map page_size sz addr;
              zeroed = (\<lambda>a. if addr \<le> a \<and> a < addr + m_size m then 0 else mem s a)
          in Ret (addr + buf_shift m,
               \<lparr>maps = m # maps s, mem = setup_canary rnd m zeroed,
                guards = (addr + (alloc_pages page_size sz - 1) * page_size, page_size) # guards s\<rparr>))"

text \<open>The sizes end with -1, which the code looks for without a bound.\<close>

fun count_iovec :: "int list \<Rightarrow> nat outcome" where
  "count_iovec [] = Undefined ''sizes''"
| "count_iovec (z # zs) = (if z = -1 then Ret 0 else bind_outcome (count_iovec zs) (\<lambda>n. Ret (Suc n)))"

text \<open>The elements of the array: base and length.  For a size of 0 the code sets the base twice and the length not at all,
  which is 0 as the array lies in fresh pages.  The arguments \<open>as\<close> are the answers for the allocations.\<close>

fun iovec_loop :: "nat \<Rightarrow> int list \<Rightarrow> (nat option \<times> (nat \<Rightarrow> 8 word)) list \<Rightarrow> bufs \<Rightarrow> ((nat \<times> nat) list \<times> bufs) outcome" where
  "iovec_loop page_size [] as s = Ret ([], s)"
| "iovec_loop page_size (z # zs) as s =
     (if z = 0 then bind_outcome (iovec_loop page_size zs as s) (\<lambda>(vs, s). Ret ((0, 0) # vs, s))
      else case as of
        [] \<Rightarrow> Exits TBROK
      | (addr, rnd) # as \<Rightarrow>
          bind_outcome (tst_alloc page_size (nat (z mod 2 ^ 64)) addr rnd s) (\<lambda>(p, s).
          bind_outcome (iovec_loop page_size zs as s) (\<lambda>(vs, s). Ret ((p, nat (z mod 2 ^ 64)) # vs, s))))"

definition tst_iovec_alloc ::
  "nat \<Rightarrow> int list \<Rightarrow> (nat option \<times> (nat \<Rightarrow> 8 word)) list \<Rightarrow> bufs \<Rightarrow> ((nat \<times> (nat \<times> nat) list) option \<times> bufs) outcome" where
  "tst_iovec_alloc page_size sizes as s =
     bind_outcome (count_iovec sizes) (\<lambda>cnt.
     if cnt = 0 then Ret (None, s)
     else case as of
       [] \<Rightarrow> Exits TBROK
     | (addr, rnd) # as \<Rightarrow>
         bind_outcome (tst_alloc page_size (16 * cnt) addr rnd s) (\<lambda>(p, s).
         bind_outcome (iovec_loop page_size (take cnt sizes) as s) (\<lambda>(vs, s). Ret (Some (p, vs), s))))"

datatype buf_pointer = Plain nat | Vector "(nat \<times> (nat \<times> nat) list) option"

text \<open>The buffers of a test, each with its size, the sizes of its vector, and the answers for its allocations.\<close>

fun tst_buffers_alloc ::
  "nat \<Rightarrow> (nat \<times> int list \<times> (nat option \<times> (nat \<Rightarrow> 8 word)) list) list \<Rightarrow> bufs \<Rightarrow> (buf_pointer list \<times> bufs) outcome" where
  "tst_buffers_alloc page_size [] s = Ret ([], s)"
| "tst_buffers_alloc page_size ((sz, iov_sizes, as) # bs) s =
     bind_outcome
       (if sz \<noteq> 0
        then (case as of
                [] \<Rightarrow> Exits TBROK
              | (addr, rnd) # _ \<Rightarrow> bind_outcome (tst_alloc page_size sz addr rnd s) (\<lambda>(p, s). Ret (Plain p, s)))
        else bind_outcome (tst_iovec_alloc page_size iov_sizes as s) (\<lambda>(v, s). Ret (Vector v, s))) (\<lambda>(p, s).
     bind_outcome (tst_buffers_alloc page_size bs s) (\<lambda>(ps, s). Ret (p # ps, s)))"

definition put_bytes :: "nat \<Rightarrow> 8 word list \<Rightarrow> memory \<Rightarrow> memory" where
  "put_bytes p bs b = (\<lambda>a. if p \<le> a \<and> a < p + length bs then bs ! (a - p) else b a)"

definition tst_strdup :: "nat \<Rightarrow> 8 word list \<Rightarrow> nat option \<Rightarrow> (nat \<Rightarrow> 8 word) \<Rightarrow> bufs \<Rightarrow> (nat \<times> bufs) outcome" where
  "tst_strdup page_size str addr rnd s =
     bind_outcome (tst_alloc page_size (length str + 1) addr rnd s) (\<lambda>(p, s).
       Ret (p, s\<lparr>mem := put_bytes p (str @ [0]) (mem s)\<rparr>))"

subsection \<open>Freeing\<close>

text \<open>A warning has the address of the buffer and the offset.  The cleanup of the test calls \<open>tst_free_all\<close>; there the
  \<open>tst_brkm\<close> of \<open>SAFE_MUNMAP\<close> aborts.\<close>

fun free_loop :: "buf_map list \<Rightarrow> (nat \<Rightarrow> bool) \<Rightarrow> memory \<Rightarrow> (nat \<times> int) list outcome" where
  "free_loop [] munmap_ok b = Ret []"
| "free_loop (m # ms) munmap_ok b =
     (if \<not> munmap_ok (m_addr m) then Aborts
      else bind_outcome (free_loop ms munmap_ok b) (\<lambda>ws.
        Ret (map (\<lambda>i. (m_addr m + buf_shift m, i)) (check_canary m b) @ ws)))"

definition tst_free_all :: "(nat \<Rightarrow> bool) \<Rightarrow> bufs \<Rightarrow> ((nat \<times> int) list \<times> bufs) outcome" where
  "tst_free_all munmap_ok s =
     bind_outcome (free_loop (maps s) munmap_ok (mem s)) (\<lambda>ws. Ret (ws, s\<lparr>maps := [], guards := []\<rparr>))"

subsection \<open>The layout of a buffer\<close>

definition guarded :: "bufs \<Rightarrow> nat \<Rightarrow> bool" where
  "guarded s a \<longleftrightarrow> (\<exists>(g, n) \<in> set (guards s). g \<le> a \<and> a < g + n)"

lemma pages_exact:
  assumes "0 < page_size" "sz < page_size * (2 ^ 32 - 2)"
  shows "alloc_pages page_size sz = sz div page_size + (if sz mod page_size \<noteq> 0 then 1 else 0) + 1"
proof -
  have "sz div page_size < 2 ^ 32 - 2" using assms by (simp add: div_less_iff_less_mult mult.commute)
  then have "sz div page_size + (if sz mod page_size \<noteq> 0 then 1 else 0) + 1 < 2 ^ 32" by simp
  then show ?thesis unfolding alloc_pages_def by (rule mod_less)
qed

text \<open>The shift and the size fill whole pages.\<close>

lemma shift_fills:
  assumes "0 < page_size" "sz < page_size * (2 ^ 32 - 2)"
  shows "buf_shift (alloc_map page_size sz addr) + sz = (alloc_pages page_size sz - 1) * page_size"
proof (cases "sz mod page_size = 0")
  case True
  then show ?thesis using pages_exact [OF assms] by (auto simp: alloc_map_def)
next
  case False
  have "sz = sz div page_size * page_size + sz mod page_size" by simp
  moreover have "sz mod page_size < page_size" using assms(1) by simp
  ultimately have "page_size - sz mod page_size + sz = sz div page_size * page_size + page_size" by linarith
  then show ?thesis using pages_exact [OF assms] False by (simp add: alloc_map_def algebra_simps)
qed

subsection \<open>The canary\<close>

lemma canary_fold:
  assumes "2 * k \<le> n"
  shows "fold (\<lambda>i b. b(x + (n - i - 1) := rnd i, x + i := rnd i)) [0..<k] b a =
    (if x \<le> a \<and> a < x + k then rnd (a - x)
     else if x + n - k \<le> a \<and> a < x + n then rnd (x + n - 1 - a) else b a)"
  using assms
proof (induction k)
  case (Suc k)
  have "[0..<Suc k] = [0..<k] @ [k]" by simp
  then show ?case using Suc by (auto simp: not_less_eq)
qed auto

lemma setup_canary_eq:
  "setup_canary rnd m b a =
     (if m_addr m \<le> a \<and> a < m_addr m + buf_shift m div 2 then rnd (a - m_addr m)
      else if m_addr m + buf_shift m - buf_shift m div 2 \<le> a \<and> a < m_addr m + buf_shift m
      then rnd (m_addr m + buf_shift m - 1 - a) else b a)"
  unfolding setup_canary_def by (rule canary_fold) simp

lemma check_canary_cong:
  assumes "\<And>a. m_addr m \<le> a \<Longrightarrow> a < m_addr m + buf_shift m \<Longrightarrow> b a = b' a"
  shows "check_canary m b = check_canary m b'"
proof -
  have "b (m_addr m + (buf_shift m - i - 1)) = b' (m_addr m + (buf_shift m - i - 1))" "b (m_addr m + i) = b' (m_addr m + i)"
    if "i \<in> set [0..<buf_shift m div 2]" for i
    using that by (auto intro!: assms)
  then show ?thesis unfolding check_canary_def by (auto intro!: arg_cong [where f = "map _"] filter_cong)
qed

lemma check_setup: "check_canary m (setup_canary rnd m b) = []"
  by (auto simp: check_canary_def setup_canary_eq filter_empty_conv)

lemma filter_one: "filter (\<lambda>i. i = j) [0..<n] = (if j < n then [j] else [])"
  by (induction n) (auto simp: less_Suc_eq)

text \<open>One changed byte in front of a buffer is reported, unless it is the middle one.\<close>

lemma check_changed:
  assumes "check_canary m b = []" "k < buf_shift m" "2 * k + 1 \<noteq> buf_shift m" "v \<noteq> b (m_addr m + k)"
  shows "check_canary m (b(m_addr m + k := v)) = [- int (min k (buf_shift m - 1 - k)) - 1]"
proof -
  let ?n = "buf_shift m" and ?x = "m_addr m"
  define j where "j = min k (?n - 1 - k)"
  have j: "j < ?n div 2" using assms(2,3) by (auto simp: j_def min_def)
  have eq: "b (?x + (?n - i - 1)) = b (?x + i)" if "i < ?n div 2" for i
    using assms(1) that by (auto simp: check_canary_def filter_empty_conv)
  have "((b(?x + k := v)) (?x + (?n - i - 1)) \<noteq> (b(?x + k := v)) (?x + i)) \<longleftrightarrow> i = j" if "i < ?n div 2" for i
    using eq [OF that] assms(2,4) that by (auto simp: j_def min_def split: if_splits)
  then have "filter (\<lambda>i. (b(?x + k := v)) (?x + (?n - i - 1)) \<noteq> (b(?x + k := v)) (?x + i)) [0..<?n div 2]
      = filter (\<lambda>i. i = j) [0..<?n div 2]" by (intro filter_cong) auto
  also have "\<dots> = [j]" using j by (simp add: filter_one)
  finally show ?thesis by (simp add: check_canary_def j_def)
qed

subsection \<open>A test that uses buffers\<close>

text \<open>What a test does: it allocates buffers and writes bytes.\<close>

datatype buf_op = Alloc nat nat "nat \<Rightarrow> 8 word" | Store nat "8 word"

fun run_op :: "nat \<Rightarrow> buf_op \<Rightarrow> bufs \<Rightarrow> bufs outcome" where
  "run_op page_size (Alloc sz addr rnd) s = bind_outcome (tst_alloc page_size sz (Some addr) rnd s) (\<lambda>(p, s). Ret s)"
| "run_op page_size (Store a v) s = Ret (s\<lparr>mem := (mem s)(a := v)\<rparr>)"

fun run_ops :: "nat \<Rightarrow> buf_op list \<Rightarrow> bufs \<Rightarrow> bufs outcome" where
  "run_ops page_size [] s = Ret s"
| "run_ops page_size (x # xs) s = bind_outcome (run_op page_size x s) (run_ops page_size xs)"

definition apart :: "buf_map \<Rightarrow> buf_map \<Rightarrow> bool" where
  "apart m m' \<longleftrightarrow> m_addr m + m_size m \<le> m_addr m' \<or> m_addr m' + m_size m' \<le> m_addr m"

definition in_buffer :: "nat \<Rightarrow> bufs \<Rightarrow> nat \<Rightarrow> bool" where
  "in_buffer page_size s a \<longleftrightarrow> (\<exists>m \<in> set (maps s). m_addr m + buf_shift m \<le> a \<and> a + page_size < m_addr m + m_size m)"

text \<open>\<open>mmap\<close> returns pages that are not in use; the test writes into its buffers only.\<close>

fun op_ok :: "nat \<Rightarrow> buf_op \<Rightarrow> bufs \<Rightarrow> bool" where
  "op_ok page_size (Alloc sz addr rnd) s \<longleftrightarrow> sz < page_size * (2 ^ 32 - 2)
     \<and> (\<forall>m \<in> set (maps s). apart m (alloc_map page_size sz addr))"
| "op_ok page_size (Store a v) s \<longleftrightarrow> in_buffer page_size s a"

fun ops_ok :: "nat \<Rightarrow> buf_op list \<Rightarrow> bufs \<Rightarrow> bool" where
  "ops_ok page_size [] s = True"
| "ops_ok page_size (x # xs) s =
     (op_ok page_size x s \<and> (case run_op page_size x s of Ret s \<Rightarrow> ops_ok page_size xs s | _ \<Rightarrow> False))"

definition bufs_inv :: "nat \<Rightarrow> bufs \<Rightarrow> bool" where
  "bufs_inv page_size s \<longleftrightarrow> distinct (maps s) \<and> (\<forall>m \<in> set (maps s). \<forall>m' \<in> set (maps s). m \<noteq> m' \<longrightarrow> apart m m')
     \<and> (\<forall>m \<in> set (maps s). buf_shift m + page_size \<le> m_size m \<and> check_canary m (mem s) = [])"

lemma alloc_map_simps [simp]: "m_addr (alloc_map page_size sz addr) = addr"
  by (simp add: alloc_map_def)

lemma alloc_map_fits:
  assumes "0 < page_size" "sz < page_size * (2 ^ 32 - 2)"
  shows "buf_shift (alloc_map page_size sz addr) + sz + page_size = m_size (alloc_map page_size sz addr)"
proof -
  have "1 \<le> alloc_pages page_size sz" using pages_exact [OF assms] by simp
  then have "alloc_pages page_size sz * page_size = (alloc_pages page_size sz - 1) * page_size + page_size"
    by (metis Suc_pred' add.commute less_eq_Suc_le mult_Suc One_nat_def)
  then show ?thesis using shift_fills [OF assms, of addr] by (simp add: alloc_map_def)
qed

lemma alloc_inv:
  assumes "bufs_inv page_size s" "0 < page_size" "op_ok page_size (Alloc sz addr rnd) s"
    and "run_op page_size (Alloc sz addr rnd) s = Ret s'"
  shows "bufs_inv page_size s'"
proof -
  define m where "m = alloc_map page_size sz addr"
  define z where "z = (\<lambda>a. if addr \<le> a \<and> a < addr + m_size m then 0 else mem s a)"
  have s': "maps s' = m # maps s" "mem s' = setup_canary rnd m z"
    using assms(4) by (auto simp: tst_alloc_def m_def z_def Let_def)
  have fits: "buf_shift m + page_size \<le> m_size m" and ap: "\<forall>x \<in> set (maps s). apart x m"
    using assms(3) alloc_map_fits [OF assms(2), of sz addr] by (simp_all add: m_def)
  have "m \<notin> set (maps s)" using ap fits assms(2) by (auto simp: apart_def)
  moreover have "check_canary x (mem s') = []" if x: "x \<in> set (maps s)" for x
  proof -
    have "buf_shift x \<le> m_size x" "check_canary x (mem s) = []" using assms(1) x by (auto simp: bufs_inv_def)
    moreover have "mem s' a = mem s a" if "m_addr x \<le> a" "a < m_addr x + buf_shift x" for a
    proof -
      have "\<not> (m_addr m \<le> a \<and> a < m_addr m + m_size m)"
        using ap x that \<open>buf_shift x \<le> m_size x\<close> by (auto simp: apart_def)
      moreover have "m_addr m = addr" by (simp add: m_def)
      ultimately show ?thesis using fits by (auto simp: s'(2) setup_canary_eq z_def)
    qed
    ultimately show ?thesis using check_canary_cong [of x "mem s'" "mem s"] by simp
  qed
  ultimately show ?thesis
    using assms(1) ap fits by (auto simp: bufs_inv_def s' check_setup apart_def)
qed

lemma store_inv:
  assumes "bufs_inv page_size s" "in_buffer page_size s a"
  shows "bufs_inv page_size (s\<lparr>mem := (mem s)(a := v)\<rparr>)"
proof -
  obtain m where m: "m \<in> set (maps s)" "m_addr m + buf_shift m \<le> a" "a + page_size < m_addr m + m_size m"
    using assms(2) by (auto simp: in_buffer_def)
  have "check_canary x ((mem s)(a := v)) = []" if x: "x \<in> set (maps s)" for x
  proof -
    have "buf_shift x \<le> m_size x" "check_canary x (mem s) = []" "x \<noteq> m \<longrightarrow> apart x m"
      using assms(1) x m(1) by (auto simp: bufs_inv_def)
    moreover from this have "\<not> (m_addr x \<le> a \<and> a < m_addr x + buf_shift x)"
      using m(2,3) by (cases "x = m") (auto simp: apart_def)
    then have "check_canary x ((mem s)(a := v)) = check_canary x (mem s)" by (intro check_canary_cong) auto
    ultimately show ?thesis by simp
  qed
  then show ?thesis using assms(1) by (auto simp: bufs_inv_def)
qed

lemma run_ops_inv:
  assumes "ops_ok page_size xs s" "bufs_inv page_size s" "0 < page_size"
  shows "\<exists>s'. run_ops page_size xs s = Ret s' \<and> bufs_inv page_size s'"
  using assms(1,2)
proof (induction xs arbitrary: s)
  case (Cons x xs)
  obtain s1 where s1: "run_op page_size x s = Ret s1" using Cons.prems(1) by (cases "run_op page_size x s") auto
  moreover have "bufs_inv page_size s1"
    using Cons.prems s1 alloc_inv [OF _ assms(3)] store_inv by (cases x) auto
  ultimately show ?case using Cons by simp
qed simp

lemma free_loop_eq:
  "(\<forall>m \<in> set ms. munmap_ok (m_addr m)) \<Longrightarrow>
     free_loop ms munmap_ok b = Ret (concat (map (\<lambda>m. map (\<lambda>i. (m_addr m + buf_shift m, i)) (check_canary m b)) ms))"
  by (induction ms) auto

lemma concat_one:
  assumes "distinct xs" "x \<in> set xs" "\<forall>y \<in> set xs. y \<noteq> x \<longrightarrow> f y = []"
  shows "concat (map f xs) = f x"
  using assms
proof (induction xs)
  case (Cons y xs)
  show ?case
  proof (cases "y = x")
    case True
    then have "concat (map f xs) = []" using Cons.prems by auto
    then show ?thesis by (simp add: True)
  qed (use Cons in auto)
qed simp

text \<open>A buffer ends where a page without access rights begins, and lies in pages that were mapped for it.\<close>

lemma alloc_layout:
  assumes "0 < page_size" "sz < page_size * (2 ^ 32 - 2)" "tst_alloc page_size sz (Some addr) rnd s = Ret (p, s')"
  shows "addr \<le> p \<and> p + sz + page_size = addr + m_size (alloc_map page_size sz addr) \<and> (p + sz, page_size) \<in> set (guards s')"
  using assms(3) shift_fills [OF assms(1,2), of addr] alloc_map_fits [OF assms(1,2), of addr]
  by (auto simp: tst_alloc_def Let_def algebra_simps)



end
