(* ===== verification/Tst_Caps.thy ===== *)
theory Tst_Caps
  imports Tst_Flags Kvercmp
begin

section \<open>tst_capability and tst_taint\<close>

text \<open>
  \<open>lib/tst_capability.c\<close>, which drops and raises capabilities of the test process, and \<open>lib/tst_taint.c\<close>, which watches the taint
  flags of the kernel.  The sets of the process are the two elements that \<open>capget\<close> fills in; a capability
  number beyond them is an access outside the array.  Whether the system calls succeed, the release of
  the kernel and the contents of the taint file are arguments.
\<close>

unbundle bit_operations_syntax

subsection \<open>Capabilities\<close>

record cap_data =
  effective :: "32 word"
  permitted :: "32 word"
  inheritable :: "32 word"

record tst_cap =
  action :: "32 word"
  cap_id :: nat

definition TST_CAP_DROP :: "32 word" where "TST_CAP_DROP = 1"
definition TST_CAP_REQ :: "32 word" where "TST_CAP_REQ = 2"

definition CAP_TO_INDEX :: "nat \<Rightarrow> nat" where
  "CAP_TO_INDEX x = x div 32"

definition CAP_TO_MASK :: "nat \<Rightarrow> 32 word" where
  "CAP_TO_MASK x = push_bit (x mod 32) 1"

definition do_cap_drop :: "32 word \<Rightarrow> 32 word \<Rightarrow> 32 word" where
  "do_cap_drop eff msk = (if eff AND msk \<noteq> 0 then eff AND NOT msk else eff)"

definition do_cap_req :: "32 word \<Rightarrow> 32 word \<Rightarrow> 32 word \<Rightarrow> 32 word outcome" where
  "do_cap_req perm eff msk =
     (if perm AND msk = 0 then Exits TCONF else Ret (if eff AND msk = 0 then eff OR msk else eff))"

text \<open>\<open>get_ok\<close> and \<open>set_ok\<close>: the system calls succeed.  Nothing is set when nothing changes.\<close>

definition tst_cap_action :: "bool \<Rightarrow> bool \<Rightarrow> tst_cap \<Rightarrow> cap_data list \<Rightarrow> cap_data list outcome" where
  "tst_cap_action get_ok set_ok cap cur =
     (let i = CAP_TO_INDEX (cap_id cap); msk = CAP_TO_MASK (cap_id cap)
      in if \<not> get_ok then Exits TBROK
         else if length cur \<le> i then Undefined ''new[CAP_TO_INDEX(id)]''
         else bind_outcome
           (if action cap = TST_CAP_DROP then Ret (cur[i := (cur ! i)\<lparr>effective := do_cap_drop (effective (cur ! i)) msk\<rparr>])
            else if action cap = TST_CAP_REQ
            then bind_outcome (do_cap_req (permitted (cur ! i)) (effective (cur ! i)) msk) (\<lambda>eff.
                   Ret (cur[i := (cur ! i)\<lparr>effective := eff\<rparr>]))
            else Exits TBROK) (\<lambda>new.
           if new = cur then Ret cur else if \<not> set_ok then Exits TBROK else Ret new))"

text \<open>The list ends at the first element without an action.\<close>

fun tst_cap_setup :: "bool \<Rightarrow> bool \<Rightarrow> tst_cap list \<Rightarrow> 32 word \<Rightarrow> cap_data list \<Rightarrow> cap_data list outcome" where
  "tst_cap_setup get_ok set_ok [] action_mask cur = Undefined ''caps''"
| "tst_cap_setup get_ok set_ok (cap # caps) action_mask cur =
     (if action cap = 0 then Ret cur
      else bind_outcome (if action cap AND action_mask \<noteq> 0 then tst_cap_action get_ok set_ok cap cur else Ret cur)
             (tst_cap_setup get_ok set_ok caps action_mask))"

subsection \<open>What the setup of capabilities does\<close>

definition has_eff :: "cap_data list \<Rightarrow> nat \<Rightarrow> bool" where
  "has_eff cur x \<longleftrightarrow> bit (effective (cur ! (x div 32))) (x mod 32)"

definition has_perm :: "cap_data list \<Rightarrow> nat \<Rightarrow> bool" where
  "has_perm cur x \<longleftrightarrow> bit (permitted (cur ! (x div 32))) (x mod 32)"

text \<open>Two states that differ in effective capabilities only.\<close>

definition same_rest :: "cap_data list \<Rightarrow> cap_data list \<Rightarrow> bool" where
  "same_rest cur new \<longleftrightarrow> map permitted new = map permitted cur \<and> map inheritable new = map inheritable cur"

lemma word32_eq: "v = w \<longleftrightarrow> (\<forall>n < 32. bit v n = bit w n)" for v w :: "32 word"
  by (auto intro: bit_word_eqI)

lemma and_mask: "w AND push_bit n 1 = 0 \<longleftrightarrow> \<not> bit w n" if "n < 32" for w :: "32 word"
  using that by (auto simp: word32_eq bit_simps)

lemma index_eq: "x div 32 = y div 32 \<and> x mod 32 = y mod 32 \<longleftrightarrow> x = (y :: nat)"
  by (metis div_mult_mod_eq)

lemma drop_action:
  assumes "action cap = TST_CAP_DROP" "cap_id cap < 64" "length cur = 2"
  obtains new where "tst_cap_action True True cap cur = Ret new" "length new = 2" "same_rest cur new"
    "\<And>x. x < 64 \<Longrightarrow> has_eff new x \<longleftrightarrow> has_eff cur x \<and> x \<noteq> cap_id cap"
proof
  let ?i = "cap_id cap div 32" and ?n = "cap_id cap mod 32"
  let ?new = "cur[?i := (cur ! ?i)\<lparr>effective := effective (cur ! ?i) AND NOT (push_bit ?n 1)\<rparr>]"
  have i: "?i < 2" using assms(2) by simp
  have "do_cap_drop w (push_bit ?n 1) = w AND NOT (push_bit ?n 1)" for w
    by (auto simp: do_cap_drop_def word32_eq bit_simps and_mask)
  then show "tst_cap_action True True cap cur = Ret ?new"
    using assms i by (simp add: tst_cap_action_def CAP_TO_INDEX_def CAP_TO_MASK_def Let_def)
  show "length ?new = 2" using assms(3) by simp
  show "same_rest cur ?new" using i assms(3) by (simp add: same_rest_def map_update list_update_same_conv)
  show "has_eff ?new x \<longleftrightarrow> has_eff cur x \<and> x \<noteq> cap_id cap" if "x < 64" for x
    using i assms(3) index_eq [of x "cap_id cap"] by (auto simp: has_eff_def nth_list_update bit_simps)
qed

lemma req_action:
  assumes "action cap = TST_CAP_REQ" "cap_id cap < 64" "length cur = 2" "has_perm cur (cap_id cap)"
  obtains new where "tst_cap_action True True cap cur = Ret new" "length new = 2" "same_rest cur new"
    "\<And>x. x < 64 \<Longrightarrow> has_eff new x \<longleftrightarrow> has_eff cur x \<or> x = cap_id cap"
proof
  let ?i = "cap_id cap div 32" and ?n = "cap_id cap mod 32"
  let ?new = "cur[?i := (cur ! ?i)\<lparr>effective := effective (cur ! ?i) OR push_bit ?n 1\<rparr>]"
  have i: "?i < 2" using assms(2) by simp
  have "do_cap_req (permitted (cur ! ?i)) w (push_bit ?n 1) = Ret (w OR push_bit ?n 1)" for w
    using assms(4) by (auto simp: do_cap_req_def and_mask has_perm_def word32_eq bit_simps)
  moreover have "TST_CAP_REQ \<noteq> TST_CAP_DROP" by (simp add: TST_CAP_REQ_def TST_CAP_DROP_def)
  ultimately show "tst_cap_action True True cap cur = Ret ?new"
    using assms i by (simp add: tst_cap_action_def CAP_TO_INDEX_def CAP_TO_MASK_def Let_def)
  show "length ?new = 2" using assms(3) by simp
  show "same_rest cur ?new" using i assms(3) by (simp add: same_rest_def map_update list_update_same_conv)
  show "has_eff ?new x \<longleftrightarrow> has_eff cur x \<or> x = cap_id cap" if "x < 64" for x
    using i assms(3) index_eq [of x "cap_id cap"] by (auto simp: has_eff_def nth_list_update bit_simps)
qed

lemma same_rest_trans: "same_rest a b \<Longrightarrow> same_rest b c \<Longrightarrow> same_rest a c"
  by (simp add: same_rest_def)

lemma same_rest_perm: "same_rest cur new \<Longrightarrow> length cur = 2 \<Longrightarrow> x < 64 \<Longrightarrow> has_perm new x = has_perm cur x"
proof -
  assume a: "same_rest cur new" "length cur = 2" "x < 64"
  then have "length (map permitted new) = 2" by (simp only: same_rest_def length_map)
  then have "length new = 2" by simp
  moreover have "x div 32 < 2" using a(3) by simp
  moreover have "map permitted new ! (x div 32) = map permitted cur ! (x div 32)" using a(1) by (simp add: same_rest_def)
  ultimately have "permitted (new ! (x div 32)) = permitted (cur ! (x div 32))" using a(2) by simp
  then show ?thesis by (simp add: has_perm_def)
qed

text \<open>The numbers with an action.\<close>

definition ids_of :: "32 word \<Rightarrow> tst_cap list \<Rightarrow> nat set" where
  "ids_of act caps = cap_id ` {c \<in> set caps. action c = act}"

definition caps_ok :: "tst_cap list \<Rightarrow> bool" where
  "caps_ok caps \<longleftrightarrow> (\<forall>c \<in> set caps. cap_id c < 64 \<and> action c \<in> {TST_CAP_DROP, TST_CAP_REQ})"

definition end_cap :: tst_cap where
  "end_cap = \<lparr>action = 0, cap_id = 0\<rparr>"

lemmas cap_acts = TST_CAP_DROP_def TST_CAP_REQ_def

lemma setup_drop:
  assumes "caps_ok caps" "length cur = 2"
  shows "\<exists>new. tst_cap_setup True True (caps @ [end_cap]) TST_CAP_DROP cur = Ret new \<and> length new = 2 \<and> same_rest cur new
    \<and> (\<forall>x < 64. has_eff new x \<longleftrightarrow> has_eff cur x \<and> x \<notin> ids_of TST_CAP_DROP caps)"
  using assms
proof (induction caps arbitrary: cur)
  case Nil
  then show ?case by (simp add: end_cap_def same_rest_def ids_of_def)
next
  case (Cons c caps)
  have c: "cap_id c < 64" "action c \<in> {TST_CAP_DROP, TST_CAP_REQ}" "caps_ok caps" using Cons.prems(1) by (auto simp: caps_ok_def)
  show ?case
  proof (cases "action c = TST_CAP_DROP")
    case True
    obtain new where n: "tst_cap_action True True c cur = Ret new" "length new = 2" "same_rest cur new"
      "\<And>x. x < 64 \<Longrightarrow> has_eff new x \<longleftrightarrow> has_eff cur x \<and> x \<noteq> cap_id c"
      using drop_action [OF True c(1) Cons.prems(2)] by blast
    have "tst_cap_setup True True ((c # caps) @ [end_cap]) TST_CAP_DROP cur = tst_cap_setup True True (caps @ [end_cap]) TST_CAP_DROP new"
      using True n(1) by (simp add: cap_acts)
    then show ?thesis using Cons.IH [OF c(3) n(2)] n(3,4) True by (auto simp: ids_of_def intro: same_rest_trans)
  next
    case False
    then have "action c = TST_CAP_REQ" using c(2) by simp
    then have "tst_cap_setup True True ((c # caps) @ [end_cap]) TST_CAP_DROP cur = tst_cap_setup True True (caps @ [end_cap]) TST_CAP_DROP cur"
      by (simp add: cap_acts)
    then show ?thesis using Cons.IH [OF c(3) Cons.prems(2)] False by (auto simp: ids_of_def)
  qed
qed

lemma setup_req:
  assumes "caps_ok caps" "length cur = 2"
  shows "if \<forall>x \<in> ids_of TST_CAP_REQ caps. has_perm cur x
    then \<exists>new. tst_cap_setup True True (caps @ [end_cap]) TST_CAP_REQ cur = Ret new \<and> length new = 2 \<and> same_rest cur new
      \<and> (\<forall>x < 64. has_eff new x \<longleftrightarrow> has_eff cur x \<or> x \<in> ids_of TST_CAP_REQ caps)
    else tst_cap_setup True True (caps @ [end_cap]) TST_CAP_REQ cur = Exits TCONF"
  using assms
proof (induction caps arbitrary: cur)
  case Nil
  then show ?case by (simp add: end_cap_def same_rest_def ids_of_def)
next
  case (Cons c caps)
  have c: "cap_id c < 64" "action c \<in> {TST_CAP_DROP, TST_CAP_REQ}" "caps_ok caps" using Cons.prems(1) by (auto simp: caps_ok_def)
  have small: "x < 64" if "x \<in> ids_of TST_CAP_REQ caps" for x using that c(3) by (auto simp: ids_of_def caps_ok_def)
  consider (skip) "action c = TST_CAP_DROP" | (no) "action c = TST_CAP_REQ" "\<not> has_perm cur (cap_id c)"
    | (yes) "action c = TST_CAP_REQ" "has_perm cur (cap_id c)" using c(2) by blast
  then show ?case
  proof cases
    case skip
    then have "ids_of TST_CAP_REQ (c # caps) = ids_of TST_CAP_REQ caps" by (auto simp: ids_of_def cap_acts)
    moreover have "tst_cap_setup True True ((c # caps) @ [end_cap]) TST_CAP_REQ cur = tst_cap_setup True True (caps @ [end_cap]) TST_CAP_REQ cur"
      using skip by (simp add: cap_acts)
    ultimately show ?thesis using Cons.IH [OF c(3) Cons.prems(2)] by simp
  next
    case no
    have "do_cap_req (permitted (cur ! (cap_id c div 32))) w (CAP_TO_MASK (cap_id c)) = Exits TCONF" for w
      using no(2) and_mask [of "cap_id c mod 32"] by (simp add: do_cap_req_def CAP_TO_MASK_def has_perm_def)
    moreover have "cap_id c div 32 < 2" using c(1) by simp
    ultimately have "tst_cap_action True True c cur = Exits TCONF"
      using no(1) Cons.prems(2) by (simp add: tst_cap_action_def CAP_TO_INDEX_def cap_acts Let_def)
    moreover have "cap_id c \<in> ids_of TST_CAP_REQ (c # caps)" using no by (simp add: ids_of_def)
    ultimately show ?thesis using no by (auto simp: cap_acts)
  next
    case yes
    obtain new where n: "tst_cap_action True True c cur = Ret new" "length new = 2" "same_rest cur new"
      "\<And>x. x < 64 \<Longrightarrow> has_eff new x \<longleftrightarrow> has_eff cur x \<or> x = cap_id c"
      using req_action [OF yes(1) c(1) Cons.prems(2) yes(2)] by blast
    have s: "tst_cap_setup True True ((c # caps) @ [end_cap]) TST_CAP_REQ cur = tst_cap_setup True True (caps @ [end_cap]) TST_CAP_REQ new"
      using yes n(1) by (simp add: cap_acts)
    have i: "ids_of TST_CAP_REQ (c # caps) = insert (cap_id c) (ids_of TST_CAP_REQ caps)" using yes by (auto simp: ids_of_def)
    have p: "(\<forall>x \<in> ids_of TST_CAP_REQ caps. has_perm new x) \<longleftrightarrow> (\<forall>x \<in> ids_of TST_CAP_REQ caps. has_perm cur x)"
      using same_rest_perm [OF n(3) Cons.prems(2)] small by blast
    have "same_rest cur new'" if "same_rest new new'" for new' using n(3) that by (rule same_rest_trans)
    then show ?thesis using Cons.IH [OF c(3) n(2)] yes n(4) unfolding s i p by fastforce
  qed
qed

text \<open>C27: before the setup of a test the requested capabilities become effective, or the test is skipped when one of them is
  not permitted; after it the dropped ones are no longer effective.  No other capability changes.\<close>

theorem cap_setup_effect:
  assumes "caps_ok caps" "length cur = 2"
  shows "(\<exists>new. tst_cap_setup True True (caps @ [end_cap]) TST_CAP_DROP cur = Ret new \<and> same_rest cur new
      \<and> (\<forall>x < 64. has_eff new x \<longleftrightarrow> has_eff cur x \<and> x \<notin> ids_of TST_CAP_DROP caps))
    \<and> (if \<forall>x \<in> ids_of TST_CAP_REQ caps. has_perm cur x
       then \<exists>new. tst_cap_setup True True (caps @ [end_cap]) TST_CAP_REQ cur = Ret new \<and> same_rest cur new
         \<and> (\<forall>x < 64. has_eff new x \<longleftrightarrow> has_eff cur x \<or> x \<in> ids_of TST_CAP_REQ caps)
       else tst_cap_setup True True (caps @ [end_cap]) TST_CAP_REQ cur = Exits TCONF)"
  using setup_drop [OF assms] setup_req [OF assms] by (auto split: if_splits)

theorem cap_setup_effect_witness:
  "\<exists>new. tst_cap_setup True True [\<lparr>action = TST_CAP_DROP, cap_id = 33\<rparr>, \<lparr>action = TST_CAP_REQ, cap_id = 2\<rparr>, end_cap] TST_CAP_DROP
     [\<lparr>effective = 4, permitted = 4, inheritable = 0\<rparr>, \<lparr>effective = 3, permitted = 3, inheritable = 0\<rparr>] = Ret new
     \<and> \<not> has_eff new 33 \<and> has_eff new 2 \<and> has_eff new 32"
proof -
  let ?caps = "[\<lparr>action = TST_CAP_DROP, cap_id = 33\<rparr>, \<lparr>action = TST_CAP_REQ, cap_id = 2\<rparr>]"
    and ?cur = "[\<lparr>effective = 4, permitted = 4, inheritable = 0\<rparr>, \<lparr>effective = 3, permitted = 3, inheritable = 0\<rparr>]"
  have "caps_ok ?caps" by (simp add: caps_ok_def)
  moreover have "ids_of TST_CAP_DROP ?caps = {33}" by (auto simp: ids_of_def cap_acts image_iff intro!: exI [of _ "\<lparr>action = 1, cap_id = 33\<rparr>"])
  moreover have "has_eff ?cur 2" "has_eff ?cur 32" by (simp_all add: has_eff_def bit_numeral_rec)
  moreover obtain new where "tst_cap_setup True True (?caps @ [end_cap]) TST_CAP_DROP ?cur = Ret new"
      "\<forall>x < 64. has_eff new x \<longleftrightarrow> has_eff ?cur x \<and> x \<notin> ids_of TST_CAP_DROP ?caps"
    using cap_setup_effect [of ?caps ?cur] \<open>caps_ok ?caps\<close> by auto
  ultimately show ?thesis by (intro exI [of _ new]) simp
qed

subsection \<open>Taint flags\<close>

text \<open>The numbers of the flags that the code tests, in its order, with the version of the kernel that has them.\<close>

definition taint_versions :: "(nat \<times> int \<times> int \<times> int) list" where
  "taint_versions =
     [(16, 4, 15, 0), (15, 4, 0, 0), (14, 3, 17, 0), (13, 3, 15, 0), (12, 3, 2, 0), (11, 2, 6, 35),
      (10, 2, 6, 28), (9, 2, 6, 26), (8, 2, 6, 25), (7, 2, 6, 23), (6, 2, 6, 21)]"

fun first_version :: "32 word \<Rightarrow> (nat \<times> int \<times> int \<times> int) list \<Rightarrow> int \<times> int \<times> int" where
  "first_version msk [] = (2, 6, 16)"
| "first_version msk ((n, v) # vs) = (if bit msk n then v else first_version msk vs)"

definition tst_taint_check_kver :: "string \<Rightarrow> 32 word \<Rightarrow> int outcome" where
  "tst_taint_check_kver release msk =
     (let (r1, r2, r3) = first_version msk taint_versions in tst_kvercmp release r1 r2 r3)"

text \<open>The value of \<open>taint_mask\<close> afterwards, and whether the message about an old kernel was printed, after which the code
  goes on.  \<open>taint\<close> is the number in the taint file.\<close>

definition tst_taint_init :: "string \<Rightarrow> 32 word \<Rightarrow> 32 word \<Rightarrow> (32 word \<times> bool) outcome" where
  "tst_taint_init release taint msk =
     (if msk = 0 then Exits TBROK
      else bind_outcome (tst_taint_check_kver release msk) (\<lambda>d.
        if taint AND msk \<noteq> 0 then Exits TBROK else Ret (msk, d < 0)))"

definition tst_taint_check :: "32 word \<Rightarrow> 32 word \<Rightarrow> 32 word outcome" where
  "tst_taint_check taint_mask taint = (if taint_mask = -1 then Exits TBROK else Ret (taint AND taint_mask))"

text \<open>The version asked for is the newest one that a flag of the mask needs.\<close>

definition version_le :: "int \<times> int \<times> int \<Rightarrow> int \<times> int \<times> int \<Rightarrow> bool" where
  "version_le v w = (case (v, w) of ((a, b, c), (x, y, z)) \<Rightarrow> a < x \<or> a = x \<and> (b < y \<or> b = y \<and> c \<le> z))"

lemma version_le_refl: "version_le v v"
  by (simp add: version_le_def split: prod.splits)

lemma first_version_newest:
  "sorted_wrt (\<lambda>x y. version_le (snd y) (snd x)) vs \<Longrightarrow> (n, v) \<in> set vs \<Longrightarrow> bit msk n \<Longrightarrow> version_le v (first_version msk vs)"
proof (induction vs)
  case (Cons x vs)
  then show ?case by (cases x) (fastforce simp: version_le_refl)
qed simp

lemma taint_newest: "(n, v) \<in> set taint_versions \<Longrightarrow> bit msk n \<Longrightarrow> version_le v (first_version msk taint_versions)"
  by (rule first_version_newest) (simp_all add: taint_versions_def version_le_def)

text \<open>A mask with all bits is taken for a missing call of \<open>tst_taint_init\<close>.\<close>

lemma taint_all_bits: "tst_taint_check (-1) taint = Exits TBROK"
  by (simp add: tst_taint_check_def)

end
