(* ===== verification/Random_Range.thy ===== *)
theory Random_Range
  imports Splitstr
begin

section \<open>Ranges and random numbers in them\<close>

text \<open>
  \<open>lib/random_range.c\<close>: the parser of range lists (\<open>min:max:mult,\<dots>\<close>), the choice of a random
  multiple in a range at the three widths, and the choice of a random bit of a mask.  The number
  that \<open>lrand48 ()\<close> returns is an argument; it is at least 0 and below \<open>2 ^ 31\<close>.
  \<open>long\<close> and \<open>long long\<close> have 64 bits, \<open>int\<close> has 32, and the macros of Cray and MIPS are not set.
\<close>

unbundle bit_operations_syntax

subsection \<open>parse_ranges\<close>

record range =
  r_min :: int
  r_max :: int
  r_mult :: int

text \<open>The conversion \<open>%i\<close> of \<open>sscanf\<close>: the base is read off the prefix.  Numbers out of range
  saturate at 64 bits and keep their low 32 bits.\<close>

definition digit_in :: "nat \<Rightarrow> char \<Rightarrow> nat option" where
  "digit_in b c =
     (let n = of_char c :: nat;
          d = (if 48 \<le> n \<and> n \<le> 57 then n - 48
               else if 97 \<le> n \<and> n \<le> 102 then n - 87
               else if 65 \<le> n \<and> n \<le> 70 then n - 55 else 16)
      in if d < b then Some d else None)"

definition digits_val :: "nat \<Rightarrow> string \<Rightarrow> nat" where
  "digits_val b ds = foldl (\<lambda>a c. b * a + the (digit_in b c)) 0 ds"

definition scan_base :: "string \<Rightarrow> nat \<times> string" where
  "scan_base u =
     (if prefix ''0x'' u \<or> prefix ''0X'' u then (16, drop 2 u)
      else if prefix ''0'' u then (8, u) else (10, u))"

definition scan_i :: "string \<Rightarrow> (int \<times> string) option" where
  "scan_i s =
     (let (neg, u) = read_sign (dropWhile is_space s); (b, v) = scan_base u;
          ds = takeWhile (\<lambda>c. digit_in b c \<noteq> None) v; r = dropWhile (\<lambda>c. digit_in b c \<noteq> None) v;
          n = int (digits_val b ds)
      in if ds = [] then None
         else Some (wrap32 (max LONG_MIN (min LONG_MAX (if neg then - n else n))), r))"

definition str_to_int :: "string \<Rightarrow> int option" where
  "str_to_int s = (case scan_i s of Some (v, []) \<Rightarrow> Some v | _ \<Rightarrow> None)"

text \<open>\<open>strchr (s, ':')\<close>, with the string cut there.\<close>

definition cut_colon :: "string \<Rightarrow> string \<times> string option" where
  "cut_colon s =
     (case strchr s (CHR '':'') of None \<Rightarrow> (s, None) | Some t \<Rightarrow> (take (length s - length t) s, Some (tl t)))"

definition parse_field :: "(string \<Rightarrow> int option) \<Rightarrow> string \<Rightarrow> int \<Rightarrow> string + int" where
  "parse_field pf s d = (if s = [] then Inr d else case pf s of None \<Rightarrow> Inl s | Some v \<Rightarrow> Inr v)"

text \<open>The body of the loop: one token, or the field that could not be read.\<close>

definition parse_range ::
  "(string \<Rightarrow> int option) \<Rightarrow> int \<Rightarrow> int \<Rightarrow> int \<Rightarrow> string \<Rightarrow> string + range" where
  "parse_range pf defmin defmax defmult tok =
     (let (n1str, rest) = cut_colon tok;
          (n2str, multstr) = (case rest of None \<Rightarrow> (None, None)
                                | Some t \<Rightarrow> (let (a, b) = cut_colon t in (Some a, b)))
      in case parse_field pf n1str defmin of Inl e \<Rightarrow> Inl e | Inr mn \<Rightarrow>
         (case (case n2str of None \<Rightarrow> Inr mn | Some t \<Rightarrow> parse_field pf t defmax) of Inl e \<Rightarrow> Inl e | Inr mx \<Rightarrow>
         (case (case multstr of None \<Rightarrow> Inr defmult | Some t \<Rightarrow> parse_field pf t defmult) of
            Inl e \<Rightarrow> Inl e
          | Inr ml \<Rightarrow> Inr \<lparr>r_min = mn, r_max = mx, r_mult = ml\<rparr>)))"

definition range_errmsg :: "string \<Rightarrow> string" where
  "range_errmsg e = ''error parsing string '' @ e @ '' into an integer''"

fun range_loop ::
  "(string \<Rightarrow> string + range) \<Rightarrow> nat \<Rightarrow> string list \<Rightarrow> range list \<Rightarrow> (string + range list) outcome" where
  "range_loop f cap [] ranges = Ret (Inr ranges)"
| "range_loop f cap (tok # toks) ranges =
     (if cap \<le> length ranges then Undefined ''write past the end of ranges''
      else case f tok of
        Inl e \<Rightarrow> if length (range_errmsg e) < 256 then Ret (Inl (range_errmsg e))
                 else Undefined ''write past the end of errmsg''
      | Inr r \<Rightarrow> range_loop f cap toks (ranges @ [r]))"

definition ncommas :: "string \<Rightarrow> nat" where
  "ncommas str = length (filter (\<lambda>c. c = COMMA) str)"

text \<open>
  \<open>dup_ok\<close> and \<open>block_ok\<close> say whether \<open>strdup\<close> and \<open>malloc\<close> succeed, \<open>want\<close> whether \<open>rangeptr\<close>
  is not \<open>NULL\<close>; \<open>errmsg0\<close> is what the static buffer holds before the call.  The result is the
  returned number, what \<open>*rangeptr\<close> points to, and the buffer.  A block that was not allocated
  has room for no range.
\<close>

definition parse_ranges ::
  "bool \<Rightarrow> bool \<Rightarrow> string \<Rightarrow> string \<Rightarrow> int \<Rightarrow> int \<Rightarrow> int \<Rightarrow> (string \<Rightarrow> int option) option \<Rightarrow> bool
     \<Rightarrow> (int \<times> range list option \<times> string) outcome" where
  "parse_ranges dup_ok block_ok errmsg0 str defmin defmax defmult parse_func want =
     (if \<not> dup_ok then Undefined ''strtok of NULL''
      else let pf = (case parse_func of None \<Rightarrow> str_to_int | Some f \<Rightarrow> f);
               cap = (if block_ok then ncommas str + 1 else 0)
           in bind_outcome
                (range_loop (parse_range pf defmin defmax defmult) cap (strtok_all (\<lambda>c. c = COMMA) str) [])
                (\<lambda>res. case res of Inl msg \<Rightarrow> Ret (-1, None, msg)
                   | Inr ranges \<Rightarrow> Ret (int (length ranges), if want then Some ranges else None, errmsg0)))"

definition range_min :: "range list \<Rightarrow> nat \<Rightarrow> int outcome" where
  "range_min rbuf r = (if r < length rbuf then Ret (r_min (rbuf ! r)) else Undefined ''read past the ranges'')"

definition range_max :: "range list \<Rightarrow> nat \<Rightarrow> int outcome" where
  "range_max rbuf r = (if r < length rbuf then Ret (r_max (rbuf ! r)) else Undefined ''read past the ranges'')"

definition range_mult :: "range list \<Rightarrow> nat \<Rightarrow> int outcome" where
  "range_mult rbuf r = (if r < length rbuf then Ret (r_mult (rbuf ! r)) else Undefined ''read past the ranges'')"

subsection \<open>random_range\<close>

text \<open>The bounds moved to multiples of \<open>mult\<close>, and the number of multiples between them, in the
  arithmetic of the given width.\<close>

definition round_mults :: "(int \<Rightarrow> int outcome) \<Rightarrow> int \<Rightarrow> int \<Rightarrow> int \<Rightarrow> (int \<times> int) outcome" where
  "round_mults arith mn mx mult =
     (let (lo, hi) = (if mx < mn then (mx, mn) else (mn, mx)) in
      bind_outcome
        (if tmod lo mult \<noteq> 0 then bind_outcome (arith (mult - tmod lo mult)) (\<lambda>d. arith (lo + d)) else Ret lo)
        (\<lambda>lo'. bind_outcome (if tmod hi mult \<noteq> 0 then arith (hi - tmod hi mult) else Ret hi)
        (\<lambda>hi'. Ret (lo', hi'))))"

definition count_mults :: "(int \<Rightarrow> int outcome) \<Rightarrow> int \<Rightarrow> int \<Rightarrow> int \<Rightarrow> int outcome" where
  "count_mults arith lo hi mult = bind_outcome (arith (hi - lo)) (\<lambda>d. arith (tdiv d mult + 1))"

definition nth_mult :: "int \<Rightarrow> int \<Rightarrow> int \<Rightarrow> int \<Rightarrow> int outcome" where
  "nth_mult lo randnum nmults mult = bind_outcome (long_of (tmod randnum nmults * mult)) (\<lambda>p. long_of (lo + p))"

definition mult_msg :: string where
  "mult_msg = ''mult arg must be greater than 0''"

definition no_mults_msg :: "int \<Rightarrow> int \<Rightarrow> int \<Rightarrow> string" where
  "no_mults_msg mn mx mult =
     ''no numbers in the range '' @ show_int mn @ '':'' @ show_int mx @ '' that are a multiple of ''
       @ show_int mult"

text \<open>The value and what \<open>*errp\<close> points to, \<open>None\<close> for \<open>NULL\<close>.\<close>

definition random_range :: "int \<Rightarrow> int \<Rightarrow> int \<Rightarrow> int \<Rightarrow> (int \<times> string option) outcome" where
  "random_range mn mx mult lrand =
     (if mult < 1 then Ret (-1, Some mult_msg)
      else bind_outcome (round_mults int_of_expr mn mx mult) (\<lambda>(lo, hi).
        if lo > hi then Ret (-1, Some (no_mults_msg mn mx mult))
        else bind_outcome (count_mults int_of_expr lo hi mult) (\<lambda>nmults.
             bind_outcome (nth_mult lo lrand nmults mult) (\<lambda>v. Ret (v, None)))))"

definition random_rangel :: "int \<Rightarrow> int \<Rightarrow> int \<Rightarrow> int \<Rightarrow> (int \<times> string option) outcome" where
  "random_rangel mn mx mult lrand =
     (if mult < 1 then Ret (-1, Some mult_msg)
      else bind_outcome (round_mults long_of mn mx mult) (\<lambda>(lo, hi).
        if lo > hi then Ret (-1, Some (no_mults_msg mn mx mult))
        else bind_outcome (count_mults long_of lo hi mult) (\<lambda>nmults.
             bind_outcome (nth_mult lo lrand nmults mult) (\<lambda>v. Ret (v, None)))))"

text \<open>\<open>1 << cnt\<close> in \<open>int\<close>.\<close>

definition shl1 :: "nat \<Rightarrow> int outcome" where
  "shl1 cnt = (if cnt < 31 then Ret (push_bit cnt 1) else Undefined ''shift out of range'')"

function divider :: "int \<Rightarrow> int \<Rightarrow> int \<Rightarrow> nat \<Rightarrow> int \<Rightarrow> int outcome" where
  "divider lrand mn mx cnt rnd0 =
     (if cnt > 32 then Ret (-1)
      else let rnd = (if cnt = 0 \<or> rnd0 < -1 then lrand else rnd0) in
      bind_outcome (long_of (mx - mn)) (\<lambda>diff.
        if diff \<le> 2147483647 then long_of (mn + rnd)
        else let half = tdiv diff 2 in
        bind_outcome (long_of (mn + half)) (\<lambda>med.
        bind_outcome (shl1 cnt) (\<lambda>b.
          if half \<le> 2147483647
          then (if rnd AND b \<noteq> 0 then long_of (med + rnd) else long_of (mn + rnd))
          else (if rnd AND b \<noteq> 0 then divider lrand med mx (cnt + 1) rnd
                else divider lrand mn med (cnt + 1) rnd)))))"
  by auto
termination by (relation "measure (\<lambda>(lrand, mn, mx, cnt, rnd). 33 - cnt)") auto

declare divider.simps [simp del]

definition random_rangell :: "int \<Rightarrow> int \<Rightarrow> int \<Rightarrow> int \<Rightarrow> (int \<times> string option) outcome" where
  "random_rangell mn mx mult lrand =
     (if mult < 1 then Ret (-1, Some mult_msg)
      else bind_outcome (round_mults long_of mn mx mult) (\<lambda>(lo, hi).
        if lo > hi then Ret (-1, Some (no_mults_msg mn mx mult))
        else bind_outcome (count_mults long_of lo hi mult) (\<lambda>nmults.
             bind_outcome (if hi \<le> 2147483647 then Ret lrand else divider lrand lo hi 0 (-1)) (\<lambda>randnum.
             bind_outcome (nth_mult lo randnum nmults mult) (\<lambda>v. Ret (v, None))))))"

subsection \<open>random_bit\<close>

text \<open>The mask as its 64 bits.  A left shift out of the top bit drops it and the right shift
  copies the sign, as the compilers of Linux define them.\<close>

function count_bits :: "64 word \<Rightarrow> 64 word \<Rightarrow> nat \<Rightarrow> int \<Rightarrow> int" where
  "count_bits msk b nshift nbits =
     (if nshift < 64 then count_bits msk (push_bit 1 b) (nshift + 1) (if msk AND b \<noteq> 0 then nbits + 1 else nbits)
      else nbits)"
  by auto
termination by (relation "measure (\<lambda>(m, b, n, k). 64 - n)") auto

declare count_bits.simps [simp del]

partial_function (option) shift_until :: "64 word \<Rightarrow> int \<Rightarrow> nat \<Rightarrow> nat option" where
  "shift_until msk b nshift =
     (if b = 0 then Some nshift
      else shift_until (signed_drop_bit 1 msk) (if msk AND 1 \<noteq> 0 then b - 1 else b) (nshift + 1))"

declare shift_until.simps [simp del]

definition random_bit :: "64 word \<Rightarrow> int \<Rightarrow> 64 word run" where
  "random_bit msk lrand =
     (if msk = 0 then Some (Ret 0)
      else bind_run (Some (random_range 1 (count_bits msk 1 0 0) 1 lrand)) (\<lambda>(b, _).
        map_option (\<lambda>nshift. Ret (push_bit (nshift - 1) 1)) (shift_until msk b 0)))"

subsection \<open>Multiples in a range\<close>

text \<open>The least multiple of \<open>m\<close> from \<open>x\<close> on, and the greatest up to \<open>x\<close>, for \<open>x\<close> not negative.\<close>

definition up_mult :: "int \<Rightarrow> int \<Rightarrow> int" where
  "up_mult m x = (if x mod m = 0 then x else x + (m - x mod m))"

definition down_mult :: "int \<Rightarrow> int \<Rightarrow> int" where
  "down_mult m x = x - x mod m"

lemma dvd_down_mult: "m dvd down_mult m x"
  by (simp add: down_mult_def minus_mod_eq_mult_div)

lemma dvd_up_mult: "m dvd up_mult m x"
proof (cases "x mod m = 0")
  case True
  then show ?thesis by (simp add: up_mult_def dvd_eq_mod_eq_0)
next
  case False
  then have "up_mult m x = down_mult m x + m" by (simp add: up_mult_def down_mult_def)
  then show ?thesis using dvd_down_mult [of m x] by simp
qed

lemma down_mult_le: "0 < m \<Longrightarrow> down_mult m x \<le> x"
  by (simp add: down_mult_def)

lemma up_mult_ge: "0 < m \<Longrightarrow> x \<le> up_mult m x"
  by (auto simp: up_mult_def intro: less_imp_le)

lemma up_mult_less: "0 < m \<Longrightarrow> up_mult m x < x + m"
  by (auto simp: up_mult_def less_le)

lemma down_mult_greater: "0 < m \<Longrightarrow> x - m < down_mult m x"
  using pos_mod_bound [of m x] by (simp add: down_mult_def)

lemma dvd_gap:
  assumes "0 < (m :: int)" "m dvd a" "m dvd b" "a < b + m"
  shows "a \<le> b"
proof (rule ccontr)
  assume "\<not> a \<le> b"
  then have "0 < a - b" "a - b < m" using assms(4) by simp_all
  then show False using zdvd_not_zless [of "a - b" m] assms by auto
qed

lemma up_mult_least: "0 < m \<Longrightarrow> m dvd v \<Longrightarrow> (x \<le> v) = (up_mult m x \<le> v)"
  using dvd_gap [OF _ dvd_up_mult, of m v x] up_mult_ge [of m x] up_mult_less [of m x] by auto

lemma down_mult_greatest: "0 < m \<Longrightarrow> m dvd v \<Longrightarrow> (v \<le> x) = (v \<le> down_mult m x)"
  using dvd_gap [OF _ _ dvd_down_mult, of m v x] down_mult_le [of m x] down_mult_greater [of m x] by auto

definition has_mult :: "int \<Rightarrow> int \<Rightarrow> int \<Rightarrow> bool" where
  "has_mult m a b \<longleftrightarrow> up_mult m a \<le> down_mult m b"

lemma has_mult_iff: "0 < m \<Longrightarrow> has_mult m a b \<longleftrightarrow> (\<exists>v. a \<le> v \<and> v \<le> b \<and> m dvd v)"
  using up_mult_least [of m] down_mult_greatest [of m] dvd_up_mult [of m a] has_mult_def [of m a b]
  by (meson order_refl order_trans)

text \<open>Signed arithmetic of one width, at which the rounding is done.\<close>

locale signed_width =
  fixes arith :: "int \<Rightarrow> int outcome" and top :: int
  assumes arith_in: "- top - 1 \<le> x \<Longrightarrow> x \<le> top \<Longrightarrow> arith x = Ret x"
    and top_pos: "0 < top"
begin

lemma round_mults_ret:
  assumes "0 \<le> mn" "0 \<le> mx" "mx \<le> top" "mn \<le> top" "1 \<le> m" "m \<le> top"
    and "up_mult m (min mn mx) \<le> top"
  shows "round_mults arith mn mx m = Ret (up_mult m (min mn mx), down_mult m (max mn mx))"
proof -
  define lo hi where "lo = min mn mx" and "hi = max mn mx"
  have sw: "(if mx < mn then (mx, mn) else (mn, mx)) = (lo, hi)" by (simp add: lo_def hi_def)
  have b: "0 \<le> lo" "lo \<le> top" "0 \<le> hi" "hi \<le> top" using assms by (simp_all add: lo_def hi_def)
  have ml: "0 \<le> lo mod m" "lo mod m < m" and mh: "0 \<le> hi mod m" "hi mod m \<le> hi"
    using assms(5) b by (simp_all add: zmod_le_nonneg_dividend)
  have a1: "arith (m - lo mod m) = Ret (m - lo mod m)"
    using ml assms(6) top_pos by (intro arith_in) linarith+
  have a2: "arith (lo + (m - lo mod m)) = Ret (lo + (m - lo mod m))" if "lo mod m \<noteq> 0"
    using that assms(7) ml b by (intro arith_in) (simp_all add: up_mult_def lo_def [symmetric])
  have a3: "arith (hi - hi mod m) = Ret (hi - hi mod m)" using mh b by (intro arith_in) linarith+
  show ?thesis unfolding round_mults_def sw Let_def lo_def [symmetric] hi_def [symmetric]
    using a1 a2 a3 b by (simp add: tmod_pos up_mult_def down_mult_def)
qed

lemma count_mults_ret:
  assumes "0 \<le> lo" "lo \<le> hi" "hi \<le> top" "1 \<le> m" "hi - lo < top"
  shows "count_mults arith lo hi m = Ret ((hi - lo) div m + 1)"
proof -
  have d: "(hi - lo) div m \<le> hi - lo" "0 \<le> (hi - lo) div m"
    using assms div_pos_pos_trivial zdiv_mono2 [of "hi - lo" 1 m] by (simp_all add: pos_imp_zdiv_nonneg_iff)
  have "arith (hi - lo) = Ret (hi - lo)" using assms by (intro arith_in) linarith+
  moreover have "arith ((hi - lo) div m + 1) = Ret ((hi - lo) div m + 1)"
    using assms d by (intro arith_in) linarith+
  ultimately show ?thesis using assms by (simp add: count_mults_def tdiv_pos)
qed

end

interpretation int_width: signed_width int_of_expr INT_MAX
  by unfold_locales (simp_all add: int_of_expr_def int_limits)

interpretation long_width: signed_width long_of LONG_MAX
  by unfold_locales (simp_all add: long_of_def int_limits)
text \<open>The choice itself: the \<open>k\<close>th multiple from \<open>lo\<close> on, for a random number not negative.\<close>

lemma nth_mult_ret:
  assumes "0 \<le> lo" "lo + (n - 1) * m \<le> LONG_MAX" "1 \<le> m" "1 \<le> n" "0 \<le> r"
  shows "nth_mult lo r n m = Ret (lo + r mod n * m)"
proof -
  have "r mod n \<le> n - 1" "0 \<le> r mod n" using assms(4) pos_mod_bound [of n r] by simp_all
  then have b: "0 \<le> r mod n * m" "r mod n * m \<le> (n - 1) * m"
    using assms(3) by (simp_all add: mult_right_mono)
  have "long_of (r mod n * m) = Ret (r mod n * m)" "long_of (lo + r mod n * m) = Ret (lo + r mod n * m)"
    using b assms(1,2) by (auto intro!: long_width.arith_in simp: int_limits)
  then show ?thesis using assms(5) by (simp add: nth_mult_def tmod_pos)
qed

lemma mults_between:
  assumes "1 \<le> (m :: int)" "m dvd lo" "m dvd hi" "lo \<le> hi"
  shows "lo + ((hi - lo) div m) * m = hi"
proof -
  have "m dvd hi - lo" using assms by simp
  then show ?thesis by simp
qed

text \<open>All multiples between the ends are reached, by a random number below their count.\<close>

lemma choice_in_range:
  assumes "1 \<le> (m :: int)" "m dvd lo" "m dvd hi" "lo \<le> hi" "n = (hi - lo) div m + 1"
  shows "lo \<le> lo + r mod n * m \<and> lo + r mod n * m \<le> hi \<and> m dvd lo + r mod n * m"
    and "m dvd w \<Longrightarrow> lo \<le> w \<Longrightarrow> w \<le> hi \<Longrightarrow> 0 \<le> (w - lo) div m \<and> (w - lo) div m < n
           \<and> lo + (w - lo) div m mod n * m = w"
proof -
  have n: "1 \<le> n" using assms by (simp add: zdiv_mono1)
  then have r: "r mod n \<le> n - 1" "0 \<le> r mod n" using pos_mod_bound [of n r] by simp_all
  then have "r mod n * m \<le> (n - 1) * m" "0 \<le> r mod n * m" using assms(1) by (simp_all add: mult_right_mono)
  moreover have "lo + (n - 1) * m = hi" using mults_between [OF assms(1-4)] assms(5) by simp
  ultimately show "lo \<le> lo + r mod n * m \<and> lo + r mod n * m \<le> hi \<and> m dvd lo + r mod n * m"
    using assms(2) by auto
  assume w: "m dvd w" "lo \<le> w" "w \<le> hi"
  have q: "0 \<le> (w - lo) div m" "(w - lo) div m < n"
    using w assms by (simp_all add: pos_imp_zdiv_nonneg_iff zdiv_mono1 zle_add1_eq_le)
  then show "0 \<le> (w - lo) div m \<and> (w - lo) div m < n \<and> lo + (w - lo) div m mod n * m = w"
    using mults_between [OF assms(1,2) w(1,2)] by simp
qed

text \<open>The multiple that a random number chooses.\<close>

definition chosen_mult :: "int \<Rightarrow> int \<Rightarrow> int \<Rightarrow> int \<Rightarrow> int" where
  "chosen_mult a b m r =
     (let lo = up_mult m (min a b); n = (down_mult m (max a b) - lo) div m + 1 in lo + r mod n * m)"

lemma chosen_mult_range:
  assumes "1 \<le> m" "has_mult m (min a b) (max a b)"
  shows "min a b \<le> chosen_mult a b m r \<and> chosen_mult a b m r \<le> max a b \<and> m dvd chosen_mult a b m r"
  using choice_in_range(1) [OF assms(1) dvd_up_mult dvd_down_mult assms(2) [unfolded has_mult_def] refl, of r]
    up_mult_ge [of m "min a b"] down_mult_le [of m "max a b"] assms(1)
  by (auto simp: chosen_mult_def Let_def)

lemma chosen_mult_onto:
  assumes "1 \<le> m" "m dvd w" "min a b \<le> w" "w \<le> max a b"
  shows "\<exists>r. 0 \<le> r \<and> r \<le> (max a b - min a b) div m \<and> chosen_mult a b m r = w"
proof -
  let ?lo = "up_mult m (min a b)" and ?hi = "down_mult m (max a b)"
  have w: "?lo \<le> w" "w \<le> ?hi" using up_mult_least [of m w] down_mult_greatest [of m w] assms by auto
  note c = choice_in_range(2) [OF assms(1) dvd_up_mult dvd_down_mult order_trans [OF w] refl assms(2) w]
  have "?hi - ?lo \<le> max a b - min a b"
    using up_mult_ge [of m "min a b"] down_mult_le [of m "max a b"] assms(1) by simp
  then have "(?hi - ?lo) div m \<le> (max a b - min a b) div m" using assms(1) by (simp add: zdiv_mono1)
  then show ?thesis using c by (intro exI [of _ "(w - ?lo) div m"]) (auto simp: chosen_mult_def Let_def)
qed

lemma ends_bounds:
  assumes "1 \<le> m" "has_mult m (min a b) (max a b)" "0 \<le> a" "0 \<le> b"
  shows "0 \<le> up_mult m (min a b)" "up_mult m (min a b) \<le> down_mult m (max a b)"
    "down_mult m (max a b) \<le> max a b" "down_mult m (max a b) - up_mult m (min a b) \<le> max a b - min a b"
    "1 \<le> (down_mult m (max a b) - up_mult m (min a b)) div m + 1"
    "up_mult m (min a b) + ((down_mult m (max a b) - up_mult m (min a b)) div m + 1 - 1) * m
       = down_mult m (max a b)"
  using assms order_trans [OF _ up_mult_ge [of m "min a b"], of 0] up_mult_ge [of m "min a b"]
    down_mult_le [of m "max a b"] mults_between [OF assms(1) dvd_up_mult dvd_down_mult assms(2) [unfolded has_mult_def]]
  by (simp_all add: has_mult_def pos_imp_zdiv_nonneg_iff)
subsection \<open>The three widths\<close>

lemma random_range_eq:
  assumes "0 \<le> mn" "mn \<le> INT_MAX" "0 \<le> mx" "mx \<le> INT_MAX" "1 \<le> m" "m \<le> INT_MAX" "0 \<le> r"
    and "has_mult m (min mn mx) (max mn mx)" and "max mn mx - min mn mx < INT_MAX"
  shows "random_range mn mx m r = Ret (chosen_mult mn mx m r, None)"
proof -
  note e = ends_bounds [OF assms(5,8,1,3)]
  have mx: "max mn mx \<le> INT_MAX" using assms by simp
  have r: "round_mults int_of_expr mn mx m = Ret (up_mult m (min mn mx), down_mult m (max mn mx))"
    using e mx assms by (intro int_width.round_mults_ret) linarith+
  have c: "count_mults int_of_expr (up_mult m (min mn mx)) (down_mult m (max mn mx)) m =
      Ret ((down_mult m (max mn mx) - up_mult m (min mn mx)) div m + 1)"
    using e mx assms by (intro int_width.count_mults_ret) linarith+
  have "INT_MAX \<le> LONG_MAX" by (simp add: int_limits)
  then have "nth_mult (up_mult m (min mn mx)) r ((down_mult m (max mn mx) - up_mult m (min mn mx)) div m + 1) m
      = Ret (chosen_mult mn mx m r)"
    unfolding chosen_mult_def Let_def using e mx assms by (intro nth_mult_ret) linarith+
  then show ?thesis using assms e(2) by (simp add: random_range_def r c)
qed

lemma random_range_no_mult:
  assumes "0 \<le> mn" "mn \<le> INT_MAX" "0 \<le> mx" "mx \<le> INT_MAX" "1 \<le> m" "m \<le> INT_MAX"
    and "\<not> has_mult m (min mn mx) (max mn mx)" and "up_mult m (min mn mx) \<le> INT_MAX"
  shows "random_range mn mx m r = Ret (-1, Some (no_mults_msg mn mx m))"
  using int_width.round_mults_ret [OF assms(1,3,4,2,5,6,8)] assms(5,7)
  by (simp add: random_range_def has_mult_def)

text \<open>The recursion of \<open>divider\<close> halves the distance, so that from a distance of at most
  \<open>2 ^ 61\<close> it ends before the shift leaves \<open>int\<close> and before the guard on \<open>cnt\<close> applies.\<close>

lemma divider_ret:
  assumes "cnt + k = 30" "0 \<le> mn" "mn \<le> mx" "mx \<le> 2 ^ 61" "mx - mn \<le> 2 ^ (k + 31)"
    and "0 \<le> lr" "lr < 2 ^ 31" "cnt = 0 \<or> (0 \<le> rnd0 \<and> rnd0 < 2 ^ 31)"
  shows "\<exists>x. divider lr mn mx cnt rnd0 = Ret x \<and> mn \<le> x"
  using assms
proof (induction k arbitrary: cnt mn mx rnd0)
  case (0 cnt mn mx rnd0)
  define rnd where "rnd = (if cnt = 0 \<or> rnd0 < -1 then lr else rnd0)"
  have r: "0 \<le> rnd" "rnd < 2 ^ 31" using "0.prems"(6-8) by (auto simp: rnd_def)
  have h: "tdiv (mx - mn) 2 = (mx - mn) div 2" using "0.prems" by (simp add: tdiv_pos)
  have "(mx - mn) div 2 \<le> 2 ^ 30" "0 \<le> (mx - mn) div 2" using "0.prems"(3,5) by simp_all
  then show ?case using "0.prems" r
    by (subst divider.simps) (auto simp: rnd_def [symmetric] Let_def h long_of_def int_limits shl1_def)
next
  case (Suc k cnt mn mx rnd0)
  define rnd where "rnd = (if cnt = 0 \<or> rnd0 < -1 then lr else rnd0)"
  define med where "med = mn + (mx - mn) div 2"
  have r: "0 \<le> rnd" "rnd < 2 ^ 31" using Suc.prems(6-8) by (auto simp: rnd_def)
  have h: "tdiv (mx - mn) 2 = (mx - mn) div 2" using Suc.prems by (simp add: tdiv_pos)
  have d: "mx - mn \<le> 2 * 2 ^ (k + 31)" using Suc.prems(5) by (simp only: add_Suc power_Suc)
  have m: "mn \<le> med" "med \<le> mx" using Suc.prems(3) by (simp_all add: med_def)
  have hb: "med - mn \<le> 2 ^ (k + 31)" "mx - med \<le> 2 ^ (k + 31)" using d unfolding med_def by linarith+
  have up: "\<exists>x. divider lr med mx (cnt + 1) rnd = Ret x \<and> med \<le> x"
    using Suc.prems m hb r by (intro Suc.IH) auto
  have lo: "\<exists>x. divider lr mn med (cnt + 1) rnd = Ret x \<and> mn \<le> x"
    using Suc.prems m hb r by (intro Suc.IH) auto
  have l: "long_of (mx - mn) = Ret (mx - mn)" "long_of (mn + (mx - mn) div 2) = Ret med"
    "long_of (mn + rnd) = Ret (mn + rnd)" "long_of (med + rnd) = Ret (med + rnd)"
    using Suc.prems r m by (auto simp: long_of_def int_limits med_def)
  have s: "shl1 cnt = Ret (push_bit cnt 1)" "\<not> 32 < cnt" using Suc.prems(1) by (simp_all add: shl1_def)
  show ?case
    by (subst divider.simps) (use up lo m r in \<open>auto simp: rnd_def [symmetric] Let_def h l s\<close>)
qed

lemma random_rangell_eq:
  assumes "0 \<le> mn" "mn \<le> 2 ^ 61" "0 \<le> mx" "mx \<le> 2 ^ 61" "1 \<le> m" "m \<le> LONG_MAX" "0 \<le> r" "r < 2 ^ 31"
    and "has_mult m (min mn mx) (max mn mx)"
  shows "random_rangel mn mx m r = Ret (chosen_mult mn mx m r, None)"
    and "\<exists>r'. 0 \<le> r' \<and> random_rangell mn mx m r = Ret (chosen_mult mn mx m r', None)"
proof -
  let ?lo = "up_mult m (min mn mx)" and ?hi = "down_mult m (max mn mx)"
  note e = ends_bounds [OF assms(5,9,1,3)]
  have mx: "max mn mx \<le> 2 ^ 61" "(2 :: int) ^ 61 < LONG_MAX" "0 \<le> min mn mx"
    using assms by (simp_all add: int_limits)
  have r: "round_mults long_of mn mx m = Ret (?lo, ?hi)"
    using e(2,3) mx assms(1-6) by (intro long_width.round_mults_ret) linarith+
  have c: "count_mults long_of ?lo ?hi m = Ret ((?hi - ?lo) div m + 1)"
    using e(1-4) mx assms(5) by (intro long_width.count_mults_ret) linarith+
  have t: "?lo + ((?hi - ?lo) div m + 1 - 1) * m \<le> LONG_MAX" unfolding e(6) using e(3) mx by linarith
  have n: "nth_mult ?lo x ((?hi - ?lo) div m + 1) m = Ret (chosen_mult mn mx m x)" if "0 \<le> x" for x
    unfolding chosen_mult_def Let_def by (rule nth_mult_ret [OF e(1) t assms(5) e(5) that])
  show "random_rangel mn mx m r = Ret (chosen_mult mn mx m r, None)"
    using assms e(2) n by (simp add: random_rangel_def r c)
  have hi: "?hi \<le> 2 ^ 61" using e(3) mx(1) by linarith
  then have "?hi - ?lo \<le> 2 ^ (30 + 31)" using e(1) by simp
  then have "\<exists>x. divider r ?lo ?hi 0 (-1) = Ret x \<and> ?lo \<le> x"
    by (intro divider_ret [of 0 30, OF _ e(1,2) hi _ assms(7,8)]) simp_all
  then obtain x where x: "divider r ?lo ?hi 0 (-1) = Ret x" "0 \<le> x" using e(1) by force
  show "\<exists>r'. 0 \<le> r' \<and> random_rangell mn mx m r = Ret (chosen_mult mn mx m r', None)"
    using assms(5,7) e(2) n [OF x(2)] n [OF assms(7)] x
    by (cases "?hi \<le> 2147483647") (auto simp: random_rangell_def r c)
qed

subsection \<open>Random bits\<close>

lemma count_bits_eq:
  assumes "n \<le> 64"
  shows "count_bits msk (push_bit n 1) n k = k + int (length (filter (bit msk) [n..<64]))"
  using assms
proof (induction "64 - n" arbitrary: n k)
  case 0
  then show ?case by (subst count_bits.simps) simp
next
  case (Suc d)
  then have n: "n < 64" by simp
  have "(msk AND push_bit n 1 \<noteq> 0) = bit msk n" using n
    by (simp add: push_bit_eq_mult and_exp_eq_0_iff_not_bit)
  moreover have "count_bits msk (push_bit 1 (push_bit n 1)) (n + 1) k'
      = k' + int (length (filter (bit msk) [n + 1..<64]))" for k'
    using Suc.hyps(1) [of "n + 1" k'] Suc.hyps(2) n by (simp add: mult.commute)
  ultimately show ?case using n by (subst count_bits.simps) (simp add: upt_conv_Cons)
qed

text \<open>The loop stops one past the \<open>b\<close>th set bit: while it shifts, the low bits of the mask are
  the bits of the original from \<open>n\<close> on.\<close>

lemma shift_until_eq:
  assumes "b < length (filter (bit msk) [n..<64])" and "\<forall>k. n + k < 64 \<longrightarrow> bit cur k = bit msk (n + k)"
  shows "shift_until cur (int b + 1) n = Some (filter (bit msk) [n..<64] ! b + 1)"
  using assms
proof (induction "64 - n" arbitrary: n b cur)
  case 0
  then show ?case by simp
next
  case (Suc d)
  then have n: "n < 64" by simp
  let ?cur = "signed_drop_bit 1 cur"
  have sh: "\<forall>k. n + 1 + k < 64 \<longrightarrow> bit ?cur k = bit msk (n + 1 + k)"
    using Suc.prems(2) by (auto simp: bit_signed_drop_bit_iff)
  have odd: "(cur AND 1 \<noteq> 0) = bit msk n"
    using Suc.prems(2) [rule_format, of 0] n by (simp add: and_one_eq odd_iff_mod_2_eq_one [symmetric] bit_0)
  show ?case
  proof (cases "bit msk n")
    case True
    show ?thesis
    proof (cases b)
      case 0
      then show ?thesis using True n odd
        by (subst shift_until.simps, subst shift_until.simps) (simp add: upt_conv_Cons)
    next
      case (Suc c)
      then have "shift_until ?cur (int c + 1) (n + 1) = Some (filter (bit msk) [n + 1..<64] ! c + 1)"
        using Suc.prems(1) Suc.hyps(1) [of "n + 1" c ?cur] sh True n Suc.hyps(2) by (simp add: upt_conv_Cons)
      then show ?thesis using True n odd Suc
        by (subst shift_until.simps) (simp add: upt_conv_Cons add.commute [of 1])
    qed
  next
    case False
    then have "shift_until ?cur (int b + 1) (n + 1) = Some (filter (bit msk) [n + 1..<64] ! b + 1)"
      using Suc.prems(1) Suc.hyps(1) [of "n + 1" b ?cur] sh n Suc.hyps(2) by (simp add: upt_conv_Cons)
    then show ?thesis using False n odd by (subst shift_until.simps) (simp add: upt_conv_Cons)
  qed
qed

lemma chosen_mult_one: "0 \<le> r \<Longrightarrow> 1 \<le> n \<Longrightarrow> chosen_mult 1 n 1 r = 1 + r mod n"
  by (simp add: chosen_mult_def up_mult_def down_mult_def)

lemma set_bits_of:
  assumes "(msk :: 64 word) \<noteq> 0"
  shows "filter (bit msk) [0..<64] \<noteq> []"
proof -
  obtain k where "bit msk k" using assms by (auto simp: bit_eq_iff)
  then have "k \<in> set (filter (bit msk) [0..<64])" using bit_imp_le_length [of msk k] by simp
  then show ?thesis by (metis empty_iff empty_set)
qed

lemma random_bit_eq:
  assumes "msk \<noteq> 0" "0 \<le> r"
  shows "random_bit msk r =
     Some (Ret (push_bit (filter (bit msk) [0..<64] ! (nat r mod length (filter (bit msk) [0..<64]))) 1))"
proof -
  let ?fs = "filter (bit msk) [0..<64]"
  have l: "0 < length ?fs" "length ?fs \<le> 64" using set_bits_of [OF assms(1)] length_filter_le [of "bit msk" "[0..<64]"] by auto
  have c: "count_bits msk 1 0 0 = int (length ?fs)" using count_bits_eq [of 0 msk 0] by simp
  have h: "has_mult 1 1 (int (length ?fs))"
    using l by (simp add: has_mult_def up_mult_def down_mult_def Suc_le_eq)
  have rr: "random_range 1 (int (length ?fs)) 1 r = Ret (1 + r mod int (length ?fs), None)"
    using random_range_eq [of 1 "int (length ?fs)" 1 r] l assms(2) h
      chosen_mult_one [of r "int (length ?fs)"] by (simp add: int_limits)
  have i: "1 + r mod int (length ?fs) = int (nat r mod length ?fs) + 1"
    using assms(2) by (simp add: zmod_int)
  have "shift_until msk (int (nat r mod length ?fs) + 1) 0 = Some (?fs ! (nat r mod length ?fs) + 1)"
    using l by (intro shift_until_eq) auto
  then show ?thesis using assms(1) by (simp add: random_bit_def c rr i)
qed
subsection \<open>Negative bounds\<close>

lemma tmod_neg: "a < 0 \<Longrightarrow> tmod a m = - ((- a) mod m)"
  by (simp add: tmod_def tdiv_def minus_div_mult_eq_mod [symmetric])

text \<open>With a negative upper bound that is no multiple, the upper end is moved above the bound.\<close>

lemma random_range_negative_eq:
  assumes "INT_MIN < mn" "mn + m \<le> mx" "mx < 0" "1 \<le> m" "2 * m \<le> INT_MAX" "\<not> m dvd mx"
    and lo: "lo = (if (- mn) mod m = 0 then mn else mn + (m + (- mn) mod m))"
    and hi: "hi = mx + (- mx) mod m"
  shows "random_range mn mx m ((hi - lo) div m) = Ret (hi, None)" "mx < hi" "hi \<le> 0" "mn \<le> lo" "lo \<le> hi" "2 \<le> m"
proof -
  have r: "0 \<le> (- mn) mod m" "(- mn) mod m < m" "0 \<le> (- mx) mod m" "(- mx) mod m \<le> - mx"
    using assms(3,4) by (simp_all add: zmod_le_nonneg_dividend)
  have nz: "(- mx) mod m \<noteq> 0" using assms(6) by (metis dvd_minus_iff mod_0_imp_dvd)
  show m2: "2 \<le> m" using assms(4,6) by (cases "m = 1") auto
  have dm: "m dvd mn + (- mn) mod m" "m dvd hi"
    using dvd_down_mult [of m "- mn"] dvd_down_mult [of m "- mx"]
    by (simp_all add: hi down_mult_def dvd_minus_iff [of m "mn + (- mn) mod m", symmetric]
          dvd_minus_iff [of m "mx + (- mx) mod m", symmetric])
  then have dl: "m dvd lo" by (auto simp: lo ac_simps dvd_add_right_iff) 
  show h: "mx < hi" "hi \<le> 0" "mn \<le> lo" using r nz assms(4) by (auto simp: hi lo less_le)
  have "lo < hi + m" using r nz assms(2,4) unfolding lo hi by (simp only: split: if_splits) linarith
  then show lh: "lo \<le> hi" using dvd_gap [OF _ dl dm(2)] assms(4) by simp
  have rm: "round_mults int_of_expr mn mx m = Ret (lo, hi)"
    using assms(1-5) r nz h lh
    by (simp add: round_mults_def tmod_neg lo hi int_of_expr_def int_limits)
  have q: "(hi - lo) div m * m = hi - lo" using mults_between [OF assms(4) dl dm(2) lh] by simp
  have q0: "0 \<le> (hi - lo) div m" "(hi - lo) div m \<le> (hi - lo) div 2"
    using lh m2 zdiv_mono2 [of "hi - lo" 2 m] pos_imp_zdiv_nonneg_iff [of m "hi - lo"] by auto
  have "(hi - lo) div 2 < INT_MAX" using h assms(1) by (simp add: int_limits)
  then have c: "count_mults int_of_expr lo hi m = Ret ((hi - lo) div m + 1)"
    using h lh q0 assms(1) by (simp add: count_mults_def int_of_expr_def tdiv_pos int_limits)
  have t: "tmod ((hi - lo) div m) ((hi - lo) div m + 1) = (hi - lo) div m"
    using q0 by (simp add: tmod_pos)
  have "nth_mult lo ((hi - lo) div m) ((hi - lo) div m + 1) m = Ret hi"
    unfolding nth_mult_def t q using h lh assms(1) by (simp add: long_of_def int_limits)
  then show "random_range mn mx m ((hi - lo) div m) = Ret (hi, None)"
    using assms(4) lh by (simp add: random_range_def rm c)
qed

lemma random_rangell_negative_low: "random_rangell (-10) 2147483653 1 0 = Ret (-20, None)"
  by (simp add: random_rangell_def round_mults_def count_mults_def nth_mult_def tmod_def tdiv_def
      divider.simps [of 0 "-10" 2147483653 0 "-1"] shl1_def long_of_def int_limits)

subsection \<open>Properties of the random choice\<close>

text \<open>C15: with bounds that are not negative, \<open>random_range\<close> returns a multiple of \<open>mult\<close> between
  them, in either order of the bounds, and every such multiple is returned for some value of
  \<open>lrand48 ()\<close>; when there is none it returns -1 with the message.  The two arithmetic bounds
  exclude the overflows of \<open>nmults\<close> and of the rounding.\<close>

theorem random_range_in_range:
  assumes "0 \<le> mn" "mn \<le> INT_MAX" "0 \<le> mx" "mx \<le> INT_MAX" "1 \<le> mult" "mult \<le> INT_MAX"
    and "0 \<le> r" "r < 2 ^ 31"
    and "max mn mx - min mn mx < INT_MAX" "min mn mx + mult \<le> INT_MAX + 1"
  shows "if \<exists>v. min mn mx \<le> v \<and> v \<le> max mn mx \<and> mult dvd v
         then (\<exists>v. random_range mn mx mult r = Ret (v, None) \<and> min mn mx \<le> v \<and> v \<le> max mn mx \<and> mult dvd v)
            \<and> (\<forall>w. min mn mx \<le> w \<and> w \<le> max mn mx \<and> mult dvd w \<longrightarrow>
                   (\<exists>s. 0 \<le> s \<and> s < 2 ^ 31 \<and> random_range mn mx mult s = Ret (w, None)))
         else random_range mn mx mult r = Ret (-1, Some (no_mults_msg mn mx mult))"
proof -
  have h: "(\<exists>v. min mn mx \<le> v \<and> v \<le> max mn mx \<and> mult dvd v) = has_mult mult (min mn mx) (max mn mx)"
    using has_mult_iff assms(5) by simp
  have up: "up_mult mult (min mn mx) \<le> INT_MAX"
    using up_mult_less [of mult "min mn mx"] assms(5,10) by linarith
  have eq: "random_range mn mx mult s = Ret (chosen_mult mn mx mult s, None)"
    if "has_mult mult (min mn mx) (max mn mx)" "0 \<le> s" for s
    using random_range_eq [OF assms(1-6) that(2,1) assms(9)] .
  have onto: "\<exists>s. 0 \<le> s \<and> s < 2 ^ 31 \<and> random_range mn mx mult s = Ret (w, None)"
    if w: "min mn mx \<le> w" "w \<le> max mn mx" "mult dvd w" for w
  proof -
    obtain s where s: "0 \<le> s" "s \<le> (max mn mx - min mn mx) div mult" "chosen_mult mn mx mult s = w"
      using chosen_mult_onto [OF assms(5) w(3,1,2)] by blast
    have "(max mn mx - min mn mx) div mult \<le> max mn mx - min mn mx"
      using zdiv_mono2 [of "max mn mx - min mn mx" 1 mult] assms(5) by simp
    then have "s < 2 ^ 31" using s(2) assms(9) by (simp add: int_limits)
    then show ?thesis using s eq h w by blast
  qed
  show ?thesis unfolding h
    using eq [OF _ assms(7)] chosen_mult_range [OF assms(5)] onto random_range_no_mult [OF assms(1-6) _ up]
    by auto
qed

theorem random_range_in_range_witness:
  "(\<exists>v. random_range 20 3 7 12345 = Ret (v, None) \<and> 3 \<le> v \<and> v \<le> 20 \<and> 7 dvd v)
   \<and> random_range 20 3 7 12345 = Ret (14, None)
   \<and> random_range 5 3 7 12345 = Ret (-1, Some (no_mults_msg 5 3 7))"
proof -
  have "\<exists>v. (3 :: int) \<le> v \<and> v \<le> 20 \<and> 7 dvd v" by (rule exI [of _ 7]) simp
  then have "\<exists>v. random_range 20 3 7 12345 = Ret (v, None) \<and> 3 \<le> v \<and> v \<le> 20 \<and> 7 dvd v"
    using random_range_in_range [of 20 3 7 12345] by (simp add: int_limits)
  then show ?thesis
    by (simp add: random_range_def round_mults_def count_mults_def nth_mult_def tmod_def tdiv_def
        int_of_expr_def long_of_def int_limits)
qed

text \<open>At 64 bits the result of \<open>random_rangel\<close> and of \<open>random_rangell\<close> is in the range and a
  multiple, for bounds up to \<open>2 ^ 61\<close>, although \<open>divider\<close> itself may return a number above the
  upper bound.\<close>

theorem random_rangell_in_range:
  assumes "0 \<le> mn" "mn \<le> 2 ^ 61" "0 \<le> mx" "mx \<le> 2 ^ 61" "1 \<le> mult" "mult \<le> LONG_MAX"
    and "0 \<le> r" "r < 2 ^ 31"
    and "\<exists>v. min mn mx \<le> v \<and> v \<le> max mn mx \<and> mult dvd v"
  shows "(\<exists>v. random_rangel mn mx mult r = Ret (v, None) \<and> min mn mx \<le> v \<and> v \<le> max mn mx \<and> mult dvd v)
       \<and> (\<exists>v. random_rangell mn mx mult r = Ret (v, None) \<and> min mn mx \<le> v \<and> v \<le> max mn mx \<and> mult dvd v)"
proof -
  have h: "has_mult mult (min mn mx) (max mn mx)" using assms(5,9) by (simp add: has_mult_iff)
  show ?thesis
    using random_rangell_eq [OF assms(1-8) h] chosen_mult_range [OF assms(5) h] by auto
qed

theorem random_rangell_in_range_witness:
  "(\<exists>v. random_rangell 10 (2 ^ 40) 512 77 = Ret (v, None) \<and> 10 \<le> v \<and> v \<le> 2 ^ 40 \<and> 512 dvd v)"
proof -
  have "\<exists>v. (10 :: int) \<le> v \<and> v \<le> 2 ^ 40 \<and> 512 dvd v" by (rule exI [of _ 512]) simp
  then show ?thesis using random_rangell_in_range [of 10 "2 ^ 40" 512 77] by (simp add: int_limits)
qed

text \<open>With negative bounds the result may leave the range.  Rounding with C's truncating \<open>%\<close>
  moves a negative upper bound up: some value of \<open>lrand48 ()\<close> makes \<open>random_range\<close> return a number
  above the larger bound.  With a negative lower bound \<open>random_rangell\<close> can return a number
  below the smaller one, since \<open>divider\<close> may return a negative number.\<close>

theorem random_range_negative:
  assumes "INT_MIN < mn" "mn + mult \<le> mx" "mx < 0" "1 \<le> mult" "2 * mult \<le> INT_MAX" "\<not> mult dvd mx"
  shows "(\<exists>r v. 0 \<le> r \<and> r < 2 ^ 31 \<and> random_range mn mx mult r = Ret (v, None) \<and> mx < v)
       \<and> random_rangell (-10) 2147483653 1 0 = Ret (-20, None)"
proof -
  define lo where "lo = (if (- mn) mod mult = 0 then mn else mn + (mult + (- mn) mod mult))"
  define hi where "hi = mx + (- mx) mod mult"
  note e = random_range_negative_eq [OF assms lo_def hi_def]
  have "0 \<le> (hi - lo) div mult" "(hi - lo) div mult \<le> hi - lo"
    using e(5,6) zdiv_mono2 [of "hi - lo" 1 mult] pos_imp_zdiv_nonneg_iff [of mult "hi - lo"] by auto
  then have "0 \<le> (hi - lo) div mult \<and> (hi - lo) div mult < 2 ^ 31"
    using e(3,4) assms(1) by (simp add: int_limits)
  then show ?thesis using e(1,2) random_rangell_negative_low by blast
qed

theorem random_range_negative_witness:
  "(\<exists>r v. 0 \<le> r \<and> r < 2 ^ 31 \<and> random_range (-8) (-5) 3 r = Ret (v, None) \<and> -5 < v)
   \<and> random_range (-8) (-5) 3 0 = Ret (-3, None)"
proof -
  have "\<not> (3 :: int) dvd 5" by presburger
  then show ?thesis using random_range_negative [of "-8" 3 "-5"]
    by (simp add: int_limits random_range_def round_mults_def count_mults_def nth_mult_def tmod_def
        tdiv_def int_of_expr_def long_of_def)
qed

text \<open>\<open>random_bit\<close> returns, after finitely many shifts, one of the bits that are set in the
  mask; every set bit is returned for some value of \<open>lrand48 ()\<close>, and 0 for an empty mask.\<close>

theorem random_bit_picks:
  assumes "0 \<le> r" "r < 2 ^ 31"
  shows "(msk \<noteq> 0 \<longrightarrow> (\<exists>k < 64. bit msk k \<and> random_bit msk r = Some (Ret (push_bit k 1))))
       \<and> (\<forall>k. bit msk k \<longrightarrow> (\<exists>s. 0 \<le> s \<and> s < 2 ^ 31 \<and> random_bit msk s = Some (Ret (push_bit k 1))))
       \<and> random_bit 0 r = Some (Ret 0)"
proof (intro conjI impI allI)
  let ?fs = "filter (bit msk) [0..<64]"
  assume "msk \<noteq> 0"
  then have "?fs ! (nat r mod length ?fs) \<in> set ?fs" using set_bits_of by (intro nth_mem) simp
  then show "\<exists>k < 64. bit msk k \<and> random_bit msk r = Some (Ret (push_bit k 1))"
    using random_bit_eq [OF \<open>msk \<noteq> 0\<close> assms(1)] by (intro exI [of _ "?fs ! (nat r mod length ?fs)"]) auto
next
  let ?fs = "filter (bit msk) [0..<64]"
  fix k assume k: "bit msk k"
  then have "k \<in> set ?fs" using bit_imp_le_length [of msk k] by simp
  then obtain i where i: "i < length ?fs" "?fs ! i = k" unfolding in_set_conv_nth by blast
  have "length ?fs \<le> 64" using length_filter_le [of "bit msk" "[0..<64]"] by simp
  moreover have "msk \<noteq> 0" using k by auto
  ultimately show "\<exists>s. 0 \<le> s \<and> s < 2 ^ 31 \<and> random_bit msk s = Some (Ret (push_bit k 1))"
    using random_bit_eq [of msk "int i"] i by (intro exI [of _ "int i"]) auto
qed (simp add: random_bit_def)

theorem random_bit_picks_witness:
  "\<exists>k < 64. bit (0b10110 :: 64 word) k \<and> random_bit 0b10110 7 = Some (Ret (push_bit k 1))"
  using random_bit_picks [of 7 "0b10110"] by simp

subsection \<open>Reading printed ranges\<close>

lemma digit_in_10: "digit_in 10 c = (if is_digit c then Some (digit_val c) else None)"
  by (auto simp: digit_in_def is_digit_def digit_val_def Let_def)

lemma digits_val_10: "\<forall>c \<in> set ds. is_digit c \<Longrightarrow> digits_val 10 ds = dec_val ds"
proof -
  have "foldl (\<lambda>a c. 10 * a + the (digit_in 10 c)) k ds = foldl (\<lambda>a c. 10 * a + digit_val c) k ds"
    if "\<forall>c \<in> set ds. is_digit c" for k
    using that by (induction ds arbitrary: k) (auto simp: digit_in_10)
  then show "\<forall>c \<in> set ds. is_digit c \<Longrightarrow> digits_val 10 ds = dec_val ds"
    by (simp add: digits_val_def dec_val_def)
qed

lemma hd_show_nat: "0 < n \<Longrightarrow> hd (show_nat n) \<noteq> CHR ''0''"
proof (induction n rule: show_nat.induct)
  case (1 n)
  show ?case
  proof (cases "n < 10")
    case True
    then have "of_char (digit_char n) \<noteq> (48 :: nat)" using "1.prems" by (simp add: of_char_digit_char)
    then have "digit_char n \<noteq> CHR ''0''" by auto
    then show ?thesis using True by (subst show_nat.simps) simp
  next
    case False
    then have "hd (show_nat (n div 10)) \<noteq> CHR ''0''" using 1 by simp
    then show ?thesis using False by (subst show_nat.simps) simp
  qed
qed

lemma scan_base_show_nat: "0 < n \<Longrightarrow> scan_base (show_nat n) = (10, show_nat n)"
  using hd_show_nat [of n] by (cases "show_nat n") (auto simp: scan_base_def)

lemma read_sign_show_int:
  "read_sign (dropWhile is_space (show_int i)) = (i < 0, show_nat (nat \<bar>i\<bar>))"
  using read_sign_show_nat [of "nat i" "[]"] by (auto simp: show_int_def read_sign_def is_space_def)

lemma scan_digits_show_nat:
  "takeWhile (\<lambda>c. digit_in 10 c \<noteq> None) (show_nat n) = show_nat n"
  "dropWhile (\<lambda>c. digit_in 10 c \<noteq> None) (show_nat n) = []"
  using show_nat_digits [of n] by (auto simp: digit_in_10 takeWhile_eq_all_conv)

lemma str_to_int_show_int:
  assumes "INT_MIN \<le> i" "i \<le> INT_MAX"
  shows "str_to_int (show_int i) = Some i"
proof (cases "i = 0")
  case True
  have "show_int 0 = ''0''" by code_simp
  then show ?thesis using True
    by (simp add: str_to_int_def scan_i_def read_sign_def is_space_def scan_base_def digit_in_def digits_val_def
        wrap32_def int_limits)
next
  case False
  then have b: "scan_base (show_nat (nat \<bar>i\<bar>)) = (10, show_nat (nat \<bar>i\<bar>))" by (intro scan_base_show_nat) simp
  have "wrap32 (max LONG_MIN (min LONG_MAX i)) = i" using assms by (simp add: wrap32_id int_limits)
  then show ?thesis using False
    by (auto simp: str_to_int_def scan_i_def read_sign_show_int b scan_digits_show_nat
        digits_val_10 [OF show_nat_digits] Let_def simp del: not_None_eq)
qed

text \<open>A range as the command line writes it.\<close>

definition print_range :: "range \<Rightarrow> string" where
  "print_range r = show_int (r_min r) @ CHR '':'' # show_int (r_max r) @ CHR '':'' # show_int (r_mult r)"

definition range_ints :: "range \<Rightarrow> bool" where
  "range_ints r \<longleftrightarrow> (\<forall>x \<in> {r_min r, r_max r, r_mult r}. INT_MIN \<le> x \<and> x \<le> INT_MAX)"

lemma show_int_no_sep: "CHR '':'' \<notin> set (show_int i)" "COMMA \<notin> set (show_int i)"
  using show_int_chars [of "CHR '':''" i] show_int_chars [of COMMA i] by (auto simp: is_digit_def)

lemma cut_colon_append: "CHR '':'' \<notin> set p \<Longrightarrow> cut_colon (p @ CHR '':'' # r) = (p, Some r)"
  by (simp add: cut_colon_def strchr_append)

lemma cut_colon_none: "CHR '':'' \<notin> set p \<Longrightarrow> cut_colon p = (p, None)"
  using strchr_None_iff [of p "CHR '':''"] by (simp add: cut_colon_def)

lemma parse_range_print:
  "range_ints r \<Longrightarrow> parse_range str_to_int a b c (print_range r) = Inr r"
  by (simp add: parse_range_def print_range_def cut_colon_append cut_colon_none show_int_no_sep parse_field_def
      str_to_int_show_int range_ints_def)

subsection \<open>The array of ranges\<close>

lemma ncommas_append: "ncommas (s @ t) = ncommas s + ncommas t"
  by (simp add: ncommas_def)

text \<open>There is room for every token: between two tokens stands a comma.\<close>

lemma tokens_le_commas:
  "length (strtok_all (\<lambda>c. c = COMMA) s) \<le> ncommas s + (if s = [] \<or> hd s = COMMA then 0 else 1)"
proof (induction s rule: strtok_induct [of "\<lambda>c. c = COMMA"])
  case (blank s)
  then have "strtok_all (\<lambda>c. c = COMMA) s = []" unfolding strtok_all_def by (simp add: strtok_from_blank)
  then show ?case by simp
next
  case (token b t r)
  have r: "length (strtok_all (\<lambda>c. c = COMMA) r) \<le> ncommas r" using token.IH token.hyps(4) by auto
  have "strtok_all (\<lambda>c. c = COMMA) (b @ t @ r) = t # strtok_all (\<lambda>c. c = COMMA) r"
    using arg_cong [OF strtok_from_step [OF token.hyps(1-4), of 0], of "map snd"] by (simp add: snd_strtok_from)
  moreover have "b \<noteq> [] \<Longrightarrow> 1 \<le> ncommas b" using token.hyps(1) by (cases b) (auto simp: ncommas_def)
  moreover have "t \<noteq> [] \<and> hd t \<noteq> COMMA" using token.hyps(2,3) by (cases t) auto
  ultimately show ?case using r by (cases "b = []") (auto simp: ncommas_append)
qed

lemma tokens_fit: "length (strtok_all (\<lambda>c. c = COMMA) s) \<le> ncommas s + 1"
  using tokens_le_commas [of s] by (auto split: if_splits)

lemma range_loop_all:
  assumes "length acc + length toks \<le> cap" "\<forall>t \<in> set toks. \<exists>r. f t = Inr r"
  shows "range_loop f cap toks acc = Ret (Inr (acc @ map (projr \<circ> f) toks))"
  using assms by (induction toks arbitrary: acc) auto

lemma range_loop_bad:
  assumes "length acc + length toks \<le> cap" "\<not> (\<forall>t \<in> set toks. \<exists>r. f t = Inr r)"
    and "\<forall>t \<in> set toks. \<forall>e. f t = Inl e \<longrightarrow> length e < 219"
  shows "\<exists>t e. t \<in> set toks \<and> f t = Inl e \<and> range_loop f cap toks acc = Ret (Inl (range_errmsg e))"
  using assms
proof (induction toks arbitrary: acc)
  case (Cons t ts)
  show ?case
  proof (cases "f t")
    case (Inl e)
    then show ?thesis using Cons.prems by (intro exI [of _ t] exI [of _ e]) (auto simp: range_errmsg_def)
  next
    case (Inr r)
    then have "\<exists>u e. u \<in> set ts \<and> f u = Inl e \<and> range_loop f cap ts (acc @ [r]) = Ret (Inl (range_errmsg e))"
      using Cons.prems by (intro Cons.IH) auto
    then show ?thesis using Inr Cons.prems(1) by auto
  qed
qed simp
lemma cut_colon_short:
  "cut_colon s = (p, q) \<Longrightarrow> length p \<le> length s \<and> (\<forall>u. q = Some u \<longrightarrow> length u \<le> length s)"
  by (auto simp: cut_colon_def split: option.splits dest!: strchr_Some)

lemma parse_field_short: "parse_field g s d = Inl x \<Longrightarrow> x = s"
  by (auto simp: parse_field_def split: if_splits option.splits)

lemma parse_range_short:
  assumes "parse_range g a b c t = Inl x"
  shows "length x \<le> length t"
proof -
  obtain p q where pq: "cut_colon t = (p, q)" by fastforce
  show ?thesis
  proof (cases q)
    case None
    then show ?thesis using assms pq cut_colon_short [OF pq] unfolding parse_range_def
      by (auto split: sum.splits dest!: parse_field_short)
  next
    case (Some u)
    obtain p' q' where pq': "cut_colon u = (p', q')" by fastforce
    have "length u \<le> length t" using Some cut_colon_short [OF pq] by simp
    then show ?thesis using assms Some pq pq' cut_colon_short [OF pq] cut_colon_short [OF pq']
      unfolding parse_range_def by (auto split: sum.splits option.splits dest!: parse_field_short)
  qed
qed

subsection \<open>Properties of parse_ranges\<close>

text \<open>A list of ranges printed as \<open>min:max:mult\<close> with commas between them is parsed back to the
  same ranges in the same order, whatever the defaults are.\<close>

theorem parse_ranges_roundtrip:
  assumes "\<forall>r \<in> set rs. range_ints r"
  shows "parse_ranges True True e (join_with COMMA (map print_range rs)) a b c None True
           = Ret (int (length rs), Some rs, e)"
proof -
  let ?s = "join_with COMMA (map print_range rs)"
  have ne: "t \<noteq> [] \<and> (\<forall>c \<in> set t. c \<noteq> COMMA)" if "t \<in> set (map print_range rs)" for t
    using that show_int_no_sep by (auto simp: print_range_def)
  have toks: "strtok_all (\<lambda>c. c = COMMA) ?s = map print_range rs"
    using ne by (intro strtok_all_join) auto
  have f: "parse_range str_to_int a b c (print_range r) = Inr r" if "r \<in> set rs" for r
    using that assms by (simp add: parse_range_print)
  have "range_loop (parse_range str_to_int a b c) (ncommas ?s + 1) (map print_range rs) []
      = Ret (Inr (map (projr \<circ> parse_range str_to_int a b c) (map print_range rs)))"
    using tokens_fit [of ?s] f unfolding toks by (subst range_loop_all) auto
  moreover have "map (projr \<circ> parse_range str_to_int a b c) (map print_range rs) = rs"
    using f by (simp add: map_idI)
  ultimately show ?thesis by (simp add: parse_ranges_def toks)
qed

theorem parse_ranges_roundtrip_witness:
  "parse_ranges True True [] (join_with COMMA (map print_range
      [\<lparr>r_min = -5, r_max = 7, r_mult = 2\<rparr>, \<lparr>r_min = 0, r_max = 100, r_mult = 1\<rparr>])) 1 2 3 None True
     = Ret (2, Some [\<lparr>r_min = -5, r_max = 7, r_mult = 2\<rparr>, \<lparr>r_min = 0, r_max = 100, r_mult = 1\<rparr>], [])"
  using parse_ranges_roundtrip
    [of "[\<lparr>r_min = -5, r_max = 7, r_mult = 2\<rparr>, \<lparr>r_min = 0, r_max = 100, r_mult = 1\<rparr>]" "[]" 1 2 3]
  by (simp add: range_ints_def int_limits)

text \<open>C36: for every string, every parsing function and all defaults \<open>parse_ranges\<close> stays inside
  the array it allocates from the number of commas.  It stores one range per token, in order,
  when every token can be read, and returns -1 with the message for an offending field
  otherwise; the message fits its buffer when no token has more than 218 characters.\<close>

theorem parse_ranges_bounded:
  assumes toks: "toks = strtok_all (\<lambda>c. c = COMMA) str"
    and f: "f = parse_range (case pf of None \<Rightarrow> str_to_int | Some g \<Rightarrow> g) a b c"
    and short: "\<forall>t \<in> set toks. length t \<le> 218"
  shows "length toks \<le> ncommas str + 1
       \<and> (if \<forall>t \<in> set toks. \<exists>r. f t = Inr r
          then parse_ranges True True e str a b c pf True = Ret (int (length toks), Some (map (projr \<circ> f) toks), e)
          else \<exists>t fld. t \<in> set toks \<and> f t = Inl fld
             \<and> parse_ranges True True e str a b c pf True = Ret (-1, None, range_errmsg fld))"
proof -
  have l: "length toks \<le> ncommas str + 1" unfolding toks by (rule tokens_fit)
  have sh: "\<forall>t \<in> set toks. \<forall>x. f t = Inl x \<longrightarrow> length x < 219"
    using short parse_range_short by (fastforce simp: f)
  have pr: "parse_ranges True True e str a b c pf True = bind_outcome (range_loop f (ncommas str + 1) toks [])
      (\<lambda>res. case res of Inl msg \<Rightarrow> Ret (-1, None, msg)
         | Inr ranges \<Rightarrow> Ret (int (length ranges), Some ranges, e))"
    by (simp add: parse_ranges_def toks f)
  show ?thesis
  proof (cases "\<forall>t \<in> set toks. \<exists>r. f t = Inr r")
    case True
    then have "range_loop f (ncommas str + 1) toks [] = Ret (Inr (map (projr \<circ> f) toks))"
      using range_loop_all [of "[]" toks "ncommas str + 1" f] l by simp
    then show ?thesis using l True by (simp add: pr)
  next
    case False
    then obtain t x where x: "t \<in> set toks" "f t = Inl x"
      "range_loop f (ncommas str + 1) toks [] = Ret (Inl (range_errmsg x))"
      using range_loop_bad [of "[]" toks "ncommas str + 1" f] l sh by auto
    then have "parse_ranges True True e str a b c pf True = Ret (-1, None, range_errmsg x)" by (simp add: pr)
    then show ?thesis using l False x(1,2) by (simp only: if_False) blast
  qed
qed

theorem parse_ranges_bounded_witness:
  "\<exists>t fld. t \<in> set (strtok_all (\<lambda>c. c = COMMA) '',x,'')
     \<and> parse_range (\<lambda>_. None) 0 0 1 t = Inl fld
     \<and> parse_ranges True True [] '',x,'' 0 0 1 (Some (\<lambda>_. None)) True = Ret (-1, None, range_errmsg fld)"
proof -
  have toks: "strtok_all (\<lambda>c. c = COMMA) '',x,'' = [''x'']"
    using strtok_all_token_append [of "''x''" "\<lambda>c. c = COMMA" "'',''"]
    by (simp add: strtok_all_skip)
  have "parse_range (\<lambda>_. None) 0 0 1 ''x'' = Inl ''x''"
    by (simp add: parse_range_def cut_colon_def parse_field_def)
  then show ?thesis
    using parse_ranges_bounded [OF toks [symmetric] refl, of "Some (\<lambda>_. None)" 0 0 1 "[]"] by (simp add: toks)
qed

end
