(* ===== verification/Doio_Pattern.thy ===== *)
theory Doio_Pattern
  imports Ltp_Prelude
begin

section \<open>Test data: patterns in buffers\<close>

text \<open>
  The helpers of \<open>testcases/kernel/fs/doio\<close> that fill a buffer with known data and check it
  again: \<open>pattern.c\<close>, \<open>dataascii.c\<close> and \<open>databin.c\<close>.  A buffer is the list of the bytes of its
  object; a copy that leaves the object, or has a negative size, is undefined behaviour.
  The texts of \<open>Errmsg\<close> are left out.
\<close>

unbundle bit_operations_syntax

subsection \<open>Memory\<close>

definition mem_read :: "'a list \<Rightarrow> int \<Rightarrow> int \<Rightarrow> 'a list outcome" where
  "mem_read m off n =
     (if 0 \<le> n \<and> 0 \<le> off \<and> off + n \<le> int (length m) then Ret (take (nat n) (drop (nat off) m))
      else Undefined ''read outside the object'')"

definition mem_write :: "'a list \<Rightarrow> int \<Rightarrow> 'a list \<Rightarrow> 'a list outcome" where
  "mem_write m off d =
     (if 0 \<le> off \<and> off + int (length d) \<le> int (length m)
      then Ret (take (nat off) m @ d @ drop (nat off + length d) m)
      else Undefined ''write outside the object'')"

text \<open>\<open>memcpy (dst + doff, src + soff, n)\<close> and \<open>memcmp\<close> of two regions, \<open>True\<close> when they differ.\<close>

definition memcpy :: "'a list \<Rightarrow> int \<Rightarrow> 'a list \<Rightarrow> int \<Rightarrow> int \<Rightarrow> 'a list outcome" where
  "memcpy dst doff src soff n = bind_outcome (mem_read src soff n) (mem_write dst doff)"

definition memcmp :: "'a list \<Rightarrow> int \<Rightarrow> 'a list \<Rightarrow> int \<Rightarrow> int \<Rightarrow> bool outcome" where
  "memcmp a aoff b boff n =
     bind_outcome (mem_read a aoff n) (\<lambda>x. bind_outcome (mem_read b boff n) (\<lambda>y. Ret (x \<noteq> y)))"

subsection \<open>pattern.c\<close>

definition pat_shift :: "int \<Rightarrow> int \<Rightarrow> int" where
  "pat_shift patlen patshift = (if patlen \<noteq> 0 then tmod patshift patlen else patshift)"

text \<open>The loops that double the part of the buffer that is done.  \<open>ncopied\<close> is also the offset of \<open>cp\<close>.\<close>

partial_function (option) fill_loop :: "char list \<Rightarrow> int \<Rightarrow> int \<Rightarrow> int \<Rightarrow> char list run" where
  "fill_loop buf ncopied nleft buflen =
     (if ncopied < buflen
      then let trans = (if ncopied < nleft then ncopied else nleft)
           in case memcpy buf ncopied buf 0 trans of
                Ret buf' \<Rightarrow> fill_loop buf' (ncopied + trans) (nleft - trans) buflen
              | Exits n \<Rightarrow> Some (Exits n) | Aborts \<Rightarrow> Some Aborts | Undefined w \<Rightarrow> Some (Undefined w)
      else Some (Ret buf))"

partial_function (option) check_loop :: "char list \<Rightarrow> int \<Rightarrow> int \<Rightarrow> int \<Rightarrow> int run" where
  "check_loop buf ncmp nleft buflen =
     (if ncmp < buflen
      then let nb = (if ncmp < nleft then ncmp else nleft)
           in case memcmp buf 0 buf ncmp nb of
                Ret d \<Rightarrow> if d then Some (Ret (-1)) else check_loop buf (ncmp + nb) (nleft - nb) buflen
              | Exits n \<Rightarrow> Some (Exits n) | Aborts \<Rightarrow> Some Aborts | Undefined w \<Rightarrow> Some (Undefined w)
      else Some (Ret 0))"

declare fill_loop.simps [simp del] check_loop.simps [simp del]

text \<open>The buffer after the call; the returned number is always 0.\<close>

definition pattern_fill :: "char list \<Rightarrow> int \<Rightarrow> char list \<Rightarrow> int \<Rightarrow> int \<Rightarrow> char list run" where
  "pattern_fill buf buflen pat patlen patshift0 =
     (let patshift = pat_shift patlen patshift0; trans = patlen - patshift
      in if buflen < trans then Some (memcpy buf 0 pat patshift buflen)
         else bind_run (Some (memcpy buf 0 pat patshift trans)) (\<lambda>buf.
           let nleft = buflen - trans
           in if patshift > 0
              then if nleft < patshift then Some (memcpy buf trans pat 0 nleft)
                   else bind_run (Some (memcpy buf trans pat 0 patshift)) (\<lambda>buf.
                          fill_loop buf (trans + patshift) (nleft - patshift) buflen)
              else fill_loop buf trans nleft buflen))"

definition pattern_check :: "char list \<Rightarrow> int \<Rightarrow> char list \<Rightarrow> int \<Rightarrow> int \<Rightarrow> int run" where
  "pattern_check buf buflen pat patlen patshift0 =
     (let patshift = pat_shift patlen patshift0; nb = patlen - patshift
      in if buflen < nb
         then bind_run (Some (memcmp buf 0 pat patshift buflen)) (\<lambda>d. Some (Ret (if d then -1 else 0)))
         else bind_run (Some (memcmp buf 0 pat patshift nb)) (\<lambda>d.
           if d then Some (Ret (-1))
           else let nleft = buflen - nb
                in if patshift > 0
                   then if nleft < patshift
                        then bind_run (Some (memcmp buf nb pat 0 nleft)) (\<lambda>d. Some (Ret (if d then -1 else 0)))
                        else bind_run (Some (memcmp buf nb pat 0 patshift)) (\<lambda>d.
                          if d then Some (Ret (-1))
                          else check_loop buf (nb + patshift) (nleft - patshift) buflen)
                   else check_loop buf nb nleft buflen))"

subsection \<open>dataascii.c\<close>

text \<open>The default list is an array of 54 bytes: its terminating NUL counts.\<close>

definition CHARS :: "char list" where
  "CHARS = ''ABCDEFGHIJKLMNOPQRSTUVWXYZabcdefghjiklmnopqrstuvwxyz'' @ [NL, NUL]"

definition charlist :: "string option \<Rightarrow> char list" where
  "charlist listofchars = (case listofchars of None \<Rightarrow> CHARS | Some l \<Rightarrow> l)"

text \<open>\<open>charlist[cnt % chars_size]\<close>; a remainder by 0 and a negative index are undefined.\<close>

definition ascii_at :: "char list \<Rightarrow> int \<Rightarrow> char outcome" where
  "ascii_at cs cnt =
     (if cs = [] then Undefined ''division by zero''
      else let ind = tmod cnt (int (length cs))
           in if ind < 0 then Undefined ''read outside the object'' else Ret (cs ! nat ind))"

text \<open>The loops of both files: the byte for the file offset \<open>cnt\<close> is stored at, or compared with,
  the next place of the buffer.\<close>

fun gen_loop :: "(int \<Rightarrow> 'a outcome) \<Rightarrow> int \<Rightarrow> nat \<Rightarrow> 'a list \<Rightarrow> 'a list outcome" where
  "gen_loop f cnt 0 chr = Ret chr"
| "gen_loop f cnt (Suc n) [] = bind_outcome (f cnt) (\<lambda>_. Undefined ''write outside the object'')"
| "gen_loop f cnt (Suc n) (c # chr) =
     bind_outcome (f cnt) (\<lambda>b. bind_outcome (gen_loop f (cnt + 1) n chr) (\<lambda>chr. Ret (b # chr)))"

fun chk_loop :: "(int \<Rightarrow> 'a outcome) \<Rightarrow> int \<Rightarrow> nat \<Rightarrow> 'a list \<Rightarrow> int outcome" where
  "chk_loop f cnt 0 chr = Ret (-1)"
| "chk_loop f cnt (Suc n) [] = bind_outcome (f cnt) (\<lambda>_. Undefined ''read outside the object'')"
| "chk_loop f cnt (Suc n) (c # chr) =
     bind_outcome (f cnt) (\<lambda>b. if c \<noteq> b then Ret cnt else chk_loop f (cnt + 1) n chr)"

text \<open>\<open>total = offset + bsize\<close> may overflow.\<close>

definition dataasciigen :: "string option \<Rightarrow> char list \<Rightarrow> int \<Rightarrow> int \<Rightarrow> (int \<times> char list) outcome" where
  "dataasciigen listofchars buffer bsize offset =
     bind_outcome (int_of_expr (offset + bsize)) (\<lambda>total.
     bind_outcome (gen_loop (ascii_at (charlist listofchars)) offset (nat (total - offset)) buffer) (\<lambda>buffer.
     Ret (bsize, buffer)))"

definition dataasciichk :: "string option \<Rightarrow> char list \<Rightarrow> int \<Rightarrow> int \<Rightarrow> int outcome" where
  "dataasciichk listofchars buffer bsize offset =
     bind_outcome (int_of_expr (offset + bsize)) (\<lambda>total.
     chk_loop (ascii_at (charlist listofchars)) offset (nat (total - offset)) buffer)"

subsection \<open>databin.c\<close>

text \<open>\<open>memset\<close> takes its size as an unsigned number.\<close>

definition memset :: "'a list \<Rightarrow> 'a \<Rightarrow> int \<Rightarrow> 'a list outcome" where
  "memset buf c n =
     (if 0 \<le> n \<and> n \<le> int (length buf) then Ret (replicate (nat n) c @ drop (nat n) buf)
      else Undefined ''write outside the object'')"

text \<open>The counting pattern: \<open>(offset + ind) % 8 & 0177\<close>.\<close>

definition count_byte :: "int \<Rightarrow> 8 word outcome" where
  "count_byte pos = bind_outcome (int_of_expr pos) (\<lambda>p. Ret (word_of_int (tmod p 8 AND 127)))"

text \<open>\<open>rnd\<close> gives what the calls of \<open>rand ()\<close> return; they are numbered from \<open>offset\<close> on.\<close>

definition rand_byte :: "(int \<Rightarrow> int) \<Rightarrow> int \<Rightarrow> 8 word outcome" where
  "rand_byte rnd k = Ret (word_of_int (rnd k AND 127 OR 64))"

definition bin_const :: "char \<Rightarrow> 8 word" where
  "bin_const mode =
     (if mode = CHR ''c'' then 0xf0 else if mode = CHR ''o'' then 0xff else if mode = CHR ''z'' then 0 else 0x55)"

definition databingen ::
  "(int \<Rightarrow> int) \<Rightarrow> char \<Rightarrow> 8 word list \<Rightarrow> int \<Rightarrow> int \<Rightarrow> 8 word list outcome" where
  "databingen rnd mode buffer bsize offset =
     (if mode = CHR ''C'' then gen_loop count_byte offset (nat bsize) buffer
      else if mode = CHR ''r'' then gen_loop (rand_byte rnd) offset (nat bsize) buffer
      else memset buffer (bin_const mode) bsize)"

text \<open>The comparison with a constant byte computes \<open>offset + cnt\<close> only at a mismatch.\<close>

fun const_loop :: "8 word \<Rightarrow> int \<Rightarrow> nat \<Rightarrow> 8 word list \<Rightarrow> int outcome" where
  "const_loop e pos 0 chr = Ret (-1)"
| "const_loop e pos (Suc n) [] = Undefined ''read outside the object''"
| "const_loop e pos (Suc n) (c # chr) = (if c \<noteq> e then int_of_expr pos else const_loop e (pos + 1) n chr)"

definition databinchk :: "char \<Rightarrow> 8 word list \<Rightarrow> int \<Rightarrow> int \<Rightarrow> int outcome" where
  "databinchk mode buffer bsize offset =
     (if mode = CHR ''C'' then chk_loop count_byte offset (nat bsize) buffer
      else if mode = CHR ''r'' then Ret (-1)
      else const_loop (bin_const mode) offset (nat bsize) buffer)"

subsection \<open>The repeated pattern\<close>

text \<open>What a buffer of \<open>k\<close> bytes should hold: the pattern rotated left by \<open>s\<close> bytes, repeated.\<close>

definition repeated :: "char list \<Rightarrow> nat \<Rightarrow> nat \<Rightarrow> nat \<Rightarrow> char list" where
  "repeated pat m s k = map (\<lambda>i. pat ! ((i + s) mod m)) [0..<k]"

lemma length_repeated [simp]: "length (repeated pat m s k) = k"
  by (simp add: repeated_def)

lemma take_repeated [simp]: "take k (repeated pat m s n) = repeated pat m s (min k n)"
  by (simp add: repeated_def take_map take_upt min_def)

lemma repeated_add:
  assumes "m dvd n"
  shows "repeated pat m s (n + k) = repeated pat m s n @ repeated pat m s k"
proof -
  obtain q where q: "n = m * q" using assms by (elim dvdE)
  have "i + n + s = i + s + m * q" for i by (simp add: q)
  then have "(i + n + s) mod m = (i + s) mod m" for i by (simp only: mod_mult_self2)
  then have "map (\<lambda>i. pat ! ((i + s) mod m)) [n..<k + n] = repeated pat m s k"
    by (simp add: repeated_def map_add_upt [symmetric] comp_def)
  moreover have "[0..<n + k] = [0..<n] @ [n..<k + n]"
    using upt_add_eq_append [of 0 n k] by (simp only: add.commute)
  ultimately show ?thesis by (simp add: repeated_def)
qed

lemma repeated_head: "k + s \<le> m \<Longrightarrow> m \<le> length pat \<Longrightarrow> repeated pat m s k = take k (drop s pat)"
  by (auto simp: repeated_def add.commute intro!: nth_equalityI)

lemma repeated_wrap:
  assumes "k \<le> s" "m = w + s" "0 < w" "m \<le> length pat"
  shows "repeated pat m s (w + k) = repeated pat m s w @ take k pat"
proof (rule nth_equalityI)
  fix i assume i: "i < length (repeated pat m s (w + k))"
  show "repeated pat m s (w + k) ! i = (repeated pat m s w @ take k pat) ! i"
  proof (cases "i < w")
    case True
    then show ?thesis using i by (simp add: repeated_def nth_append)
  next
    case False
    then obtain j where j: "i = w + j" using le_Suc_ex not_less by blast
    then have "(i + s) mod m = (j + m) mod m" using assms(2) by (simp add: ac_simps)
    then have "(i + s) mod m = j" using i j assms(1,2,3) by simp
    then show ?thesis using j i by (simp add: repeated_def nth_append)
  qed
qed (use assms in simp)

lemma take_repeated_cut:
  assumes "take L b = repeated pat m s L" "k \<le> L"
  shows "take k b = repeated pat m s k"
proof -
  have "take k (take L b) = take k (repeated pat m s L)" by (simp only: assms(1))
  then show ?thesis using assms(2) by (simp add: min_absorb1)
qed

lemma mem_read_int:
  "k + n \<le> length b \<Longrightarrow> mem_read b (int k) (int n) = Ret (take n (drop k b))"
  by (simp add: mem_read_def)

lemma memcpy_append:
  assumes "soff + n \<le> length src" "n \<le> length r"
  shows "memcpy (p @ r) (int (length p)) src (int soff) (int n) = Ret (p @ take n (drop soff src) @ drop n r)"
  using assms by (simp add: memcpy_def mem_read_int mem_write_def nat_add_distrib flip: of_nat_add)

lemma memcmp_int:
  assumes "k + n \<le> length a" "l + n \<le> length b"
  shows "memcmp a (int k) b (int l) (int n) = Ret (take n (drop k a) \<noteq> take n (drop l b))"
  using assms by (simp add: memcmp_def mem_read_int)

lemma fill_loop_eq:
  assumes "0 < n" "m dvd n" "n \<le> L" "L \<le> length b0"
  shows "fill_loop (repeated pat m s n @ drop n b0) (int n) (int (L - n)) (int L)
           = Some (Ret (repeated pat m s L @ drop L b0))"
  using assms
proof (induction "L - n" arbitrary: n rule: less_induct)
  case less
  show ?case
  proof (cases "n < L")
    case False
    then show ?thesis using less.prems by (subst fill_loop.simps) simp
  next
    case True
    define t where "t = min n (L - n)"
    have t: "0 < t" "t \<le> n" "n + t \<le> L" using True less.prems(1) by (auto simp: t_def)
    have tr: "(if int n < int (L - n) then int n else int (L - n)) = int t" by (simp add: t_def)
    have sp: "repeated pat m s (n + t) = repeated pat m s n @ repeated pat m s t"
      using less.prems(2) by (rule repeated_add)
    have "memcpy (repeated pat m s n @ drop n b0) (int (length (repeated pat m s n)))
        (repeated pat m s n @ drop n b0) (int 0) (int t)
        = Ret (repeated pat m s n @ take t (drop 0 (repeated pat m s n @ drop n b0)) @ drop t (drop n b0))"
      using t less.prems(3,4) by (intro memcpy_append) auto
    then have c: "memcpy (repeated pat m s n @ drop n b0) (int n) (repeated pat m s n @ drop n b0) 0 (int t)
        = Ret (repeated pat m s (n + t) @ drop (n + t) b0)"
      using t by (simp add: sp min_absorb1 add.commute)
    have "fill_loop (repeated pat m s (n + t) @ drop (n + t) b0) (int (n + t)) (int (L - (n + t))) (int L)
        = Some (Ret (repeated pat m s L @ drop L b0))"
    proof (cases "n + t = L")
      case True
      then show ?thesis by (subst fill_loop.simps) simp
    next
      case False
      then have "t = n" using True by (auto simp: t_def min_def split: if_splits)
      then show ?thesis using less.hyps [of "n + t"] less.prems t by simp
    qed
    moreover have "int (L - n) - int t = int (L - (n + t))" using t by simp
    ultimately show ?thesis using True by (subst fill_loop.simps) (simp only: tr Let_def c, simp)
  qed
qed

lemma check_loop_eq:
  assumes "0 < n" "m dvd n" "n \<le> L" "L \<le> length b" "take n b = repeated pat m s n"
  shows "check_loop b (int n) (int (L - n)) (int L) = Some (Ret (if take L b = repeated pat m s L then 0 else -1))"
  using assms
proof (induction "L - n" arbitrary: n rule: less_induct)
  case less
  show ?case
  proof (cases "n < L")
    case False
    then show ?thesis using less.prems by (subst check_loop.simps) simp
  next
    case True
    define t where "t = min n (L - n)"
    have t: "0 < t" "t \<le> n" "n + t \<le> L" using True less.prems(1) by (auto simp: t_def)
    have tr: "(if int n < int (L - n) then int n else int (L - n)) = int t" by (simp add: t_def)
    have sp: "repeated pat m s (n + t) = repeated pat m s n @ repeated pat m s t"
      using less.prems(2) by (rule repeated_add)
    have hd: "take t b = repeated pat m s t" by (rule take_repeated_cut [OF less.prems(5) t(2)])
    have tk: "take (n + t) b = take n b @ take t (drop n b)" by (simp add: take_add)
    have c: "memcmp b 0 b (int n) (int t) = Ret (take t b \<noteq> take t (drop n b))"
      using memcmp_int [of 0 t b n b] t less.prems(4) by simp
    have eq: "(take t b \<noteq> take t (drop n b)) = (take (n + t) b \<noteq> repeated pat m s (n + t))"
      using less.prems(5) by (auto simp: tk sp hd)
    have bad: "take L b \<noteq> repeated pat m s L" if "take (n + t) b \<noteq> repeated pat m s (n + t)"
      using take_repeated_cut [OF _ t(3)] that by blast
    have "check_loop b (int (n + t)) (int (L - (n + t))) (int L)
        = Some (Ret (if take L b = repeated pat m s L then 0 else -1))"
      if ok: "take (n + t) b = repeated pat m s (n + t)"
    proof (cases "n + t = L")
      case True
      then show ?thesis using ok by (subst check_loop.simps) simp
    next
      case False
      then have "t = n" using True by (auto simp: t_def min_def split: if_splits)
      then show ?thesis using less.hyps [of "n + t"] less.prems t ok by simp
    qed
    moreover have "int (L - n) - int t = int (L - (n + t))" using t by simp
    ultimately show ?thesis using True bad
      by (subst check_loop.simps) (simp only: tr Let_def c eq, simp)
  qed
qed
lemma pat_shift_nat: "0 < m \<Longrightarrow> pat_shift (int m) (int s) = int (s mod m)"
  by (simp add: pat_shift_def tmod_pos zmod_int)

text \<open>The three cases of both functions: the buffer ends in the first part of the rotated pattern, in
  its second part, or after it.\<close>

lemma split_pattern:
  assumes "0 < m"
  obtains w s where "s = s0 mod m" "m = w + s" "0 < w" "pat_shift (int m) (int s0) = int s"
proof
  show "m = (m - s0 mod m) + s0 mod m" "0 < m - s0 mod m" using assms by simp_all
qed (use assms in \<open>simp_all add: pat_shift_nat\<close>)

lemma split_length:
  fixes L w s :: nat
  obtains (short) "L < w" | (middle) r where "L = w + r" "r < s" | (long) r where "L = w + s + r"
proof -
  consider "L < w" | "w \<le> L" "L < w + s" | "w + s \<le> L" by linarith
  then show thesis
  proof cases
    case 2
    then show thesis using middle [of "L - w"] by simp
  next
    case 3
    then show thesis using long [of "L - (w + s)"] by simp
  qed (rule short)
qed

lemma pattern_fill_eq:
  assumes "0 < m" "m \<le> length pat" "L \<le> length buf"
  shows "pattern_fill buf (int L) pat (int m) (int s0) = Some (Ret (repeated pat m (s0 mod m) L @ drop L buf))"
proof -
  obtain w s where s: "s = s0 mod m" "m = w + s" "0 < w" "pat_shift (int m) (int s0) = int s"
    using split_pattern [OF assms(1)] .
  have tr: "int m - int s = int w" using s(2) by simp
  have c1: "memcpy buf 0 pat (int s) (int k) = Ret (repeated pat m s k @ drop k buf)"
    if "k \<le> w" "k \<le> L" for k
    using memcpy_append [of s k pat buf "[]"] that assms(2,3) s(2) by (simp add: repeated_head)
  have c2: "memcpy (repeated pat m s w @ drop w buf) (int w) pat 0 (int k)
      = Ret (repeated pat m s (w + k) @ drop (w + k) buf)" if "k \<le> s" "w + k \<le> L" for k
    unfolding repeated_wrap [OF that(1) s(2,3) assms(2)]
    using memcpy_append [of 0 k pat "drop w buf" "repeated pat m s w"] that assms(2,3) s(2) by (simp add: add.commute)
  have lp: "fill_loop (repeated pat m s m @ drop m buf) (int m) (int (L - m)) (int L)
      = Some (Ret (repeated pat m s L @ drop L buf))" if "m \<le> L"
    using fill_loop_eq [of m m L buf pat s] that assms by simp
  show ?thesis
  proof (cases rule: split_length [where L = L and w = w and s = s])
    case short
    then show ?thesis by (simp add: pattern_fill_def Let_def s(4) tr c1 flip: s(1))
  next
    case (middle r)
    then show ?thesis using c1 [of w] c2 [of r] by (simp add: pattern_fill_def Let_def s(4) tr flip: s(1))
  next
    case (long r)
    then have L: "w \<le> L" "w + s \<le> L" "m \<le> L" using s(2) by simp_all
    have e: "\<not> int L < int w" "\<not> int L - int w < int s" "int w + int s = int m" "w + s = m"
      "int L - int w - int s = int (L - m)" "s = 0 \<Longrightarrow> int L - int w = int (L - m)" "s = 0 \<Longrightarrow> w = m"
      using L s(2) by simp_all
    note st = pattern_fill_def Let_def s(4) s(1) [symmetric] tr e(1) if_False if_True c1 [OF order_refl L(1)] bind_run.simps
    show ?thesis
    proof (cases "s = 0")
      case True
      have "fill_loop (repeated pat m s w @ drop w buf) (int w) (int L - int w) (int L)
          = Some (Ret (repeated pat m s L @ drop L buf))"
        using lp [OF L(3)] L(3) e(7) [OF True] by (simp add: of_nat_diff)
      moreover have "\<not> 0 < int s" using True by simp
      ultimately show ?thesis by (simp only: st)
    next
      case False
      then have "0 < int s" by simp
      then show ?thesis using c2 [OF order_refl L(2)] lp [OF L(3)] by (simp only: st e(2-5))
    qed
  qed
qed

text \<open>The steps of the check in terms of the repeated pattern: the rotated tail of the pattern, its head,
  and the two together.\<close>

lemma memcmp_head:
  assumes "k \<le> w" "k \<le> length buf" "m = w + s" "m \<le> length pat"
  shows "memcmp buf 0 pat (int s) (int k) = Ret (take k buf \<noteq> repeated pat m s k)"
  using memcmp_int [of 0 k buf s pat] assms by (simp add: repeated_head)

lemma memcmp_wrap:
  assumes "k \<le> s" "w + k \<le> length buf" "m = w + s" "m \<le> length pat"
  shows "memcmp buf (int w) pat 0 (int k) = Ret (take k (drop w buf) \<noteq> take k pat)"
  using memcmp_int [of w k buf 0 pat] assms by simp

lemma take_wrap_iff:
  assumes "k \<le> s" "w + k \<le> length buf" "m = w + s" "0 < w" "m \<le> length pat"
  shows "take (w + k) buf = repeated pat m s (w + k) \<longleftrightarrow>
      take w buf = repeated pat m s w \<and> take k (drop w buf) = take k pat"
  using repeated_wrap [OF assms(1,3,4,5)] assms(2) by (simp add: take_add)

lemma pattern_check_long:
  assumes "m \<le> L" "m \<le> length pat" "L \<le> length buf"
    and s: "s = s0 mod m" "m = w + s" "0 < w" "pat_shift (int m) (int s0) = int s"
  shows "pattern_check buf (int L) pat (int m) (int s0) = Some (Ret (if take L buf = repeated pat m s L then 0 else -1))"
proof -
  have e: "int m - int s = int w" "\<not> int L < int w" "\<not> int L - int w < int s" "int w + int s = int m"
    "int L - int w - int s = int (L - m)" "s = 0 \<Longrightarrow> w = m"
    using s(2) assms(1) by simp_all
  have c1: "memcmp buf 0 pat (int s) (int w) = Ret (take w buf \<noteq> repeated pat m s w)"
    using assms(1,3) s(2) by (intro memcmp_head [OF order_refl _ s(2) assms(2)]) simp
  have ws: "w + s \<le> length buf" using assms(1,3) s(2) by simp
  have c2: "memcmp buf (int w) pat 0 (int s) = Ret (take s (drop w buf) \<noteq> take s pat)"
    using ws by (intro memcmp_wrap [OF order_refl _ s(2) assms(2)])
  have j: "take m buf = repeated pat m s m \<longleftrightarrow> take w buf = repeated pat m s w \<and> take s (drop w buf) = take s pat"
    using take_wrap_iff [OF order_refl ws s(2,3) assms(2)] s(2) by simp
  have cut: "take L buf = repeated pat m s L \<Longrightarrow> take m buf = repeated pat m s m"
    by (rule take_repeated_cut [OF _ assms(1)])
  have lp: "check_loop buf (int m) (int (L - m)) (int L) = Some (Ret (if take L buf = repeated pat m s L then 0 else -1))"
    if "take m buf = repeated pat m s m" using check_loop_eq [of m m L buf pat s] that assms(1-3) s(2,3) by simp
  note st = pattern_check_def Let_def s(4) s(1) [symmetric] e(1,2) if_False if_True c1 bind_run.simps
  consider (head) "take w buf \<noteq> repeated pat m s w" | (none) "take w buf = repeated pat m s w" "s = 0"
    | (tail) "take w buf = repeated pat m s w" "0 < int s" by fastforce
  then show ?thesis
  proof cases
    case head
    then have "take L buf \<noteq> repeated pat m s L" using cut j by blast
    with head show ?thesis by (simp only: st simp_thms)
  next
    case none
    have w: "w = m" by (rule e(6) [OF none(2)])
    have "check_loop buf (int w) (int L - int w) (int L) = Some (Ret (if take L buf = repeated pat m s L then 0 else -1))"
      using lp none(1) assms(1) unfolding w by (simp add: of_nat_diff)
    moreover have "\<not> 0 < int s" using none by simp
    ultimately show ?thesis using none(1) by (simp only: st simp_thms)
  next
    case tail
    show ?thesis
    proof (cases "take s (drop w buf) = take s pat")
      case True
      then show ?thesis using lp j tail c2 by (simp only: st e(3-5) simp_thms)
    next
      case False
      then have "take L buf \<noteq> repeated pat m s L" using cut j by blast
      then show ?thesis using False tail c2 by (simp only: st e(3) simp_thms)
    qed
  qed
qed

lemma pattern_check_eq:
  assumes "0 < m" "m \<le> length pat" "L \<le> length buf"
  shows "pattern_check buf (int L) pat (int m) (int s0)
           = Some (Ret (if take L buf = repeated pat m (s0 mod m) L then 0 else -1))"
proof -
  obtain w s where s: "s = s0 mod m" "m = w + s" "0 < w" "pat_shift (int m) (int s0) = int s"
    using split_pattern [OF assms(1)] .
  have tr: "int m - int s = int w" using s(2) by simp
  have c1: "memcmp buf 0 pat (int s) (int k) = Ret (take k buf \<noteq> repeated pat m s k)" if "k \<le> w" "k \<le> L" for k
    using memcmp_head [of k w buf m s pat] that assms(2,3) s(2) by simp
  have c2: "memcmp buf (int w) pat 0 (int k) = Ret (take k (drop w buf) \<noteq> take k pat)"
    if "k \<le> s" "w + k \<le> L" for k using memcmp_wrap [of k s w buf m pat] that assms(2,3) s(2) by simp
  show ?thesis
  proof (cases rule: split_length [where L = L and w = w and s = s])
    case short
    then show ?thesis by (simp add: pattern_check_def Let_def s(4) tr c1 flip: s(1))
  next
    case (middle r)
    then have "take (w + r) buf = repeated pat m s (w + r) \<longleftrightarrow>
        take w buf = repeated pat m s w \<and> take r (drop w buf) = take r pat"
      using take_wrap_iff [of r s w buf m pat] s(2,3) assms by simp
    then show ?thesis using middle c1 [of w] c2 [of r] by (simp add: pattern_check_def Let_def s(4) tr flip: s(1))
  next
    case (long r)
    then have "m \<le> L" using s(2) by simp
    then show ?thesis using pattern_check_long [OF _ assms(2,3) s] by (simp only: s(1) [symmetric])
  qed
qed

text \<open>With an empty pattern the doubling loop makes no progress.\<close>

lemma fill_loop_stuck: "0 < L \<Longrightarrow> 0 \<le> l \<Longrightarrow> fill_loop b 0 l L = None"
proof -
  have "n = 0 \<longrightarrow> L \<le> 0 \<or> l < 0" if "fill_loop b n l L = Some y" for b n l L y
    using that
  proof (rule fill_loop.raw_induct [rotated])
    fix f :: "char list \<Rightarrow> int \<Rightarrow> int \<Rightarrow> int \<Rightarrow> char list run" and b n l L y
    assume ih: "\<And>b n l L y. f b n l L = Some y \<Longrightarrow> n = 0 \<longrightarrow> L \<le> 0 \<or> l < 0"
      and st: "(if n < L
         then let trans = if n < l then n else l
              in case memcpy b n b 0 trans of Ret buf' \<Rightarrow> f buf' (n + trans) (l - trans) L
                 | Exits n \<Rightarrow> Some (Exits n) | Aborts \<Rightarrow> Some Aborts | Undefined w \<Rightarrow> Some (Undefined w)
         else Some (Ret b)) = Some y"
    show "n = 0 \<longrightarrow> L \<le> 0 \<or> l < 0"
    proof (intro impI, rule ccontr)
      assume n: "n = 0" and g: "\<not> (L \<le> 0 \<or> l < 0)"
      then have "memcpy b 0 b 0 0 = Ret b" by (simp add: memcpy_def mem_read_def mem_write_def)
      then have "f b 0 l L = Some y" using st n g by (cases "0 < l") auto
      then show False using ih [of b 0 l L y] g by simp
    qed
  qed
  then show "0 < L \<Longrightarrow> 0 \<le> l \<Longrightarrow> fill_loop b 0 l L = None" by (cases "fill_loop b 0 l L") fastforce+
qed
subsection \<open>Generators and checkers\<close>

text \<open>The contract of a generator and its checker: at every offset from 0 on there is one expected
  byte, and the checker reports the offset of the first byte that differs from it.\<close>

locale data_pair =
  fixes gen :: "'a list \<Rightarrow> nat \<Rightarrow> nat \<Rightarrow> 'a list outcome"
    and chk :: "'a list \<Rightarrow> nat \<Rightarrow> nat \<Rightarrow> int outcome"
    and expected :: "nat \<Rightarrow> 'a"
    and fits :: "nat \<Rightarrow> nat \<Rightarrow> bool"
  assumes gen_fills: "fits n off \<Longrightarrow> n \<le> length buf \<Longrightarrow>
      gen buf n off = Ret (map expected [off..<off + n] @ drop n buf)"
    and chk_first: "fits n off \<Longrightarrow> n \<le> length buf \<Longrightarrow>
      chk buf n off = Ret (case first_index (\<lambda>(b, e). b \<noteq> e) (zip (take n buf) (map expected [off..<off + n]))
        of None \<Rightarrow> -1 | Some i \<Rightarrow> int (off + i))"
begin

lemma first_diff_None:
  "length xs = length ys \<Longrightarrow> first_index (\<lambda>(b, e). b \<noteq> e) (zip xs ys) = None \<longleftrightarrow> xs = ys"
  by (induction xs ys rule: list_induct2) auto

lemma chk_accepts:
  assumes "fits n off" "n \<le> length buf"
  shows "chk buf n off = Ret (-1) \<longleftrightarrow> take n buf = map expected [off..<off + n]"
proof -
  have "length (take n buf) = length (map expected [off..<off + n])" using assms(2) by simp
  from first_diff_None [OF this] show ?thesis unfolding chk_first [OF assms]
    by (cases "first_index (\<lambda>(b, e). b \<noteq> e) (zip (take n buf) (map expected [off..<off + n]))") simp_all
qed

lemma chk_gen:
  assumes "fits n off" "n \<le> length buf"
  shows "\<exists>buf'. gen buf n off = Ret buf' \<and> length buf' = length buf \<and> chk buf' n off = Ret (-1)"
  using assms gen_fills [OF assms] chk_accepts [of n off "map expected [off..<off + n] @ drop n buf"] by auto

lemma chk_reports:
  assumes "fits n off" "n \<le> length buf" "i < n"
    and "take i buf = map expected [off..<off + i]" "buf ! i \<noteq> expected (off + i)"
  shows "chk buf n off = Ret (int (off + i))"
proof -
  let ?z = "zip (take n buf) (map expected [off..<off + n])"
  have sp: "?z = take i ?z @ (buf ! i, expected (off + i)) # drop (Suc i) ?z"
    using assms(2,3) by (subst id_take_nth_drop [of i]) (simp_all add: nth_take)
  have "take i ?z = zip (take i buf) (map expected [off..<off + i])"
    using assms(3) by (simp add: take_zip take_map take_upt min_def)
  then have "\<forall>p \<in> set (take i ?z). \<not> (case p of (b, e) \<Rightarrow> b \<noteq> e)"
    using assms(4) by (auto simp: set_zip)
  then have "first_index (\<lambda>(b, e). b \<noteq> e) (take i ?z @ (buf ! i, expected (off + i)) # drop (Suc i) ?z)
      = Some (length (take i ?z))"
    using assms(5) by (intro first_index_append) auto
  moreover have "length (take i ?z) = i" using assms(2,3) by simp
  ultimately show ?thesis unfolding chk_first [OF assms(1,2)] using sp by simp
qed

end
lemma gen_loop_eq:
  assumes "\<forall>k < n. f (int (off + k)) = Ret (g (off + k))" "n \<le> length buf"
  shows "gen_loop f (int off) n buf = Ret (map g [off..<off + n] @ drop n buf)"
  using assms
proof (induction n arbitrary: off buf)
  case (Suc n)
  then obtain b bs where b: "buf = b # bs" by (cases buf) auto
  have "\<forall>k < n. f (int (Suc off + k)) = Ret (g (Suc off + k))"
    using Suc.prems(1) by (metis Suc_less_eq add_Suc add_Suc_right)
  then have "gen_loop f (int (Suc off)) n bs = Ret (map g [Suc off..<Suc off + n] @ drop n bs)"
    using Suc.IH [of "Suc off" bs] Suc.prems(2) b by simp
  moreover have "f (int off) = Ret (g off)" using Suc.prems(1) [rule_format, of 0] by simp
  moreover have "[off..<off + Suc n] = off # [Suc off..<Suc off + n]" by (simp add: upt_conv_Cons)
  ultimately show ?case by (simp add: b add.commute)
qed simp

lemma chk_loop_eq:
  assumes "\<forall>k < n. f (int (off + k)) = Ret (g (off + k))" "n \<le> length buf"
  shows "chk_loop f (int off) n buf = Ret (case first_index (\<lambda>(b, e). b \<noteq> e)
     (zip (take n buf) (map g [off..<off + n])) of None \<Rightarrow> -1 | Some i \<Rightarrow> int (off + i))"
  using assms
proof (induction n arbitrary: off buf)
  case (Suc n)
  then obtain b bs where b: "buf = b # bs" by (cases buf) auto
  have "\<forall>k < n. f (int (Suc off + k)) = Ret (g (Suc off + k))"
    using Suc.prems(1) by (metis Suc_less_eq add_Suc add_Suc_right)
  then have "chk_loop f (int (Suc off)) n bs = Ret (case first_index (\<lambda>(b, e). b \<noteq> e)
     (zip (take n bs) (map g [Suc off..<Suc off + n])) of None \<Rightarrow> -1 | Some i \<Rightarrow> int (Suc off + i))"
    using Suc.IH [of "Suc off" bs] Suc.prems(2) b by simp
  moreover have "f (int off) = Ret (g off)" using Suc.prems(1) [rule_format, of 0] by simp
  moreover have "[off..<off + Suc n] = off # [Suc off..<Suc off + n]" by (simp add: upt_conv_Cons)
  ultimately show ?case by (auto simp: b add.commute split: option.split)
qed simp

lemma const_loop_eq:
  assumes "n \<le> length buf" "int (off + n) \<le> INT_MAX"
  shows "const_loop e (int off) n buf = Ret (case first_index (\<lambda>(b, e). b \<noteq> e)
     (zip (take n buf) (map (\<lambda>_. e) [off..<off + n])) of None \<Rightarrow> -1 | Some i \<Rightarrow> int (off + i))"
  using assms
proof (induction n arbitrary: off buf)
  case (Suc n)
  then obtain b bs where b: "buf = b # bs" by (cases buf) auto
  have "const_loop e (int (Suc off)) n bs = Ret (case first_index (\<lambda>(b, e). b \<noteq> e)
     (zip (take n bs) (map (\<lambda>_. e) [Suc off..<Suc off + n])) of None \<Rightarrow> -1 | Some i \<Rightarrow> int (Suc off + i))"
    using Suc.IH [of bs "Suc off"] Suc.prems b by simp
  moreover have "int_of_expr (int off) = Ret (int off)" using Suc.prems(2) by (simp add: int_of_expr_def int_limits)
  moreover have "[off..<off + Suc n] = off # [Suc off..<Suc off + n]" by (simp add: upt_conv_Cons)
  ultimately show ?case by (auto simp: b add.commute split: option.split)
qed simp

definition offsets_fit :: "nat \<Rightarrow> nat \<Rightarrow> bool" where
  "offsets_fit n off \<longleftrightarrow> int (off + n) \<le> INT_MAX"

lemma ascii_at_ret: "cs \<noteq> [] \<Longrightarrow> ascii_at cs (int k) = Ret (cs ! (k mod length cs))"
  by (simp add: ascii_at_def tmod_pos Let_def flip: zmod_int)

lemma ascii_pair:
  assumes "charlist l \<noteq> []"
  shows "data_pair (\<lambda>buf n off. bind_outcome (dataasciigen l buf (int n) (int off)) (\<lambda>(_, b). Ret b))
    (\<lambda>buf n off. dataasciichk l buf (int n) (int off)) (\<lambda>k. charlist l ! (k mod length (charlist l))) offsets_fit"
proof
  fix n off :: nat and buf :: "char list"
  assume "offsets_fit n off" and n: "n \<le> length buf"
  then have t: "int_of_expr (int off + int n) = Ret (int off + int n)"
    by (simp add: offsets_fit_def int_of_expr_def int_limits)
  have a: "\<forall>k < n. ascii_at (charlist l) (int (off + k)) = Ret (charlist l ! ((off + k) mod length (charlist l)))"
    using assms by (intro allI impI ascii_at_ret)
  show "bind_outcome (dataasciigen l buf (int n) (int off)) (\<lambda>(_, b). Ret b)
      = Ret (map (\<lambda>k. charlist l ! (k mod length (charlist l))) [off..<off + n] @ drop n buf)"
    using gen_loop_eq [OF a n] t by (simp add: dataasciigen_def)
  show "dataasciichk l buf (int n) (int off) = Ret (case first_index (\<lambda>(b, e). b \<noteq> e)
      (zip (take n buf) (map (\<lambda>k. charlist l ! (k mod length (charlist l))) [off..<off + n]))
        of None \<Rightarrow> -1 | Some i \<Rightarrow> int (off + i))"
    using chk_loop_eq [OF a n] t by (simp add: dataasciichk_def)
qed

interpretation ascii: data_pair "\<lambda>buf n off. bind_outcome (dataasciigen None buf (int n) (int off)) (\<lambda>(_, b). Ret b)"
    "\<lambda>buf n off. dataasciichk None buf (int n) (int off)" "\<lambda>k. charlist None ! (k mod length (charlist None))" offsets_fit
  by (rule ascii_pair) (simp add: charlist_def CHARS_def)

definition bin_expected :: "char \<Rightarrow> nat \<Rightarrow> 8 word" where
  "bin_expected mode k = (if mode = CHR ''C'' then of_nat (k mod 8) else bin_const mode)"

lemma count_byte_ret: "int k \<le> INT_MAX \<Longrightarrow> count_byte (int k) = Ret (of_nat (k mod 8))"
proof -
  assume k: "int k \<le> INT_MAX"
  have "int (k mod 8) AND 127 = take_bit 7 (int (k mod 8))" by (simp add: take_bit_eq_mask mask_eq_exp_minus_1)
  also have "\<dots> = int (k mod 8)" by (intro take_bit_int_eq_self) (auto simp: zmod_int)
  finally have "tmod (int k) 8 AND 127 = int (k mod 8)" by (simp add: tmod_pos zmod_int)
  then show ?thesis using k by (simp add: count_byte_def int_of_expr_def int_limits)
qed

lemma bin_pair:
  assumes "mode \<noteq> CHR ''r''"
  shows "data_pair (\<lambda>buf n off. databingen rnd mode buf (int n) (int off))
    (\<lambda>buf n off. databinchk mode buf (int n) (int off)) (bin_expected mode) offsets_fit"
proof
  fix n off :: nat and buf :: "8 word list"
  assume f: "offsets_fit n off" and n: "n \<le> length buf"
  have c: "\<forall>k < n. count_byte (int (off + k)) = Ret (of_nat ((off + k) mod 8))"
    using f by (intro allI impI count_byte_ret) (simp add: offsets_fit_def)
  have rep: "replicate n x = map (\<lambda>_. x) [off..<off + n]" for x :: "8 word"
    by (simp add: map_replicate_const)
  have e: "bin_expected mode = (if mode = CHR ''C'' then (\<lambda>k. of_nat (k mod 8)) else (\<lambda>_. bin_const mode))"
    by (auto simp: bin_expected_def)
  show "databingen rnd mode buf (int n) (int off) = Ret (map (bin_expected mode) [off..<off + n] @ drop n buf)"
    using assms gen_loop_eq [OF c n] n rep [of "bin_const mode"] by (auto simp: databingen_def e memset_def)
  show "databinchk mode buf (int n) (int off) = Ret (case first_index (\<lambda>(b, e). b \<noteq> e)
      (zip (take n buf) (map (bin_expected mode) [off..<off + n])) of None \<Rightarrow> -1 | Some i \<Rightarrow> int (off + i))"
    using assms chk_loop_eq [OF c n] const_loop_eq [OF n f [unfolded offsets_fit_def], of "bin_const mode"]
    by (auto simp: databinchk_def e)
qed

interpretation counting: data_pair "\<lambda>buf n off. databingen rnd (CHR ''C'') buf (int n) (int off)"
    "\<lambda>buf n off. databinchk (CHR ''C'') buf (int n) (int off)" "bin_expected (CHR ''C'')" offsets_fit for rnd
  by (rule bin_pair) simp

subsection \<open>Properties\<close>



text \<open>What \<open>dataasciigen\<close> writes is accepted by \<open>dataasciichk\<close>, for the default and for every
  other list of characters that is not empty, and the first byte that was changed afterwards is
  reported by its offset in the file.\<close>

theorem dataascii_detects:
  assumes "charlist l \<noteq> []" "int (off + n) \<le> INT_MAX" "n \<le> length buf"
  shows "\<exists>buf'. dataasciigen l buf (int n) (int off) = Ret (int n, buf') \<and> length buf' = length buf
       \<and> dataasciichk l buf' (int n) (int off) = Ret (-1)
       \<and> (\<forall>i < n. \<forall>c. c \<noteq> buf' ! i \<longrightarrow> dataasciichk l (buf'[i := c]) (int n) (int off) = Ret (int (off + i)))"
proof -
  let ?e = "\<lambda>k. charlist l ! (k mod length (charlist l))" and ?b = "map (\<lambda>k. charlist l ! (k mod length (charlist l))) [off..<off + n] @ drop n buf"
  note p = ascii_pair [OF assms(1)]
  have f: "offsets_fit n off" using assms(2) by (simp add: offsets_fit_def)
  have g: "dataasciigen l buf (int n) (int off) = Ret (int n, ?b)"
    using data_pair.gen_fills [OF p f assms(3)]
    by (cases "dataasciigen l buf (int n) (int off)")
      (auto simp: dataasciigen_def outcome_simps)
  have k: "dataasciichk l ?b (int n) (int off) = Ret (-1)"
    using data_pair.chk_accepts [OF p f, of ?b] assms(3) by simp
  have "dataasciichk l (?b[i := c]) (int n) (int off) = Ret (int (off + i))" if "i < n" "c \<noteq> ?b ! i" for i c
    using data_pair.chk_reports [OF p f, of "?b[i := c]" i] that assms(3)
    by (simp add: take_map take_upt nth_append list_update_append take_update_cancel)
  then show ?thesis using g k assms(3) by (intro exI [of _ ?b]) auto
qed

theorem dataascii_detects_witness:
  "\<exists>buf'. dataasciigen None ''0123456789'' 10 3 = Ret (10, buf') \<and> length buf' = 10
     \<and> dataasciichk None buf' 10 3 = Ret (-1)"
  using dataascii_detects [of None 3 10 "''0123456789''"] by (auto simp: charlist_def CHARS_def int_limits)

text \<open>The same for the binary patterns of \<open>databin.c\<close>, in every mode but the random one.\<close>

theorem databin_detects:
  assumes "mode \<noteq> CHR ''r''" "int (off + n) \<le> INT_MAX" "n \<le> length buf"
  shows "\<exists>buf'. databingen rnd mode buf (int n) (int off) = Ret buf' \<and> length buf' = length buf
       \<and> databinchk mode buf' (int n) (int off) = Ret (-1)
       \<and> (\<forall>i < n. \<forall>c. c \<noteq> buf' ! i \<longrightarrow> databinchk mode (buf'[i := c]) (int n) (int off) = Ret (int (off + i)))"
proof -
  let ?b = "map (bin_expected mode) [off..<off + n] @ drop n buf"
  note p = bin_pair [OF assms(1), of rnd]
  have f: "offsets_fit n off" using assms(2) by (simp add: offsets_fit_def)
  have k: "databinchk mode ?b (int n) (int off) = Ret (-1)"
    using data_pair.chk_accepts [OF p f, of ?b] assms(3) by simp
  have "databinchk mode (?b[i := c]) (int n) (int off) = Ret (int (off + i))" if "i < n" "c \<noteq> ?b ! i" for i c
    using data_pair.chk_reports [OF p f, of "?b[i := c]" i] that assms(3)
    by (simp add: take_map take_upt nth_append list_update_append take_update_cancel)
  then show ?thesis using data_pair.gen_fills [OF p f assms(3)] k assms(3) by (intro exI [of _ ?b]) auto
qed

theorem databin_detects_witness:
  "\<exists>buf'. databingen (\<lambda>_. 0) (CHR ''C'') [1, 2, 3, 4] 4 6 = Ret buf' \<and> length buf' = 4
     \<and> databinchk (CHR ''C'') buf' 4 6 = Ret (-1)"
  using databin_detects [of "CHR ''C''" 6 4 "[1, 2, 3, 4]" "\<lambda>_. 0"] by (auto simp: int_limits)

end
