(* ===== verification/Doio_Text.thy ===== *)
theory Doio_Text
  imports Splitstr
begin

section \<open>Token lists and open flags\<close>

text \<open>
  \<open>string_to_tokens.c\<close> and \<open>open_flags.c\<close> of \<open>testcases/kernel/fs/doio\<close>.  The array that receives
  the tokens is a list of its elements; a store behind its end is undefined behaviour.  The flags
  have their values of Linux on x86-64, where \<open>_LARGEFILE64_SOURCE\<close> (set by the Makefile) defines
  \<open>O_LARGEFILE\<close> as 0 and the flags that need \<open>_GNU_SOURCE\<close> do not exist.
\<close>

unbundle bit_operations_syntax

subsection \<open>string_to_tokens\<close>

definition store :: "'a list \<Rightarrow> nat \<Rightarrow> 'a \<Rightarrow> 'a list outcome" where
  "store a i x = (if i < length a then Ret (a[i := x]) else Undefined ''write outside the array'')"

text \<open>The \<open>for\<close> loop: the tokens that the remaining calls of \<open>strtok\<close> return.\<close>

fun token_loop ::
  "nat \<Rightarrow> nat \<Rightarrow> string list \<Rightarrow> string option list \<Rightarrow> (nat \<times> string option list) outcome" where
  "token_loop array_size num_toks [] arr =
     (if num_toks < array_size then bind_outcome (store arr num_toks None) (\<lambda>arr. Ret (num_toks, arr))
      else Ret (num_toks, arr))"
| "token_loop array_size num_toks (t # ts) arr =
     (if num_toks < array_size
      then bind_outcome (store arr num_toks (Some t)) (token_loop array_size (num_toks + 1) ts)
      else Ret (num_toks, arr))"

text \<open>\<open>arg_array\<close> is \<open>None\<close> for a null pointer, as is \<open>separator\<close>.\<close>

definition string_to_tokens ::
  "string \<Rightarrow> string option list option \<Rightarrow> int \<Rightarrow> string option \<Rightarrow> (int \<times> string option list option) outcome" where
  "string_to_tokens arg_string arg_array array_size separator =
     (case (arg_array, separator) of
        (Some arr, Some sep) \<Rightarrow>
          if array_size \<le> 1 then Ret (-1, Some arr)
          else (case strtok_all (\<lambda>c. c \<in> set sep) arg_string of
             [] \<Rightarrow> bind_outcome (store arr 0 None) (\<lambda>arr. Ret (0, Some arr))
           | t # ts \<Rightarrow>
               bind_outcome (store arr 0 (Some t)) (\<lambda>arr.
               bind_outcome (token_loop (nat array_size) 1 ts arr) (\<lambda>(num_toks, arr).
               bind_outcome (if num_toks = nat array_size then store arr num_toks None else Ret arr) (\<lambda>arr.
               Ret (int num_toks, Some arr)))))
      | _ \<Rightarrow> Ret (-1, arg_array))"

subsection \<open>open_flags.c\<close>

definition Open_flags :: "(string \<times> 32 word) list" where
  "Open_flags =
    [(''O_RDONLY'', 0), (''O_WRONLY'', 1), (''O_RDWR'', 2), (''O_SYNC'', 0x101000), (''O_CREAT'', 0x40),
     (''O_TRUNC'', 0x200), (''O_EXCL'', 0x80), (''O_APPEND'', 0x400), (''O_NONBLOCK'', 0x800),
     (''O_NOCTTY'', 0x100), (''O_DSYNC'', 0x1000), (''O_RSYNC'', 0x101000), (''O_ASYNC'', 0x2000),
     (''O_NDELAY'', 0x800), (''O_LARGEFILE'', 0)]"

text \<open>The search for one name: the first entry with that symbol.\<close>

definition find_flag :: "(string \<times> 32 word) list \<Rightarrow> string \<Rightarrow> 32 word option" where
  "find_flag tab name = map_of tab name"

text \<open>The names are cut at every comma; the result is the bits, or the rest of the string at the bad
  name.  The string itself is restored.\<close>

function parse_flags :: "(string \<times> 32 word) list \<Rightarrow> 32 word \<Rightarrow> string \<Rightarrow> string + 32 word" where
  "parse_flags tab bits name =
     (let symb = takeWhile (\<lambda>c. c \<noteq> COMMA) name; cc = dropWhile (\<lambda>c. c \<noteq> COMMA) name
      in case find_flag tab symb of
           None \<Rightarrow> Inl name
         | Some flag \<Rightarrow> if cc = [] then Inr (bits OR flag) else parse_flags tab (bits OR flag) (tl cc))"
  by auto
termination
proof (relation "measure (\<lambda>(tab, bits, name). length name)", goal_cases)
  case (2 tab bits name symb cc flag)
  then have "cc \<noteq> []" "length cc \<le> length name" by (simp_all add: length_dropWhile_le)
  then show ?case by (cases cc) simp_all
qed simp

declare parse_flags.simps [simp del]

text \<open>The returned number and \<open>*badname\<close>.\<close>

definition parse_open_flags :: "string \<Rightarrow> int \<times> string option" where
  "parse_open_flags str =
     (case parse_flags Open_flags 0 str of Inl bad \<Rightarrow> (-1, Some bad) | Inr bits \<Rightarrow> (sint bits, None))"

text \<open>\<open>strcat\<close> to \<open>Open_symbols\<close>, which has room for 512 bytes.\<close>

definition cat :: "string \<Rightarrow> string \<Rightarrow> string outcome" where
  "cat s t = (if length s + length t < 512 then Ret (s @ t) else Undefined ''write past Open_symbols'')"

definition add_symbol :: "string \<Rightarrow> bool \<Rightarrow> string \<Rightarrow> string \<Rightarrow> string outcome" where
  "add_symbol sep havesome syms symb =
     bind_outcome (if havesome then cat syms sep else Ret syms) (\<lambda>s. cat s symb)"

fun symbols_loop ::
  "string \<Rightarrow> (string \<times> 32 word) list \<Rightarrow> 32 word \<Rightarrow> bool \<Rightarrow> string \<Rightarrow> (32 word \<times> bool \<times> string) outcome" where
  "symbols_loop sep [] bits havesome syms = Ret (bits, havesome, syms)"
| "symbols_loop sep ((symb, flag) # tab) bits havesome syms =
     (if bits AND flag = flag
      then bind_outcome (add_symbol sep havesome syms symb) (symbols_loop sep tab (bits AND NOT flag) True)
      else symbols_loop sep tab bits havesome syms)"

definition openflags2symbols :: "32 word \<Rightarrow> string \<Rightarrow> int \<Rightarrow> string outcome" where
  "openflags2symbols openflags sep mode =
     (let rdonly = (openflags AND (1 OR 2) = 0) in
      bind_outcome (if rdonly then cat [] ''O_RDONLY'' else Ret []) (\<lambda>syms.
      bind_outcome (symbols_loop sep (tl Open_flags) openflags rdonly syms) (\<lambda>(bits, havesome, syms).
      if bits \<noteq> 0 \<and> mode = 1 then add_symbol sep havesome syms ''UNKNOWN'' else Ret syms)))"

subsection \<open>Tokens in the array\<close>

lemma store_ok: "i < length a \<Longrightarrow> store a i x = Ret (a[i := x])"
  by (simp add: store_def)

text \<open>The loop with \<open>k\<close> tokens stored: it stops at the null pointer while there is room, and fills
  the whole array otherwise.\<close>

lemma token_loop_fits:
  assumes "k = length ds" "length ds + length ts < n" "length rest + length ds = n"
  shows "token_loop n k ts (map Some ds @ rest) =
     Ret (k + length ts, map Some (ds @ ts) @ None # drop (Suc (length ts)) rest)"
  using assms
proof (induction ts arbitrary: k ds rest)
  case Nil
  then obtain r rs where "rest = r # rs" by (cases rest) auto
  then show ?case using Nil by (simp add: store_ok list_update_append)
next
  case (Cons t ts)
  then obtain r rs where r: "rest = r # rs" by (cases rest) auto
  have "token_loop n (k + 1) ts (map Some (ds @ [t]) @ rs) =
      Ret (k + 1 + length ts, map Some ((ds @ [t]) @ ts) @ None # drop (Suc (length ts)) rs)"
    using Cons.prems r by (intro Cons.IH) auto
  then show ?case using Cons.prems r by (simp add: store_ok list_update_append)
qed

lemma token_loop_full:
  assumes "k = length ds" "n \<le> length ds + length ts" "length rest + length ds = n"
  shows "token_loop n k ts (map Some ds @ rest) = Ret (n, map Some (take n (ds @ ts)))"
  using assms
proof (induction ts arbitrary: k ds rest)
  case (Cons t ts)
  show ?case
  proof (cases rest)
    case Nil
    then show ?thesis using Cons.prems by simp
  next
    case (Cons r rs)
    have "token_loop n (k + 1) ts (map Some (ds @ [t]) @ rs) = Ret (n, map Some (take n ((ds @ [t]) @ ts)))"
      using Cons.prems Cons by (intro Cons.IH) auto
    then show ?thesis using Cons.prems Cons by (simp add: store_ok list_update_append)
  qed
qed auto

subsection \<open>Symbols and flags\<close>

lemma parse_flags_name:
  assumes "COMMA \<notin> set name" "find_flag tab name = Some f"
  shows "parse_flags tab bits name = Inr (bits OR f)"
    and "parse_flags tab bits (name @ COMMA # rest) = parse_flags tab (bits OR f) rest"
proof -
  have t: "takeWhile (\<lambda>c. c \<noteq> COMMA) name = name" "dropWhile (\<lambda>c. c \<noteq> COMMA) name = []"
    using assms(1) by (auto simp: takeWhile_eq_all_conv)
  have t2: "takeWhile (\<lambda>c. c \<noteq> COMMA) (name @ COMMA # rest) = name"
    "dropWhile (\<lambda>c. c \<noteq> COMMA) (name @ COMMA # rest) = COMMA # rest"
    using assms(1) t by (auto simp: takeWhile_append dropWhile_append)
  show "parse_flags tab bits name = Inr (bits OR f)"
    unfolding parse_flags.simps [of tab bits name] t Let_def assms(2) by simp
  show "parse_flags tab bits (name @ COMMA # rest) = parse_flags tab (bits OR f) rest"
    unfolding parse_flags.simps [of tab bits "name @ COMMA # rest"] t2 Let_def assms(2) by simp
qed

definition known_symbols :: "string list \<Rightarrow> bool" where
  "known_symbols ns \<longleftrightarrow> (\<forall>n \<in> set ns. COMMA \<notin> set n \<and> n \<in> fst ` set Open_flags)"

definition flags_of :: "string list \<Rightarrow> 32 word" where
  "flags_of ns = fold (OR) (map (\<lambda>n. the (find_flag Open_flags n)) ns) 0"

lemma fold_or: "fold (OR) xs (a :: 32 word) = a OR fold (OR) xs 0"
proof (induction xs arbitrary: a)
  case (Cons x xs)
  show ?case using Cons.IH [of "x OR a"] Cons.IH [of x] by (simp add: ac_simps)
qed simp

lemma flags_of_simps [simp]:
  "flags_of [] = 0" "flags_of (n # ns) = the (find_flag Open_flags n) OR flags_of ns"
  "flags_of (ns @ ms) = flags_of ns OR flags_of ms"
  using fold_or [of "map (\<lambda>n. the (find_flag Open_flags n)) ns" "the (find_flag Open_flags n)"]
    fold_or [of "map (\<lambda>n. the (find_flag Open_flags n)) ms" "flags_of ns"]
  by (simp_all add: flags_of_def)

lemma find_flag_known: "n \<in> fst ` set Open_flags \<Longrightarrow> \<exists>f. find_flag Open_flags n = Some f"
  by (metis dom_map_of_conv_image_fst domD find_flag_def)

lemma parse_flags_join:
  assumes "ns \<noteq> []" "known_symbols ns"
  shows "parse_flags Open_flags bits (join_with COMMA ns) = Inr (bits OR flags_of ns)"
  using assms
proof (induction COMMA ns arbitrary: bits rule: join_with.induct)
  case (2 t)
  then obtain f where "find_flag Open_flags t = Some f" using find_flag_known [of t] by (auto simp: known_symbols_def)
  then show ?case using 2 parse_flags_name(1) [of t Open_flags f bits] by (simp add: known_symbols_def)
next
  case (3 t u us)
  then obtain f where f: "find_flag Open_flags t = Some f" using find_flag_known [of t] by (auto simp: known_symbols_def)
  have "parse_flags Open_flags (bits OR f) (join_with COMMA (u # us)) = Inr ((bits OR f) OR flags_of (u # us))"
    using 3 by (intro 3) (auto simp: known_symbols_def)
  then show ?case using 3 f parse_flags_name(2) [of t Open_flags f bits]
    by (simp add: known_symbols_def ac_simps)
qed simp

lemma join_with_snoc: "ns \<noteq> [] \<Longrightarrow> join_with x (ns @ [t]) = join_with x ns @ x # t"
  by (induction x ns rule: join_with.induct) auto

lemma add_symbol_join:
  assumes "length (join_with COMMA ns) + length t + 1 < 512"
  shows "add_symbol [COMMA] (ns \<noteq> []) (join_with COMMA ns) t = Ret (join_with COMMA (ns @ [t]))"
  using assms by (cases "ns = []") (simp_all add: add_symbol_def cat_def join_with_snoc)

definition names_size :: "(string \<times> 32 word) list \<Rightarrow> nat" where
  "names_size tab = sum_list (map (\<lambda>(n, f). length n + 1) tab)"

fun leftover :: "(string \<times> 32 word) list \<Rightarrow> 32 word \<Rightarrow> 32 word" where
  "leftover [] b = b"
| "leftover ((n, f) # tab) b = leftover tab (if b AND f = f then b AND NOT f else b)"

lemma known_entries: "list_all (\<lambda>(n, f). COMMA \<notin> set n \<and> find_flag Open_flags n = Some f) Open_flags"
  by code_simp

lemma known_entry: "(n, f) \<in> set Open_flags \<Longrightarrow> COMMA \<notin> set n \<and> find_flag Open_flags n = Some f"
  using known_entries unfolding list_all_iff by blast

text \<open>The invariant of the loop: the symbols so far stand for the bits that were removed.\<close>

lemma symbols_loop_eq:
  assumes "set tab \<subseteq> set Open_flags" "known_symbols ns"
    and "length (join_with COMMA ns) + names_size tab < 512"
    and "bits = b AND NOT (flags_of ns)" "b AND flags_of ns = flags_of ns"
  shows "\<exists>ns'. symbols_loop [COMMA] tab bits (ns \<noteq> []) (join_with COMMA ns)
           = Ret (leftover tab bits, ns' \<noteq> [], join_with COMMA ns')
       \<and> (ns \<noteq> [] \<longrightarrow> ns' \<noteq> []) \<and> known_symbols ns' \<and> leftover tab bits = b AND NOT (flags_of ns') \<and> b AND flags_of ns' = flags_of ns'
       \<and> length (join_with COMMA ns') < 512 \<and> length (join_with COMMA ns') \<le> length (join_with COMMA ns) + names_size tab"
  using assms
proof (induction tab arbitrary: ns bits)
  case Nil
  then show ?case by (intro exI [of _ ns]) (simp add: names_size_def)
next
  case (Cons e tab)
  obtain n f where e: "e = (n, f)" by fastforce
  have k: "COMMA \<notin> set n" "find_flag Open_flags n = Some f" "n \<in> fst ` set Open_flags"
    using Cons.prems(1) known_entry [of n f] by (auto simp: e image_iff intro: bexI [of _ "(n, f)"])
  show ?case
  proof (cases "bits AND f = f")
    case True
    have "b AND (bits AND f) = bits AND f" unfolding Cons.prems(4) by (simp add: ac_simps)
    then have fb: "b AND f = f" unfolding True .
    have l: "length (join_with COMMA (ns @ [n])) \<le> length (join_with COMMA ns) + length n + 1"
      by (cases "ns = []") (simp_all add: join_with_snoc)
    have "\<exists>ns'. symbols_loop [COMMA] tab (bits AND NOT f) (ns @ [n] \<noteq> []) (join_with COMMA (ns @ [n]))
           = Ret (leftover tab (bits AND NOT f), ns' \<noteq> [], join_with COMMA ns')
       \<and> (ns @ [n] \<noteq> [] \<longrightarrow> ns' \<noteq> []) \<and> known_symbols ns' \<and> leftover tab (bits AND NOT f) = b AND NOT (flags_of ns')
       \<and> b AND flags_of ns' = flags_of ns' \<and> length (join_with COMMA ns') < 512
       \<and> length (join_with COMMA ns') \<le> length (join_with COMMA (ns @ [n])) + names_size tab"
    proof (rule Cons.IH)
      show "bits AND NOT f = b AND NOT (flags_of (ns @ [n]))"
        using Cons.prems(4) k by (simp add: ac_simps)
      show "b AND flags_of (ns @ [n]) = flags_of (ns @ [n])"
        using Cons.prems(5) fb k by (simp add: bit.conj_disj_distrib)
    qed (use Cons.prems k l in \<open>auto simp: known_symbols_def names_size_def e\<close>)
    moreover have "add_symbol [COMMA] (ns \<noteq> []) (join_with COMMA ns) n = Ret (join_with COMMA (ns @ [n]))"
      using Cons.prems(3) by (intro add_symbol_join) (simp add: names_size_def e)
    ultimately show ?thesis using True l by (auto simp: e names_size_def)
  next
    case False
    then show ?thesis using Cons.IH [of ns bits] Cons.prems by (auto simp: e names_size_def)
  qed
qed

text \<open>The bits that no symbol stands for: all but the known ones; the upper bit of \<open>O_SYNC\<close> is known
  only together with its lower one.\<close>

definition flag_mask :: "32 word \<Rightarrow> 32 word" where
  "flag_mask b = (if b AND 0x101000 = 0x101000 then 0x103fc3 else 0x3fc3)"

lemma single_bit_step: "(if b AND 2 ^ k = 2 ^ k then b AND NOT (2 ^ k) else b) = b AND NOT (2 ^ k :: 32 word)"
proof (cases "b AND 2 ^ k = 2 ^ k")
  case False
  then have "\<not> bit b k" by (auto intro!: bit_word_eqI simp: bit_simps)
  then have "b AND NOT (2 ^ k) = b" by (auto intro!: bit_word_eqI simp: bit_simps)
  then show ?thesis using False by simp
qed simp

lemma leftover_bit: "f = 2 ^ k \<Longrightarrow> leftover ((n, f) # tab) b = leftover tab (b AND NOT f)"
  by (simp only: leftover.simps single_bit_step)

lemma leftover_sync:
  "leftover ((n, f) # tab) b = (if b AND f = f then leftover tab (b AND NOT f) else leftover tab b)"
  by simp

lemma flag_powers:
  "(1 :: 32 word) = 2 ^ 0" "(2 :: 32 word) = 2 ^ 1" "(0x40 :: 32 word) = 2 ^ 6" "(0x80 :: 32 word) = 2 ^ 7"
  "(0x100 :: 32 word) = 2 ^ 8" "(0x200 :: 32 word) = 2 ^ 9" "(0x400 :: 32 word) = 2 ^ 10"
  "(0x800 :: 32 word) = 2 ^ 11" "(0x1000 :: 32 word) = 2 ^ 12" "(0x2000 :: 32 word) = 2 ^ 13"
  by simp_all

lemmas leftover_bits = flag_powers [THEN leftover_bit]

lemma leftover_none: "leftover ((n, 0) # tab) b = leftover tab b"
  by simp

lemma leftover_eq: "leftover (tl Open_flags) b = b AND NOT (flag_mask b)"
proof -
  have "b AND NOT 1 AND NOT 2 AND 0x101000 = b AND (0x101000 :: 32 word)"
    by (simp add: and.assoc)
  moreover have "x AND NOT 0x1000 AND 0x101000 \<noteq> (0x101000 :: 32 word)" for x
  proof
    assume "x AND NOT 0x1000 AND 0x101000 = (0x101000 :: 32 word)"
    then have "bit (x AND NOT 0x1000 AND 0x101000) 12 = bit (0x101000 :: 32 word) 12" by simp
    then show False by (simp add: bit_simps)
  qed
  ultimately show ?thesis
    unfolding Open_flags_def list.sel leftover_bits leftover_none flag_mask_def
    by (simp only: leftover_sync [of _ "0x101000"] leftover_bits leftover_none leftover.simps(1) if_cancel if_False split: if_split)
       (simp add: and.assoc)
qed
lemma openflags2symbols_eq:
  "\<exists>ns. ns \<noteq> [] \<and> known_symbols ns \<and> b AND NOT (flags_of ns) = b AND NOT (flag_mask b)
     \<and> b AND flags_of ns = flags_of ns
     \<and> (\<forall>mode. openflags2symbols b [COMMA] mode =
         Ret (join_with COMMA (if b AND NOT (flag_mask b) \<noteq> 0 \<and> mode = 1 then ns @ [''UNKNOWN''] else ns)))"
proof -
  define rd where "rd = (b AND (1 OR 2) = 0)"
  define ns0 where "ns0 = (if rd then [''O_RDONLY''] else [])"
  have c: "(if rd then cat [] ''O_RDONLY'' else Ret []) = Ret (join_with COMMA ns0)" "(ns0 \<noteq> []) = rd"
    by (auto simp: ns0_def cat_def)
  have k0: "known_symbols ns0" by (auto simp: ns0_def known_symbols_def Open_flags_def)
  have f0: "flags_of ns0 = 0" by (simp add: ns0_def find_flag_def Open_flags_def)
  have sz: "names_size (tl Open_flags) < 200" "length (join_with COMMA ns0) \<le> 8"
    by (simp_all add: names_size_def Open_flags_def ns0_def)
  have "\<exists>ns'. symbols_loop [COMMA] (tl Open_flags) b (ns0 \<noteq> []) (join_with COMMA ns0)
           = Ret (leftover (tl Open_flags) b, ns' \<noteq> [], join_with COMMA ns')
       \<and> (ns0 \<noteq> [] \<longrightarrow> ns' \<noteq> []) \<and> known_symbols ns' \<and> leftover (tl Open_flags) b = b AND NOT (flags_of ns')
       \<and> b AND flags_of ns' = flags_of ns' \<and> length (join_with COMMA ns') < 512
       \<and> length (join_with COMMA ns') \<le> length (join_with COMMA ns0) + names_size (tl Open_flags)"
    using sz k0 f0 by (intro symbols_loop_eq) (auto simp: Open_flags_def)
  then obtain ns where ns: "symbols_loop [COMMA] (tl Open_flags) b rd (join_with COMMA ns0)
        = Ret (b AND NOT (flag_mask b), ns \<noteq> [], join_with COMMA ns)" "known_symbols ns"
      "b AND NOT (flag_mask b) = b AND NOT (flags_of ns)" "b AND flags_of ns = flags_of ns"
      "length (join_with COMMA ns) < 400" "rd \<Longrightarrow> ns \<noteq> []"
    unfolding leftover_eq c(2) using sz by fastforce
  have o: "openflags2symbols b [COMMA] mode = (if b AND NOT (flag_mask b) \<noteq> 0 \<and> mode = 1
      then add_symbol [COMMA] (ns \<noteq> []) (join_with COMMA ns) ''UNKNOWN'' else Ret (join_with COMMA ns))" for mode
    unfolding openflags2symbols_def Let_def rd_def [symmetric] c(1) bind_outcome.simps ns(1) by simp
  have ne: "ns \<noteq> []"
  proof
    assume n: "ns = []"
    have "b AND 3 = (b AND NOT (flag_mask b)) AND 3" using ns(3) n by simp
    also have "\<dots> = 0" by (simp add: flag_mask_def and.assoc)
    finally show False using ns(6) n by (simp add: rd_def)
  qed
  have "add_symbol [COMMA] (ns \<noteq> []) (join_with COMMA ns) ''UNKNOWN'' = Ret (join_with COMMA (ns @ [''UNKNOWN'']))"
    using ns(5) by (intro add_symbol_join) simp
  then show ?thesis using ne ns(2-4) o by (intro exI [of _ ns]) simp
qed

lemma known_part:
  assumes "(b :: 32 word) AND NOT f = b AND NOT m" "b AND f = f"
  shows "f = b AND m"
proof (rule bit_word_eqI)
  fix n :: nat assume n: "n < LENGTH(32)"
  have "bit (b AND NOT f) n = bit (b AND NOT m) n" "bit (b AND f) n = bit f n" by (simp_all only: assms)
  then show "bit f n = bit (b AND m) n" using n by (auto simp: bit_simps)
qed

lemma parse_flags_rest:
  assumes "ns \<noteq> []" "known_symbols ns"
  shows "parse_flags Open_flags bits (join_with COMMA ns @ COMMA # rest) = parse_flags Open_flags (bits OR flags_of ns) rest"
  using assms
proof (induction COMMA ns arbitrary: bits rule: join_with.induct)
  case (2 t)
  then obtain f where "find_flag Open_flags t = Some f" using find_flag_known [of t] by (auto simp: known_symbols_def)
  then show ?case using 2 parse_flags_name(2) [of t Open_flags f bits] by (simp add: known_symbols_def)
next
  case (3 t u us)
  then obtain f where f: "find_flag Open_flags t = Some f" using find_flag_known [of t] by (auto simp: known_symbols_def)
  have "parse_flags Open_flags (bits OR f) (join_with COMMA (u # us) @ COMMA # rest)
      = parse_flags Open_flags ((bits OR f) OR flags_of (u # us)) rest"
    using 3 by (intro 3) (auto simp: known_symbols_def)
  then show ?case using 3 f parse_flags_name(2) [of t Open_flags f bits]
    by (simp add: known_symbols_def ac_simps)
qed simp

lemma unknown_symbol: "COMMA \<notin> set ''UNKNOWN'' \<and> find_flag Open_flags ''UNKNOWN'' = None"
  by code_simp

lemma parse_flags_bad:
  assumes "ns \<noteq> []" "known_symbols ns" "COMMA \<notin> set u \<and> find_flag Open_flags u = None"
  shows "parse_flags Open_flags bits (join_with COMMA (ns @ [u])) = Inl u"
proof -
  have t: "takeWhile (\<lambda>c. c \<noteq> COMMA) u = u" using assms(3) by (auto simp: takeWhile_eq_all_conv)
  have "parse_flags Open_flags x u = Inl u" for x
    unfolding parse_flags.simps [of _ _ u] t Let_def using assms(3) by simp
  then show ?thesis using parse_flags_rest [OF assms(1,2)] by (simp add: join_with_snoc [OF assms(1)])
qed

subsection \<open>Properties\<close>

text \<open>With fewer tokens than array elements \<open>string_to_tokens\<close> stores all tokens in order, then a
  null pointer, and returns their number.  With at least \<open>array_size\<close> tokens it does not stop one
  short, as its description says: it writes the null pointer behind the array.\<close>

theorem string_to_tokens_exact:
  assumes "2 \<le> length arr" and toks: "toks = strtok_all (\<lambda>c. c \<in> set sep) s"
  shows "if length toks < length arr
         then string_to_tokens s (Some arr) (int (length arr)) (Some sep)
                = Ret (int (length toks), Some (map Some toks @ None # drop (Suc (length toks)) arr))
         else string_to_tokens s (Some arr) (int (length arr)) (Some sep) = Undefined ''write outside the array''"
proof (cases toks)
  case Nil
  then show ?thesis using assms by (cases arr) (auto simp: string_to_tokens_def store_def)
next
  case (Cons t ts)
  obtain a as where a: "arr = a # as" using assms(1) by (cases arr) auto
  have st: "store arr 0 (Some t) = Ret (map Some [t] @ as)" by (simp add: store_def a)
  have step: "string_to_tokens s (Some arr) (int (length arr)) (Some sep) =
      bind_outcome (token_loop (length arr) 1 ts (map Some [t] @ as)) (\<lambda>(num_toks, arr').
      bind_outcome (if num_toks = length arr then store arr' num_toks None else Ret arr') (\<lambda>arr.
      Ret (int num_toks, Some arr)))"
    using assms(1) st by (simp add: string_to_tokens_def toks [symmetric] Cons)
  show ?thesis
  proof (cases "length toks < length arr")
    case True
    have "token_loop (length arr) 1 ts (map Some [t] @ as)
        = Ret (1 + length ts, map Some ([t] @ ts) @ None # drop (Suc (length ts)) as)"
      using True Cons a by (intro token_loop_fits) simp_all
    then show ?thesis using True Cons a unfolding step by simp
  next
    case False
    have "token_loop (length arr) 1 ts (map Some [t] @ as) = Ret (length arr, map Some (take (length arr) ([t] @ ts)))"
      using False Cons a by (intro token_loop_full) simp_all
    then show ?thesis using False Cons unfolding step by (simp add: store_def)
  qed
qed

theorem string_to_tokens_exact_witness:
  "string_to_tokens ''ab,c'' (Some [None, None]) 2 (Some '','') = Undefined ''write outside the array''"
proof -
  have "strtok_all (\<lambda>c. c \<in> set '','') ''ab,c'' = [''ab'', ''c'']"
    using strtok_all_join [of "\<lambda>c. c \<in> set '',''" COMMA "[''ab'', ''c'']"] by simp
  then show ?thesis using string_to_tokens_exact [of "[None, None]" _ "'',''" "''ab,c''"] by simp
qed

text \<open>C16: the symbols that \<open>openflags2symbols\<close> writes, with commas between them, are read back by
  \<open>parse_open_flags\<close> as the known bits of the flags, for all \<open>2 ^ 32\<close> values.  With mode 1 unknown
  bits add a symbol that is rejected.\<close>

theorem openflags_roundtrip:
  "\<exists>s. openflags2symbols b [COMMA] 0 = Ret s \<and> parse_open_flags s = (sint (b AND flag_mask b), None)
     \<and> (\<exists>t. openflags2symbols b [COMMA] 1 = Ret t
          \<and> parse_open_flags t = (if b AND NOT (flag_mask b) = 0 then (sint b, None) else (-1, Some ''UNKNOWN'')))"
proof -
  obtain ns where ns: "ns \<noteq> []" "known_symbols ns" "b AND NOT (flags_of ns) = b AND NOT (flag_mask b)"
      "b AND flags_of ns = flags_of ns"
      "\<forall>mode. openflags2symbols b [COMMA] mode =
         Ret (join_with COMMA (if b AND NOT (flag_mask b) \<noteq> 0 \<and> mode = 1 then ns @ [''UNKNOWN''] else ns))"
    using openflags2symbols_eq [of b] by blast
  have f: "flags_of ns = b AND flag_mask b" by (rule known_part [OF ns(3,4)])
  have p: "parse_open_flags (join_with COMMA ns) = (sint (b AND flag_mask b), None)"
    using parse_flags_join [OF ns(1,2), of 0] by (simp add: parse_open_flags_def f)
  have q: "parse_open_flags (join_with COMMA (ns @ [''UNKNOWN''])) = (-1, Some ''UNKNOWN'')"
    using parse_flags_bad [OF ns(1,2) unknown_symbol] by (simp add: parse_open_flags_def)
  have "b AND flag_mask b = b" if "b AND NOT (flag_mask b) = 0"
    using that by (metis and.right_neutral bit.conj_disj_distrib bit.disj_cancel_right or.right_neutral)
  then show ?thesis using ns(5) p q by (intro exI [of _ "join_with COMMA ns"]) (auto intro: exI)
qed

end
