(* ===== verification/Write_Log.thy ===== *)
theory Write_Log
  imports Ltp_Prelude
begin

section \<open>The write log\<close>

text \<open>
  \<open>testcases/kernel/fs/doio/write_log.c\<close> with the layouts of \<open>include/write_log.h\<close>: records of writes
  are packed into bit fields, appended to a file with their length behind them, and read back from
  the end of the file.  Bytes are 8-bit words, \<open>char\<close> is signed and the bit fields are laid out as
  GCC does on x86-64: the fixed part of a record has seven 32-bit units, lowest byte first.
  The log file is the list of its bytes.  The texts of \<open>Wlog_Error_String\<close> are left out.
\<close>

unbundle bit_operations_syntax

type_synonym byte = "8 word"

subsection \<open>Records\<close>

record wlog_rec =
  w_pid :: int
  w_offset :: int
  w_nbytes :: int
  w_oflags :: int
  w_done :: int
  w_async :: int
  w_host :: "byte list"
  w_hostlen :: int
  w_path :: "byte list"
  w_pathlen :: int
  w_pattern :: "byte list"
  w_patternlen :: int

definition WLOG_MAX_PATH :: nat where "WLOG_MAX_PATH = 128"
definition WLOG_MAX_PATTERN :: nat where "WLOG_MAX_PATTERN = 64"
definition WLOG_MAX_HOST :: nat where "WLOG_MAX_HOST = 8"

text \<open>\<open>sizeof (struct wlog_rec)\<close> is 248, \<open>sizeof (struct wlog_rec_disk)\<close> is 28.\<close>

definition WLOG_REC_MAX_SIZE :: nat where
  "WLOG_REC_MAX_SIZE = 248 + WLOG_MAX_PATH + WLOG_MAX_PATTERN + WLOG_MAX_HOST + 2"

definition DISK_SIZE :: nat where "DISK_SIZE = 28"

text \<open>The arrays of a record have room for their maximal length and a NUL.\<close>

definition rec_arrays :: "wlog_rec \<Rightarrow> bool" where
  "rec_arrays r \<longleftrightarrow> length (w_host r) = WLOG_MAX_HOST + 1 \<and> length (w_path r) = WLOG_MAX_PATH + 1
     \<and> length (w_pattern r) = WLOG_MAX_PATTERN + 1"

subsection \<open>Bytes and units\<close>

definition put32 :: "32 word \<Rightarrow> byte list" where
  "put32 w = [ucast w, ucast (drop_bit 8 w), ucast (drop_bit 16 w), ucast (drop_bit 24 w)]"

definition get32 :: "byte list \<Rightarrow> 32 word" where
  "get32 bs = ucast (bs ! 0) OR push_bit 8 (ucast (bs ! 1)) OR push_bit 16 (ucast (bs ! 2))
     OR push_bit 24 (ucast (bs ! 3))"

text \<open>A bit field of \<open>n\<close> bits from bit \<open>p\<close> on: a store keeps the other bits.\<close>

definition set_field :: "nat \<Rightarrow> nat \<Rightarrow> 32 word \<Rightarrow> 32 word \<Rightarrow> 32 word" where
  "set_field p n v w = (w AND NOT (push_bit p (mask n))) OR push_bit p (take_bit n v)"

definition get_field :: "nat \<Rightarrow> nat \<Rightarrow> 32 word \<Rightarrow> 32 word" where
  "get_field p n w = take_bit n (drop_bit p w)"

subsection \<open>wlog_rec_pack and wlog_rec_unpack\<close>

definition len_field :: "int \<Rightarrow> 32 word" where
  "len_field l = (if l > 0 then word_of_int l else 0)"

text \<open>The fixed part, from the bytes that were there before.\<close>

definition pack_fixed :: "wlog_rec \<Rightarrow> byte list \<Rightarrow> byte list" where
  "pack_fixed r old =
     put32 (word_of_int (w_offset r)) @ take 4 (drop 4 old) @
     put32 (word_of_int (w_nbytes r)) @ put32 (word_of_int (w_oflags r)) @
     put32 (set_field 24 6 (len_field (w_patternlen r)) (set_field 17 7 (len_field (w_pathlen r))
       (set_field 0 17 (word_of_int (w_pid r)) (get32 (take 4 (drop 16 old)))))) @
     put32 (set_field 0 4 (len_field (w_hostlen r)) (set_field 5 1 (word_of_int (w_async r))
       (set_field 4 1 (word_of_int (w_done r)) (get32 (take 4 (drop 20 old)))))) @
     take 4 (drop 24 old)"

definition disk_pathlen :: "byte list \<Rightarrow> nat" where
  "disk_pathlen d = unat (get_field 17 7 (get32 (take 4 (drop 16 d))))"

definition disk_patternlen :: "byte list \<Rightarrow> nat" where
  "disk_patternlen d = unat (get_field 24 6 (get32 (take 4 (drop 16 d))))"

definition disk_hostlen :: "byte list \<Rightarrow> nat" where
  "disk_hostlen d = unat (get_field 0 4 (get32 (take 4 (drop 20 d))))"

text \<open>The packed bytes; their number is what the function returns.  \<open>old\<close> is what the buffer held
  before.  The lengths are read back from the bit fields.\<close>

definition wlog_rec_pack :: "wlog_rec \<Rightarrow> byte list \<Rightarrow> bool \<Rightarrow> byte list outcome" where
  "wlog_rec_pack r old flag =
     (let d = pack_fixed r old
      in if \<not> flag then Ret d
         else if length (w_path r) < disk_pathlen d \<or> length (w_host r) < disk_hostlen d
                 \<or> length (w_pattern r) < disk_patternlen d
         then Undefined ''read past the end of an array''
         else Ret (d @ take (disk_pathlen d) (w_path r) @ take (disk_hostlen d) (w_host r)
                @ take (disk_patternlen d) (w_pattern r)))"

text \<open>A \<open>memcpy\<close> to the front of a zeroed array of the given size.\<close>

definition zero_fill :: "nat \<Rightarrow> byte list \<Rightarrow> byte list outcome" where
  "zero_fill size0 bs =
     (if length bs \<le> size0 then Ret (bs @ replicate (size0 - length bs) 0)
      else Undefined ''write past the end of the array'')"

text \<open>The bytes of \<open>albuf\<close> behind the record are not initialised.\<close>

definition wlog_rec_unpack :: "byte list \<Rightarrow> wlog_rec outcome" where
  "wlog_rec_unpack buf =
     (let pl = disk_pathlen buf; hl = disk_hostlen buf; nl = disk_patternlen buf;
          u4 = get32 (take 4 (drop 16 buf)); u5 = get32 (take 4 (drop 20 buf))
      in if length buf < DISK_SIZE + pl + hl + nl then Undefined ''read past the end of the buffer''
         else bind_outcome (zero_fill (WLOG_MAX_PATH + 1) (take pl (drop DISK_SIZE buf))) (\<lambda>path.
              bind_outcome (zero_fill (WLOG_MAX_HOST + 1) (take hl (drop (DISK_SIZE + pl) buf))) (\<lambda>host.
              bind_outcome (zero_fill (WLOG_MAX_PATTERN + 1) (take nl (drop (DISK_SIZE + pl + hl) buf))) (\<lambda>pattern.
              Ret \<lparr>w_pid = uint (get_field 0 17 u4), w_offset = sint (get32 (take 4 buf)),
                   w_nbytes = sint (get32 (take 4 (drop 8 buf))), w_oflags = sint (get32 (take 4 (drop 12 buf))),
                   w_done = uint (get_field 4 1 u5), w_async = uint (get_field 5 1 u5),
                   w_host = host, w_hostlen = int hl, w_path = path, w_pathlen = int pl,
                   w_pattern = pattern, w_patternlen = int nl\<rparr>))))"

subsection \<open>wlog_open, wlog_close\<close>

record wlog_file =
  w_afd :: int
  w_rfd :: int

text \<open>\<open>afd\<close> and \<open>rfd\<close> are what the two calls of \<open>open\<close> return.  The result: the returned number, the
  descriptors, the ones that were closed, and the file after the first \<open>open\<close>.\<close>

definition wlog_open ::
  "int \<Rightarrow> int \<Rightarrow> bool \<Rightarrow> wlog_file \<Rightarrow> byte list \<Rightarrow> int \<times> wlog_file \<times> int list \<times> byte list" where
  "wlog_open afd rfd trunc wfile file =
     (if afd = -1 then (-1, wfile\<lparr>w_afd := -1\<rparr>, [], file)
      else let file = (if trunc then [] else file)
           in if rfd = -1 then (-1, wfile\<lparr>w_afd := -1, w_rfd := -1\<rparr>, [afd], file)
              else (0, wfile\<lparr>w_afd := afd, w_rfd := rfd\<rparr>, [], file))"

definition wlog_close :: "wlog_file \<Rightarrow> int \<times> int list" where
  "wlog_close wfile = (0, [w_afd wfile, w_rfd wfile])"

subsection \<open>wlog_record_write\<close>

text \<open>The two bytes behind a record.\<close>

definition len_bytes :: "nat \<Rightarrow> byte list" where
  "len_bytes reclen = [of_nat (reclen div 256), of_nat (reclen mod 256)]"

text \<open>Bytes stored in a file from \<open>off\<close> on; a gap is filled with zeros.\<close>

definition file_store :: "byte list \<Rightarrow> nat \<Rightarrow> byte list \<Rightarrow> byte list" where
  "file_store file off bs =
     take off (file @ replicate (off - length file) 0) @ bs @ drop (off + length bs) file"

text \<open>
  \<open>written\<close> is how many bytes \<open>write\<close> stores, \<open>None\<close> when it fails; \<open>seek_ok\<close> whether \<open>lseek\<close> succeeds.
  The descriptor for appending stands at the end of the file after its \<open>write\<close>.  The result is
  the returned number and the file.
\<close>

definition wlog_record_write ::
  "nat option \<Rightarrow> bool \<Rightarrow> byte list \<Rightarrow> byte list \<Rightarrow> wlog_rec \<Rightarrow> int \<Rightarrow> (int \<times> byte list) outcome" where
  "wlog_record_write written seek_ok old file wrec offset =
     bind_outcome (wlog_rec_pack wrec old (offset < 0)) (\<lambda>packed.
       if offset < 0
       then let wbuf = packed @ len_bytes (length packed); reclen = length packed + 2
            in case written of
                 None \<Rightarrow> Ret (-1, file)
               | Some n \<Rightarrow>
                   let file = file @ take n wbuf;
                       pos = (if seek_ok then int (length file) else -1) - int reclen
                   in Ret (if pos = -1 then -1 else wrap32 pos, file)
       else if \<not> seek_ok then Ret (-1, file)
       else case written of
              None \<Rightarrow> Ret (-1, file)
            | Some n \<Rightarrow> Ret (wrap32 offset, file_store file (nat offset) (take n packed)))"

subsection \<open>wlog_scan_backward\<close>

text \<open>\<open>BSIZE * 32\<close>.\<close>

definition BUF_SIZE :: nat where "BUF_SIZE = 16384"

text \<open>The state of the scan: the buffer, the number of records and the records handed to \<open>func\<close>.\<close>

record scan_state =
  s_buf :: "byte list"
  s_recnum :: nat
  s_calls :: "wlog_rec list"

text \<open>The bytes that are left over move to the end of the buffer; \<open>memcpy\<close> needs distinct regions.\<close>

definition keep_leftover :: "nat \<Rightarrow> nat \<Rightarrow> scan_state \<Rightarrow> (nat \<times> scan_state) outcome" where
  "keep_leftover bufstart cp s =
     (let leftover = cp - bufstart
      in if 0 < leftover \<and> BUF_SIZE - leftover < bufstart + leftover
         then Undefined ''memcpy of overlapping regions''
         else Ret (leftover, s\<lparr>s_buf := take (BUF_SIZE - leftover) (s_buf s)
                                   @ take leftover (drop bufstart (s_buf s))\<rparr>))"

text \<open>The inner loop.  The record length is computed from two signed bytes.  \<open>func\<close> says whether the
  scan goes on; the records it gets are collected.\<close>

definition rec_length :: "byte list \<Rightarrow> nat \<Rightarrow> int" where
  "rec_length buf cp = sint (buf ! (cp - 2)) * 256 + sint (buf ! (cp - 1))"

function scan_records ::
  "(wlog_rec \<Rightarrow> bool) \<Rightarrow> nat \<Rightarrow> nat \<Rightarrow> nat \<Rightarrow> scan_state \<Rightarrow> (nat \<times> scan_state) outcome" where
  "scan_records func nrecs bufstart cp s =
     (if cp < bufstart then Ret (0, s)
      else if cp - bufstart < 2 then keep_leftover bufstart cp s
      else let reclen = rec_length (s_buf s) cp
           in if int (cp - bufstart) < reclen + 2 then keep_leftover bufstart cp s
              else if reclen < 0 \<or> int WLOG_REC_MAX_SIZE < reclen
              then Undefined ''memcpy outside albuf''
              else let cp' = cp - nat (reclen + 2)
                   in bind_outcome (wlog_rec_unpack (take (nat reclen) (drop cp' (s_buf s)))) (\<lambda>wrec.
                        let s' = s\<lparr>s_calls := s_calls s @ [wrec]\<rparr>
                        in if \<not> func wrec then Ret (0, s')
                           else let s' = s'\<lparr>s_recnum := s_recnum s + 1\<rparr>
                                in if nrecs \<noteq> 0 \<and> nrecs \<le> s_recnum s' then Ret (0, s')
                                   else scan_records func nrecs bufstart cp' s'))"
  by auto
termination by (relation "measure (\<lambda>(func, nrecs, bs, cp, s). cp)") auto

declare scan_records.simps [simp del]

text \<open>The outer loop.  \<open>io_ok\<close> says whether \<open>lseek\<close> and \<open>read\<close> at an offset succeed.\<close>

partial_function (option) scan_loop ::
  "(nat \<Rightarrow> bool) \<Rightarrow> (wlog_rec \<Rightarrow> bool) \<Rightarrow> nat \<Rightarrow> byte list \<Rightarrow> nat \<Rightarrow> nat \<Rightarrow> scan_state \<Rightarrow> (int \<times> scan_state) run" where
  "scan_loop io_ok func nrecs file offset leftover s =
     (if (nrecs = 0 \<or> s_recnum s < nrecs) \<and> 0 < offset
      then let (bufstart, off) = (if offset + leftover < BUF_SIZE then (BUF_SIZE - (offset + leftover), 0)
                                  else (0, offset - (BUF_SIZE - leftover)))
           in if \<not> io_ok off then Some (Ret (-1, s))
              else let n = BUF_SIZE - bufstart - leftover;
                       buf = take bufstart (s_buf s) @ take n (drop off file) @ drop (BUF_SIZE - leftover) (s_buf s)
                   in case scan_records func nrecs bufstart BUF_SIZE (s\<lparr>s_buf := buf\<rparr>) of
                        Ret (leftover', s') \<Rightarrow> scan_loop io_ok func nrecs file off leftover' s'
                      | Exits n \<Rightarrow> Some (Exits n) | Aborts \<Rightarrow> Some Aborts | Undefined w \<Rightarrow> Some (Undefined w)
      else Some (Ret (0, s)))"

declare scan_loop.simps [simp del]

text \<open>The offset of the end of the file is kept in an \<open>int\<close>.\<close>

definition wlog_scan_backward ::
  "bool \<Rightarrow> (nat \<Rightarrow> bool) \<Rightarrow> (wlog_rec \<Rightarrow> bool) \<Rightarrow> nat \<Rightarrow> byte list \<Rightarrow> byte list \<Rightarrow> (int \<times> scan_state) run" where
  "wlog_scan_backward seek_ok io_ok func nrecs buf0 file =
     (let s = \<lparr>s_buf = buf0, s_recnum = 0, s_calls = []\<rparr>; offset = wrap32 (int (length file))
      in if \<not> seek_ok \<or> offset = -1 then Some (Ret (-1, s))
         else scan_loop io_ok func nrecs file (nat offset) 0 s)"

subsection \<open>Units and fields\<close>

named_theorems layout \<open>reading back what was stored in units and bit fields\<close>

lemma length_put32 [simp, layout]: "length (put32 w) = 4"
  by (simp add: put32_def)

lemma get32_put32 [layout]: "get32 (put32 w) = w"
proof (rule bit_word_eqI)
  fix n :: nat assume "n < LENGTH(32)"
  then consider "n < 8" | "8 \<le> n" "n < 16" | "16 \<le> n" "n < 24" | "24 \<le> n" "n < 32" by fastforce
  then show "bit (get32 (put32 w)) n = bit w n"
    by cases (auto simp: get32_def put32_def bit_simps)
qed

lemma get_set_same [layout]: "p + n \<le> 32 \<Longrightarrow> get_field p n (set_field p n v w) = take_bit n v"
  by (rule bit_word_eqI) (auto simp: get_field_def set_field_def bit_simps)

lemma get_set_other [layout]:
  "p + n \<le> q \<or> q + m \<le> p \<Longrightarrow> get_field p n (set_field q m v w) = get_field p n w"
  by (rule bit_word_eqI) (auto simp: get_field_def set_field_def bit_simps dest: bit_imp_le_length)

text \<open>The fixed part is read back field by field.\<close>

lemma pack_fixed_units:
  assumes "28 \<le> length old"
  shows "length (pack_fixed r old) = 28"
    "take 4 (pack_fixed r old @ x) = put32 (word_of_int (w_offset r))"
    "take 4 (drop 8 (pack_fixed r old @ x)) = put32 (word_of_int (w_nbytes r))"
    "take 4 (drop 12 (pack_fixed r old @ x)) = put32 (word_of_int (w_oflags r))"
    "take 4 (drop 16 (pack_fixed r old @ x)) =
       put32 (set_field 24 6 (len_field (w_patternlen r)) (set_field 17 7 (len_field (w_pathlen r))
         (set_field 0 17 (word_of_int (w_pid r)) (get32 (take 4 (drop 16 old))))))"
    "take 4 (drop 20 (pack_fixed r old @ x)) =
       put32 (set_field 0 4 (len_field (w_hostlen r)) (set_field 5 1 (word_of_int (w_async r))
         (set_field 4 1 (word_of_int (w_done r)) (get32 (take 4 (drop 20 old))))))"
  using assms by (simp_all add: pack_fixed_def)

text \<open>The lengths, as the bit fields keep them.\<close>

lemma disk_lengths:
  assumes "28 \<le> length old"
  shows "disk_pathlen (pack_fixed r old @ x) = unat (take_bit 7 (len_field (w_pathlen r)))"
    "disk_patternlen (pack_fixed r old @ x) = unat (take_bit 6 (len_field (w_patternlen r)))"
    "disk_hostlen (pack_fixed r old @ x) = unat (take_bit 4 (len_field (w_hostlen r)))"
  unfolding disk_pathlen_def disk_patternlen_def disk_hostlen_def pack_fixed_units [OF assms]
  by (simp_all add: layout)

lemma len_field_small:
  assumes "0 \<le> l" "l < 2 ^ n" "n < 32"
  shows "unat (take_bit n (len_field l)) = nat l"
proof -
  have l: "l < 2 ^ 32"
    using assms(2) power_strict_increasing [OF assms(3), of "2 :: int"] by simp
  have "uint (len_field l) = l"
    using assms(1) l by (simp add: len_field_def uint_word_of_int_eq take_bit_int_eq_self)
  then have "unat (len_field l) = nat l" unfolding unat_eq_nat_uint by simp
  moreover have "nat l < 2 ^ n" using assms(1,2) by (simp add: nat_less_iff)
  ultimately show ?thesis by (simp add: unsigned_take_bit_eq take_bit_nat_eq_self)
qed
subsection \<open>Packing and unpacking\<close>

text \<open>A record whose numbers fit the bit fields, and what is left of its arrays.\<close>

definition packable :: "wlog_rec \<Rightarrow> bool" where
  "packable r \<longleftrightarrow> rec_arrays r \<and> 0 \<le> w_pid r \<and> w_pid r < 2 ^ 17
     \<and> (\<forall>x \<in> {w_offset r, w_nbytes r, w_oflags r}. INT_MIN \<le> x \<and> x \<le> INT_MAX)
     \<and> w_done r \<in> {0, 1} \<and> w_async r \<in> {0, 1}
     \<and> 0 \<le> w_pathlen r \<and> w_pathlen r < int WLOG_MAX_PATH
     \<and> 0 \<le> w_hostlen r \<and> w_hostlen r \<le> int WLOG_MAX_HOST
     \<and> 0 \<le> w_patternlen r \<and> w_patternlen r < int WLOG_MAX_PATTERN"

definition cut_array :: "nat \<Rightarrow> byte list \<Rightarrow> byte list" where
  "cut_array n a = take n a @ replicate (length a - n) 0"

definition trimmed :: "wlog_rec \<Rightarrow> wlog_rec" where
  "trimmed r = r\<lparr>w_host := cut_array (nat (w_hostlen r)) (w_host r),
                 w_path := cut_array (nat (w_pathlen r)) (w_path r),
                 w_pattern := cut_array (nat (w_patternlen r)) (w_pattern r)\<rparr>"

definition strings_of :: "wlog_rec \<Rightarrow> byte list" where
  "strings_of r = take (nat (w_pathlen r)) (w_path r) @ take (nat (w_hostlen r)) (w_host r)
     @ take (nat (w_patternlen r)) (w_pattern r)"

lemmas wlog_sizes = WLOG_MAX_PATH_def WLOG_MAX_HOST_def WLOG_MAX_PATTERN_def WLOG_REC_MAX_SIZE_def DISK_SIZE_def

lemma packable_lengths:
  assumes "packable r" "28 \<le> length old"
  shows "disk_pathlen (pack_fixed r old @ x) = nat (w_pathlen r)"
    "disk_hostlen (pack_fixed r old @ x) = nat (w_hostlen r)"
    "disk_patternlen (pack_fixed r old @ x) = nat (w_patternlen r)"
  unfolding disk_lengths [OF assms(2)]
  using assms(1) len_field_small [of "w_pathlen r" 7] len_field_small [of "w_hostlen r" 4]
    len_field_small [of "w_patternlen r" 6]
  by (simp_all add: packable_def wlog_sizes)

lemma pack_packable:
  assumes "packable r" "28 \<le> length old"
  shows "wlog_rec_pack r old True = Ret (pack_fixed r old @ strings_of r)"
  using assms(1) packable_lengths [OF assms, of "[]"]
  by (auto simp: wlog_rec_pack_def strings_of_def packable_def rec_arrays_def wlog_sizes Let_def nat_less_iff)

lemma sint_word_of_int: "INT_MIN \<le> x \<Longrightarrow> x \<le> INT_MAX \<Longrightarrow> sint (word_of_int x :: 32 word) = x"
  by (simp add: int_limits signed_of_int signed_take_bit_int_eq_self)

lemma uint_field_small:
  assumes "0 \<le> x" "x < 2 ^ n" "n < 32"
  shows "uint (take_bit n (word_of_int x :: 32 word)) = x"
proof -
  have "x < 2 ^ 32" using assms(2) power_strict_increasing [OF assms(3), of "2 :: int"] by simp
  then show ?thesis
    using assms by (simp add: unsigned_take_bit_eq uint_word_of_int_eq take_bit_int_eq_self)
qed

lemma zero_fill_ok: "length bs \<le> n \<Longrightarrow> zero_fill n bs = Ret (bs @ replicate (n - length bs) 0)"
  by (simp add: zero_fill_def)

lemma unpack_packed:
  assumes "packable r" "28 \<le> length old"
  shows "wlog_rec_unpack (pack_fixed r old @ strings_of r) = Ret (trimmed r)"
proof -
  let ?d = "pack_fixed r old" and ?s = "strings_of r"
  let ?pl = "nat (w_pathlen r)" and ?hl = "nat (w_hostlen r)" and ?nl = "nat (w_patternlen r)"
  note l = packable_lengths [OF assms] and u = pack_fixed_units [OF assms(2)]
  have b: "?pl \<le> length (w_path r)" "?hl \<le> length (w_host r)" "?nl \<le> length (w_pattern r)"
    "length (w_path r) = 129" "length (w_host r) = 9" "length (w_pattern r) = 65"
    using assms(1) by (auto simp: packable_def rec_arrays_def wlog_sizes)
  have t: "take ?pl (drop 28 (?d @ ?s)) = take ?pl (w_path r)"
    "take ?hl (drop (28 + ?pl) (?d @ ?s)) = take ?hl (w_host r)"
    "take ?nl (drop (28 + ?pl + ?hl) (?d @ ?s)) = take ?nl (w_pattern r)"
    using b u(1) [of r] by (simp_all add: strings_of_def)
  have ln: "\<not> length (?d @ ?s) < 28 + ?pl + ?hl + ?nl" using b u(1) [of r] by (simp add: strings_of_def)
  have n: "sint (word_of_int (w_offset r) :: 32 word) = w_offset r"
    "sint (word_of_int (w_nbytes r) :: 32 word) = w_nbytes r" "sint (word_of_int (w_oflags r) :: 32 word) = w_oflags r"
    "uint (take_bit 17 (word_of_int (w_pid r)) :: 32 word) = w_pid r"
    "uint (word_of_int (w_done r) mod 2 :: 32 word) = w_done r"
    "uint (word_of_int (w_async r) mod 2 :: 32 word) = w_async r"
    using assms(1) by (auto simp: packable_def sint_word_of_int uint_field_small)
  have pos: "int ?pl = w_pathlen r" "int ?hl = w_hostlen r" "int ?nl = w_patternlen r"
    using assms(1) by (simp_all add: packable_def)
  show ?thesis
    unfolding wlog_rec_unpack_def Let_def l DISK_SIZE_def if_not_P [OF ln] t u
    using b pos by (simp add: layout n zero_fill_ok wlog_sizes trimmed_def cut_array_def wlog_rec.defs)
qed
subsection \<open>Scanning a log\<close>

text \<open>An entry of the log: the packed bytes with the record they unpack to.  The sign of \<open>char\<close>
  restricts an entry to 127 bytes.\<close>

type_synonym entry = "byte list \<times> wlog_rec"

definition enc :: "entry \<Rightarrow> byte list" where
  "enc e = fst e @ len_bytes (length (fst e))"

definition short_entry :: "entry \<Rightarrow> bool" where
  "short_entry e \<longleftrightarrow> length (fst e) < 128 \<and> wlog_rec_unpack (fst e) = Ret (snd e)"

definition log_bytes :: "entry list \<Rightarrow> byte list" where
  "log_bytes es = concat (map enc es)"

lemma log_bytes_simps [simp]:
  "log_bytes [] = []" "log_bytes (es @ fs) = log_bytes es @ log_bytes fs" "log_bytes [e] = enc e"
  by (simp_all add: log_bytes_def)

lemma length_enc: "length (enc e) = length (fst e) + 2"
  by (simp add: enc_def len_bytes_def)

lemma enc_nonempty [simp]: "enc e \<noteq> []"
  by (simp add: enc_def len_bytes_def)

lemma log_bytes_Nil_iff [simp]: "log_bytes es = [] \<longleftrightarrow> es = []"
  by (cases es) (auto simp: log_bytes_def)

lemma sint_byte: "n < 128 \<Longrightarrow> sint (of_nat n :: byte) = int n"
  by (simp add: signed_of_nat signed_take_bit_int_eq_self)

lemma sint_byte_high: "128 \<le> n \<Longrightarrow> n < 256 \<Longrightarrow> sint (of_nat n :: byte) = int n - 256"
proof -
  assume n: "128 \<le> n" "n < 256"
  have "sint (of_nat n :: byte) = sint (word_of_int (int n - 256) :: byte)"
    by (rule arg_cong [of _ _ sint]) (simp add: of_int_diff)
  also have "\<dots> = int n - 256" unfolding signed_of_int using n by (simp add: signed_take_bit_int_eq_self)
  finally show ?thesis .
qed

text \<open>The length of the record in front of \<open>cp\<close>, when the bytes of an entry end there.\<close>

lemma rec_length_at:
  assumes "2 \<le> cp - bs" "bs \<le> cp" "cp \<le> length buf" "take (cp - bs) (drop bs buf) = w" "suffix (len_bytes n) w"
  shows "rec_length buf cp = sint (of_nat (n div 256) :: byte) * 256 + sint (of_nat (n mod 256) :: byte)"
proof -
  obtain v where w: "w = v @ [of_nat (n div 256), of_nat (n mod 256)]"
    using assms(5) by (auto simp: suffix_def len_bytes_def)
  have l: "length v + 2 = cp - bs" using arg_cong [OF assms(4), of length] assms(1-3) w by simp
  then have cp: "cp = bs + length v + 2" using assms(2) by simp
  have "w ! length v = buf ! (bs + length v)" "w ! Suc (length v) = buf ! Suc (bs + length v)"
    unfolding assms(4) [symmetric] using assms(3) cp by simp_all
  then show ?thesis by (simp add: rec_length_def w nth_append cp)
qed
definition all_short :: "entry list \<Rightarrow> bool" where
  "all_short es \<longleftrightarrow> (\<forall>e \<in> set es. short_entry e)"

definition handed :: "entry list \<Rightarrow> scan_state \<Rightarrow> scan_state" where
  "handed es s = s\<lparr>s_recnum := s_recnum s + length es, s_calls := s_calls s @ rev (map snd es)\<rparr>"

lemma handed_simps [simp]:
  "s_buf (handed es s) = s_buf s" "handed [] s = s"
  "handed es (s\<lparr>s_calls := s_calls s @ [snd e], s_recnum := s_recnum s + 1\<rparr>) = handed (es @ [e]) s"
  by (simp_all add: handed_def)

text \<open>One window of the buffer that holds the end of the remaining log: the records that are complete
  in it are handed over, last one first, and fewer than 130 bytes remain.\<close>

text \<open>One record of the inner loop: the length is found right before \<open>cp\<close>, and when the whole record is in
  the window, it is handed to \<open>func\<close> and the scan goes on before it.\<close>

lemma rec_length_window:
  assumes "2 \<le> cp - bs" "cp \<le> length (s_buf s)" "take (cp - bs) (drop bs (s_buf s)) = drop k (log_bytes (es @ [e]))"
    and "k \<le> length (log_bytes (es @ [e]))" "cp = bs + (length (log_bytes (es @ [e])) - k)" "length (fst e) < 128"
  shows "rec_length (s_buf s) cp = int (length (fst e))"
proof -
  have "suffix (len_bytes (length (fst e))) (log_bytes (es @ [e]))" by (simp add: enc_def suffix_def)
  then have "suffix (len_bytes (length (fst e))) (drop k (log_bytes (es @ [e])))"
    using assms(1,4,5) suffix_drop [of k "log_bytes (es @ [e])"]
    by (auto simp: len_bytes_def intro: suffix_length_suffix)
  then show ?thesis using rec_length_at [OF assms(1) _ assms(2,3)] assms(5,6) by (simp add: sint_byte)
qed

lemma window_split:
  assumes "take (cp - bs) (drop bs b) = p @ enc e" "cp = cp' + length (enc e)" "cp' = bs + length p"
  shows "take (cp' - bs) (drop bs b) = p" "take (length (fst e)) (drop cp' b) = fst e"
proof -
  have cpe: "cp - bs = (cp' - bs) + length (enc e)" using assms(2,3) by simp
  show "take (cp' - bs) (drop bs b) = p"
    using arg_cong [OF assms(1), of "take (cp' - bs)"] assms(3) cpe by simp
  have "take (length (enc e)) (drop cp' b) = enc e"
    using arg_cong [OF assms(1), of "drop (cp' - bs)"] assms(3) cpe by (simp add: drop_take add.commute)
  then have "take (length (fst e)) (take (length (enc e)) (drop cp' b)) = take (length (fst e)) (enc e)"
    by (simp only:)
  then show "take (length (fst e)) (drop cp' b) = fst e"
    by (simp add: length_enc min_def) (simp add: enc_def)
qed

lemma scan_records_window:
  assumes "all_short es" "k \<le> length (log_bytes es)" "cp = bs + (length (log_bytes es) - k)"
    and "cp \<le> length (s_buf s)" "take (cp - bs) (drop bs (s_buf s)) = drop k (log_bytes es)"
  shows "\<exists>es1 es2. es = es1 @ es2 \<and> k \<le> length (log_bytes es1) \<and> length (log_bytes es1) - k < 130
       \<and> (k = 0 \<longrightarrow> es1 = [])
       \<and> scan_records (\<lambda>_. True) 0 bs cp s = keep_leftover bs (bs + (length (log_bytes es1) - k)) (handed es2 s)"
  using assms
proof (induction es arbitrary: cp s rule: rev_induct)
  case Nil
  then show ?case by (intro exI [of _ "[]"]) (simp add: scan_records.simps)
next
  case (snoc e es)
  have e: "length (fst e) < 128" "wlog_rec_unpack (fst e) = Ret (snd e)" and sh: "all_short es"
    using snoc.prems(1) by (auto simp: all_short_def short_entry_def)
  have rl: "rec_length (s_buf s) cp = int (length (fst e))" if "2 \<le> cp - bs"
    by (rule rec_length_window [OF that snoc.prems(4,5,2,3) e(1)])
  show ?case
  proof (cases "length (enc e) \<le> cp - bs")
    case False
    have "scan_records (\<lambda>_. True) 0 bs cp s = keep_leftover bs cp s"
      using False rl snoc.prems(3) by (subst scan_records.simps) (auto simp: length_enc Let_def)
    moreover have "k \<noteq> 0" using False snoc.prems(3) by auto
    ultimately show ?thesis using snoc.prems(2,3) False e(1)
      by (intro exI [of _ "es @ [e]"] exI [of _ "[]"]) (auto simp: length_enc)
  next
    case True
    define cp' where "cp' = cp - length (enc e)"
    have kl: "k \<le> length (log_bytes es)" using True snoc.prems(2,3) by simp
    have cp': "cp' = bs + (length (log_bytes es) - k)" using kl snoc.prems(3) by (simp add: cp'_def)
    have "take (cp - bs) (drop bs (s_buf s)) = drop k (log_bytes es) @ enc e"
      using snoc.prems(5) kl by simp
    moreover have "cp = cp' + length (enc e)" "cp' = bs + length (drop k (log_bytes es))"
      using True cp' by (simp_all add: cp'_def)
    ultimately have win: "take (cp' - bs) (drop bs (s_buf s)) = drop k (log_bytes es)"
      and body: "take (length (fst e)) (drop cp' (s_buf s)) = fst e" by (rule window_split)+
    let ?s = "s\<lparr>s_calls := s_calls s @ [snd e], s_recnum := s_recnum s + 1\<rparr>"
    have st: "scan_records (\<lambda>_. True) 0 bs cp s = scan_records (\<lambda>_. True) 0 bs cp' ?s"
      using True rl snoc.prems(3) e body
      by (subst scan_records.simps) (auto simp: length_enc Let_def wlog_sizes cp'_def nat_add_distrib)
    have "\<exists>es1 es2. es = es1 @ es2 \<and> k \<le> length (log_bytes es1) \<and> length (log_bytes es1) - k < 130
       \<and> (k = 0 \<longrightarrow> es1 = [])
       \<and> scan_records (\<lambda>_. True) 0 bs cp' ?s = keep_leftover bs (bs + (length (log_bytes es1) - k)) (handed es2 ?s)"
      using snoc.prems(4) win by (intro snoc.IH [OF sh kl cp']) (simp_all add: cp'_def)
    then obtain es1 es2 where r: "es = es1 @ es2" "k \<le> length (log_bytes es1)" "length (log_bytes es1) - k < 130"
      "k = 0 \<longrightarrow> es1 = []"
      "scan_records (\<lambda>_. True) 0 bs cp' ?s = keep_leftover bs (bs + (length (log_bytes es1) - k)) (handed es2 ?s)"
      by blast
    have "handed es2 ?s = handed (es2 @ [e]) s" by (rule handed_simps(3))
    then show ?thesis using r st by (intro exI [of _ es1] exI [of _ "es2 @ [e]"]) simp
  qed
qed

text \<open>The outer loop: the bytes left over at the end of the buffer, together with the part of the file
  that is still to be read, are the remaining log.\<close>

lemma keep_leftover_ok:
  assumes "m < 130" "length (s_buf s) = BUF_SIZE" "bs = 0 \<or> m = 0" "bs \<le> BUF_SIZE"
  shows "keep_leftover bs (bs + m) s =
     Ret (m, s\<lparr>s_buf := take (BUF_SIZE - m) (s_buf s) @ take m (drop bs (s_buf s))\<rparr>)"
  using assms by (auto simp: keep_leftover_def BUF_SIZE_def)

text \<open>The window of the buffer that a read leaves between \<open>bufstart\<close> and the end holds the log from the
  new offset on.\<close>

lemma window_bytes:
  fixes log :: "byte list"
  assumes "off + (BUF_SIZE - bs - leftover) = offset" "bs + leftover \<le> BUF_SIZE" "length b = BUF_SIZE"
    and "drop (BUF_SIZE - leftover) b = take leftover (drop offset file)"
    and "offset + leftover = length log" "file = log @ rest"
  shows "drop bs (take bs b @ take (BUF_SIZE - bs - leftover) (drop off file) @ drop (BUF_SIZE - leftover) b)
    = drop off log"
proof -
  have "drop bs (take bs b @ take (BUF_SIZE - bs - leftover) (drop off file) @ drop (BUF_SIZE - leftover) b)
      = take (BUF_SIZE - bs - leftover) (drop off file) @ take leftover (drop offset file)"
    using assms(2,3,4) by simp
  also have "\<dots> = take (BUF_SIZE - bs - leftover + leftover) (drop off file)"
    unfolding take_add drop_drop using assms(1) by (simp add: add.commute)
  also have "BUF_SIZE - bs - leftover + leftover = offset + leftover - off" using assms(1,2) by linarith
  also have "take (offset + leftover - off) (drop off file) = drop off (take (offset + leftover) file)"
    by (simp add: drop_take)
  finally show ?thesis using assms(5,6) by simp
qed

text \<open>The contents of the buffer after one turn of the outer loop.\<close>

lemma kept_bytes:
  assumes "length buf = BUF_SIZE" "bs = 0 \<or> m = 0" "m < 130"
  shows "length (take (BUF_SIZE - m) buf @ take m (drop bs buf)) = BUF_SIZE"
    and "drop (BUF_SIZE - m) (take (BUF_SIZE - m) buf @ take m (drop bs buf)) = take m (drop bs buf)"
  using assms by (auto simp: min_def BUF_SIZE_def)

lemma scan_loop_step:
  assumes "all_short es" "offset + leftover = length (log_bytes es)" "leftover < 130"
    and "file = log_bytes es @ rest" "length (s_buf s) = BUF_SIZE"
    and "drop (BUF_SIZE - leftover) (s_buf s) = take leftover (drop offset file)" "0 < offset"
  obtains es1 es2 off m b where "es = es1 @ es2" "off < offset" "off + m = length (log_bytes es1)" "m < 130"
    "off = 0 \<longrightarrow> es1 = []" "length b = BUF_SIZE" "drop (BUF_SIZE - m) b = take m (drop off file)"
    "scan_loop (\<lambda>_. True) (\<lambda>_. True) 0 file offset leftover s
      = scan_loop (\<lambda>_. True) (\<lambda>_. True) 0 file off m ((handed es2 s)\<lparr>s_buf := b\<rparr>)"
proof -
  define bs where "bs = (if offset + leftover < BUF_SIZE then BUF_SIZE - (offset + leftover) else 0)"
  define off where "off = (if offset + leftover < BUF_SIZE then 0 else offset - (BUF_SIZE - leftover))"
  define buf where "buf = take bs (s_buf s) @ take (BUF_SIZE - bs - leftover) (drop off file)
     @ drop (BUF_SIZE - leftover) (s_buf s)"
  have N: "leftover < BUF_SIZE" using assms(3) by (simp add: BUF_SIZE_def)
  have o: "off + (BUF_SIZE - bs - leftover) = offset" "bs + leftover \<le> BUF_SIZE" "off < offset"
    using assms(7) N by (auto simp: bs_def off_def)
  have lb: "length buf = BUF_SIZE" using o assms(2,4,5) N by (simp add: buf_def)
  have win: "drop bs buf = drop off (log_bytes es)"
    unfolding buf_def by (rule window_bytes [OF o(1,2) assms(5,6,2,4)])
  have "\<exists>es1 es2. es = es1 @ es2 \<and> off \<le> length (log_bytes es1) \<and> length (log_bytes es1) - off < 130
     \<and> (off = 0 \<longrightarrow> es1 = [])
     \<and> scan_records (\<lambda>_. True) 0 bs BUF_SIZE (s\<lparr>s_buf := buf\<rparr>)
        = keep_leftover bs (bs + (length (log_bytes es1) - off)) (handed es2 (s\<lparr>s_buf := buf\<rparr>))"
    using win lb o assms(2) by (intro scan_records_window [OF assms(1)]) simp_all
  then obtain es1 es2 m where es: "es = es1 @ es2" "off + m = length (log_bytes es1)" "m < 130"
    "off = 0 \<longrightarrow> es1 = []"
    "scan_records (\<lambda>_. True) 0 bs BUF_SIZE (s\<lparr>s_buf := buf\<rparr>)
        = keep_leftover bs (bs + m) (handed es2 (s\<lparr>s_buf := buf\<rparr>))" by (metis le_add_diff_inverse)
  have bm: "bs = 0 \<or> m = 0" using es(2,4) by (auto simp: bs_def off_def)
  define b where "b = take (BUF_SIZE - m) buf @ take m (drop bs buf)"
  have sr: "scan_records (\<lambda>_. True) 0 bs BUF_SIZE (s\<lparr>s_buf := buf\<rparr>) = Ret (m, (handed es2 s)\<lparr>s_buf := b\<rparr>)"
    using es(3) lb bm o(2) unfolding es(5) b_def by (subst keep_leftover_ok) (auto simp: handed_def)
  have pr: "(if offset + leftover < BUF_SIZE then (BUF_SIZE - (offset + leftover), 0)
      else (0, offset - (BUF_SIZE - leftover))) = (bs, off)" by (simp add: bs_def off_def)
  have step: "scan_loop (\<lambda>_. True) (\<lambda>_. True) 0 file offset leftover s
      = scan_loop (\<lambda>_. True) (\<lambda>_. True) 0 file off m ((handed es2 s)\<lparr>s_buf := b\<rparr>)"
    unfolding scan_loop.simps [of _ _ _ "file" offset] pr Let_def prod.case buf_def [symmetric] sr
    using assms(7) by simp
  have "drop (BUF_SIZE - m) b = take m (drop off file)"
    using kept_bytes(2) [OF lb bm es(3), folded b_def] es(1,2) by (simp add: win assms(4))
  then show thesis
    using that [of es1 es2 off m b] es(1-4) o(3) step kept_bytes(1) [OF lb bm es(3)] by (simp add: b_def)
qed

lemma scan_loop_log:
  assumes "all_short es" "offset + leftover = length (log_bytes es)" "leftover < 130"
    and "file = log_bytes es @ rest" "length (s_buf s) = BUF_SIZE"
    and "drop (BUF_SIZE - leftover) (s_buf s) = take leftover (drop offset file)" "offset = 0 \<longrightarrow> es = []"
  shows "\<exists>buf. scan_loop (\<lambda>_. True) (\<lambda>_. True) 0 file offset leftover s
           = Some (Ret (0, (handed es s)\<lparr>s_buf := buf\<rparr>))"
  using assms
proof (induction offset arbitrary: es leftover rest s rule: less_induct)
  case (less offset)
  show ?case
  proof (cases "offset = 0")
    case True
    then have "es = []" using less.prems by simp
    then show ?thesis using True
      by (subst scan_loop.simps) (auto intro!: exI [of _ "s_buf s"])
  next
    case False
    then obtain es1 es2 off m b where st: "es = es1 @ es2" "off < offset" "off + m = length (log_bytes es1)"
      "m < 130" "off = 0 \<longrightarrow> es1 = []" "length b = BUF_SIZE" "drop (BUF_SIZE - m) b = take m (drop off file)"
      "scan_loop (\<lambda>_. True) (\<lambda>_. True) 0 file offset leftover s
        = scan_loop (\<lambda>_. True) (\<lambda>_. True) 0 file off m ((handed es2 s)\<lparr>s_buf := b\<rparr>)"
      using scan_loop_step [OF less.prems(1-6)] by blast
    have "\<exists>c. scan_loop (\<lambda>_. True) (\<lambda>_. True) 0 file off m ((handed es2 s)\<lparr>s_buf := b\<rparr>)
        = Some (Ret (0, (handed es1 ((handed es2 s)\<lparr>s_buf := b\<rparr>))\<lparr>s_buf := c\<rparr>))"
      by (rule less.IH [OF st(2) _ st(3,4)]) (use st less.prems in \<open>auto simp: all_short_def\<close>)
    then show ?thesis unfolding st(8) by (auto simp: handed_def st(1) ac_simps)
  qed
qed

lemma strings_bound: "packable r \<Longrightarrow> length (strings_of r) \<le> 198"
proof -
  assume "packable r"
  then have "nat (w_pathlen r) \<le> 127" "nat (w_hostlen r) \<le> 8" "nat (w_patternlen r) \<le> 63"
    by (auto simp: packable_def wlog_sizes)
  then show ?thesis by (simp add: strings_of_def)
qed

subsection \<open>Properties\<close>

text \<open>What \<open>wlog_rec_pack\<close> stores, whatever the buffer held before, is read back by
  \<open>wlog_rec_unpack\<close>: all numbers of a record that fit their bit fields, and the used part of the
  strings, terminated by zeros.\<close>

theorem wlog_pack_roundtrip:
  assumes "packable r" "28 \<le> length old"
  shows "\<exists>p. wlog_rec_pack r old True = Ret p \<and> length p \<le> WLOG_REC_MAX_SIZE \<and> wlog_rec_unpack p = Ret (trimmed r)"
proof -
  have "length (pack_fixed r old @ strings_of r) \<le> WLOG_REC_MAX_SIZE"
    using strings_bound [OF assms(1)] pack_fixed_units(1) [OF assms(2), of r] by (simp add: wlog_sizes)
  then show ?thesis using pack_packable [OF assms] unpack_packed [OF assms] by blast
qed

definition ex_rec :: wlog_rec where
  "ex_rec = \<lparr>w_pid = 4711, w_offset = 8192, w_nbytes = 512, w_oflags = 1, w_done = 1, w_async = 0,
     w_host = replicate 9 104, w_hostlen = 4, w_path = replicate 129 47, w_pathlen = 20,
     w_pattern = replicate 65 120, w_patternlen = 3\<rparr>"

lemma packable_ex_rec: "packable ex_rec"
  by (simp add: packable_def ex_rec_def rec_arrays_def wlog_sizes int_limits)

theorem wlog_pack_roundtrip_witness:
  "\<exists>p. wlog_rec_pack ex_rec (replicate 28 255) True = Ret p \<and> wlog_rec_unpack p = Ret (trimmed ex_rec)"
  using wlog_pack_roundtrip [OF packable_ex_rec, of "replicate 28 255"] by auto

text \<open>A path or a pattern of the maximal length that \<open>write_log.h\<close> allows is lost: its length does
  not fit the 7 and 6 bits of the record on disk and is stored as 0.\<close>

theorem wlog_max_length_lost:
  assumes "packable (r\<lparr>w_pathlen := 0, w_patternlen := 0\<rparr>)" "28 \<le> length old"
    and "w_pathlen r = int WLOG_MAX_PATH" "w_patternlen r = int WLOG_MAX_PATTERN"
  shows "\<exists>p u. wlog_rec_pack r old True = Ret p \<and> wlog_rec_unpack p = Ret u \<and> w_pathlen u = 0 \<and> w_patternlen u = 0"
proof -
  let ?r = "r\<lparr>w_pathlen := 0, w_patternlen := 0\<rparr>"
  have "set_field 17 7 (len_field (w_pathlen r)) w = set_field 17 7 (len_field 0) w"
    "set_field 24 6 (len_field (w_patternlen r)) w = set_field 24 6 (len_field 0) w" for w
    using assms(3,4) by (simp_all add: set_field_def len_field_def wlog_sizes)
  then have d: "pack_fixed r old = pack_fixed ?r old" by (simp add: pack_fixed_def)
  have "wlog_rec_pack r old True = wlog_rec_pack ?r old True" by (simp add: wlog_rec_pack_def d Let_def)
  then show ?thesis using pack_packable [OF assms(1,2)] unpack_packed [OF assms(1,2)]
    by (auto simp: trimmed_def)
qed

theorem wlog_max_length_lost_witness:
  "\<exists>p u. wlog_rec_pack (ex_rec\<lparr>w_pathlen := 128, w_patternlen := 64\<rparr>) (replicate 28 0) True = Ret p
     \<and> wlog_rec_unpack p = Ret u \<and> w_pathlen u = 0 \<and> w_patternlen u = 0"
  using wlog_max_length_lost [of "ex_rec\<lparr>w_pathlen := 128, w_patternlen := 64\<rparr>" "replicate 28 0"]
  by (simp add: packable_def ex_rec_def rec_arrays_def wlog_sizes int_limits)

text \<open>The log after complete appending writes of the given records, with what the buffers held.\<close>

fun append_all :: "byte list \<Rightarrow> (wlog_rec \<times> byte list) list \<Rightarrow> byte list outcome" where
  "append_all file [] = Ret file"
| "append_all file ((r, old) # rs) =
     bind_outcome (wlog_record_write (Some WLOG_REC_MAX_SIZE) True old file r (-1)) (\<lambda>(_, file). append_all file rs)"

definition entry_of :: "wlog_rec \<times> byte list \<Rightarrow> entry" where
  "entry_of p = (case p of (r, old) \<Rightarrow> (pack_fixed r old @ strings_of r, trimmed r))"

definition short_rec :: "wlog_rec \<times> byte list \<Rightarrow> bool" where
  "short_rec p \<longleftrightarrow> packable (fst p) \<and> 28 \<le> length (snd p) \<and> length (strings_of (fst p)) < 100"

lemma short_entry_of: "short_rec p \<Longrightarrow> short_entry (entry_of p)"
  using pack_fixed_units(1) [of "snd p" "fst p"] unpack_packed [of "fst p" "snd p"]
  by (auto simp: short_rec_def short_entry_def entry_of_def split: prod.split)

lemma append_all_eq: "\<forall>p \<in> set rs. short_rec p \<Longrightarrow> append_all f rs = Ret (f @ log_bytes (map entry_of rs))"
proof (induction rs arbitrary: f)
  case (Cons p rs)
  obtain r old where p: "p = (r, old)" by fastforce
  have s: "packable r" "28 \<le> length old" "length (strings_of r) < 100" using Cons.prems by (auto simp: short_rec_def p)
  have "\<exists>x. wlog_record_write (Some WLOG_REC_MAX_SIZE) True old f r (-1) = Ret (x, f @ enc (entry_of p))"
    using pack_packable [OF s(1,2)] s(3) pack_fixed_units(1) [OF s(2), of r]
    by (auto simp: wlog_record_write_def Let_def enc_def entry_of_def p wlog_sizes len_bytes_def)
  then obtain x where "wlog_record_write (Some WLOG_REC_MAX_SIZE) True old f r (-1) = Ret (x, f @ enc (entry_of p))" ..
  then show ?case using Cons by (simp add: p log_bytes_def)
qed simp

text \<open>C13: records that are appended to an empty log, with less than 100 bytes of strings each, are
  handed over by \<open>wlog_scan_backward\<close> in the reverse order, each exactly once, also when the log is
  longer than the buffer and records lie across its borders.\<close>

theorem wlog_scan_reverses:
  assumes "\<forall>p \<in> set rs. short_rec p" "130 * int (length rs) \<le> INT_MAX" "length buf0 = BUF_SIZE"
  shows "\<exists>file s. append_all [] rs = Ret file
     \<and> wlog_scan_backward True (\<lambda>_. True) (\<lambda>_. True) 0 buf0 file = Some (Ret (0, s))
     \<and> s_calls s = rev (map (trimmed \<circ> fst) rs) \<and> s_recnum s = length rs"
proof -
  let ?es = "map entry_of rs" and ?s = "\<lparr>s_buf = buf0, s_recnum = 0, s_calls = []\<rparr>"
  have sh: "all_short ?es" using assms(1) short_entry_of by (auto simp: all_short_def)
  have "length (log_bytes es) \<le> 130 * length es" if "all_short es" for es
    using that by (induction es) (auto simp: all_short_def short_entry_def log_bytes_def length_enc)
  from this [OF sh] have l: "int (length (log_bytes ?es)) \<le> INT_MAX" using assms(2) by simp
  have w: "wrap32 (int (length (log_bytes ?es))) = int (length (log_bytes ?es))"
    using l by (intro wrap32_id) (simp_all add: int_limits)
  have "\<exists>buf. scan_loop (\<lambda>_. True) (\<lambda>_. True) 0 (log_bytes ?es) (length (log_bytes ?es)) 0 ?s
      = Some (Ret (0, (handed ?es ?s)\<lparr>s_buf := buf\<rparr>))"
    using sh assms(3) by (intro scan_loop_log [where rest = "[]"]) auto
  then obtain buf where "wlog_scan_backward True (\<lambda>_. True) (\<lambda>_. True) 0 buf0 (log_bytes ?es)
      = Some (Ret (0, (handed ?es ?s)\<lparr>s_buf := buf\<rparr>))"
    using w by (auto simp: wlog_scan_backward_def Let_def)
  moreover have "map snd ?es = map (trimmed \<circ> fst) rs" by (simp add: entry_of_def split_def)
  ultimately show ?thesis using append_all_eq [OF assms(1), of "[]"] by (auto simp: handed_def)
qed

theorem wlog_scan_reverses_witness:
  "\<exists>file s. append_all [] [(ex_rec, replicate 28 0), (ex_rec\<lparr>w_pid := 1\<rparr>, replicate 28 255)] = Ret file
     \<and> wlog_scan_backward True (\<lambda>_. True) (\<lambda>_. True) 0 (replicate BUF_SIZE 0) file = Some (Ret (0, s))
     \<and> s_calls s = [trimmed (ex_rec\<lparr>w_pid := 1\<rparr>), trimmed ex_rec] \<and> s_recnum s = 2"
proof -
  have "short_rec (ex_rec, replicate 28 0)" "short_rec (ex_rec\<lparr>w_pid := 1\<rparr>, replicate 28 255)"
    by (simp_all add: short_rec_def strings_of_def ex_rec_def packable_def rec_arrays_def wlog_sizes int_limits)
  then show ?thesis
    using wlog_scan_reverses [of "[(ex_rec, replicate 28 0), (ex_rec\<lparr>w_pid := 1\<rparr>, replicate 28 255)]" "replicate BUF_SIZE 0"]
    by (simp add: int_limits numeral_2_eq_2 del: append_all.simps)
qed

text \<open>C35: a log that ends with a record of 100 or more bytes of strings cannot be scanned: the low byte
  of its length is read as a negative number, and the scan copies a negative number of bytes.\<close>

theorem wlog_scan_long_undefined:
  assumes "packable r" "28 \<le> length old" "100 \<le> length (strings_of r)" "length buf0 = BUF_SIZE"
    and "file = pre @ enc (entry_of (r, old))" "int (length file) \<le> INT_MAX"
  shows "wlog_scan_backward True (\<lambda>_. True) func nrecs buf0 file = Some (Undefined ''memcpy outside albuf'')"
proof -
  define n where "n = length (pack_fixed r old @ strings_of r)"
  define off where "off = (if length file < BUF_SIZE then 0 else length file - BUF_SIZE)"
  define bs where "bs = (if length file < BUF_SIZE then BUF_SIZE - length file else 0)"
  define buf where "buf = take bs buf0 @ take (BUF_SIZE - bs) (drop off file)"
  have n: "128 \<le> n" "n < 254"
    using assms(3) strings_bound [OF assms(1)] pack_fixed_units(1) [OF assms(2), of r] by (simp_all add: n_def)
  have lf: "130 \<le> length file" using n by (simp add: assms(5) enc_def entry_of_def n_def len_bytes_def)
  have o: "BUF_SIZE - bs = length file - off" "bs \<le> BUF_SIZE" "off \<le> length file" "130 \<le> BUF_SIZE - bs"
    using lf by (auto simp: bs_def off_def BUF_SIZE_def)
  have lb: "length buf = BUF_SIZE" using o assms(4) by (simp add: buf_def)
  have win: "take (BUF_SIZE - bs) (drop bs buf) = drop off file" using o assms(4) by (simp add: buf_def)
  have "suffix (len_bytes n) file" by (simp add: assms(5) enc_def entry_of_def n_def suffix_def)
  then have "suffix (len_bytes n) (drop off file)"
    using o suffix_drop [of off "file"] by (auto simp: len_bytes_def intro: suffix_length_suffix)
  then have rl: "rec_length buf BUF_SIZE = int n - 256"
    using rec_length_at [of BUF_SIZE bs buf "drop off file" n] o lb win n by (simp add: sint_byte_high)
  have sr: "scan_records func nrecs bs BUF_SIZE s = Undefined ''memcpy outside albuf''" if "s_buf s = buf" for s
    using that o n by (subst scan_records.simps) (simp add: rl Let_def)
  have w: "wrap32 (int (length file)) = int (length file)"
    using assms(6) by (intro wrap32_id) (simp_all add: int_limits)
  have "scan_loop (\<lambda>_. True) func nrecs file (length file) 0 \<lparr>s_buf = buf0, s_recnum = 0, s_calls = []\<rparr>
      = Some (Undefined ''memcpy outside albuf'')"
    using lf sr assms(4) by (subst scan_loop.simps)
      (auto simp: Let_def buf_def bs_def off_def split: if_splits)
  then show ?thesis using w by (simp add: wlog_scan_backward_def Let_def)
qed

theorem wlog_scan_long_undefined_witness:
  "wlog_scan_backward True (\<lambda>_. True) (\<lambda>_. True) 0 (replicate BUF_SIZE 0)
     (enc (entry_of (ex_rec\<lparr>w_pathlen := 100\<rparr>, replicate 28 0))) = Some (Undefined ''memcpy outside albuf'')"
proof -
  let ?r = "ex_rec\<lparr>w_pathlen := 100\<rparr>"
  have "packable ?r" "100 \<le> length (strings_of ?r)" "length (strings_of ?r) \<le> 200"
    by (simp_all add: packable_def ex_rec_def rec_arrays_def strings_of_def wlog_sizes int_limits)
  then show ?thesis
    using wlog_scan_long_undefined [of ?r "replicate 28 0" "replicate BUF_SIZE 0" _ "[]" "\<lambda>_. True" 0]
      pack_fixed_units(1) [of "replicate 28 0" ?r]
    by (simp add: enc_def entry_of_def len_bytes_def int_limits)
qed

end
