(* ===== verification/Spec2Isabelle.thy ===== *)
theory Spec2Isabelle
  imports Zoo_Spec Symbol_Spec Pan_Props Kvercmp Checksum Bitmask_Text Tst_Timer Kconfig Tst_Run Timer_Test Tst_Tmpdir Tst_Buffers Tst_Caps Random_Range Doio_Pattern Doio_Text Write_Log
begin

text \<open>
  \<^bold>\<open>The Linux Test Project: test driver, test library and data helpers\<close>

  The program under \<open>src/ltp\<close> has three layers.  The driver \<open>ltp-pan\<close> reads a file of commands, starts them
  as process groups, records the groups in a file (the zoo), collects their exit statuses and writes logs.  A command is
  a test linked with the test library in \<open>lib\<close>, which counts results and turns them into the exit status
  that the driver reads; there are two such libraries, the old one (\<open>tst_res.c\<close>) and the new
  one (\<open>tst_test.c\<close>), which runs the test in a process of its own.  Tests use helpers for data: bit masks of
  processors, patterns written to files, logs of writes, random numbers in ranges.

  \<^bold>\<open>Conventions.\<close>  Theory \<open>Ltp_Prelude\<close> has what the components share.  A C string is the list of its
  characters; an \<open>int\<close> is a HOL integer with its width written out where an overflow matters, or a word where the
  code works on bits.  An operation that may exit, abort or have undefined behaviour returns an
  \<open>outcome\<close> (\<open>Ret\<close>, \<open>Exits\<close>, \<open>Aborts\<close>, \<open>Undefined\<close>); one that may also not return has the type
  \<open>run\<close>, in which \<open>None\<close> stands for not returning.  The state of a file is a record of its static variables, which
  the operations take and return.  What the system answers (results of calls, contents of files, clocks, random
  numbers) is an argument.

  \<^bold>\<open>The driver\<close>, \<open>pan/\<close>.
  \<^item> \<open>Splitstr\<close>: \<open>splitstr.c\<close>, the growing array of tokens.  The result is the list of tokens; freeing it
    is defined unless the string starts with a separator.
  \<^item> \<open>Zoolib\<close>, \<open>Zoo_Spec\<close>: \<open>zoolib.c\<close> byte by byte.  The locale \<open>zoo_store\<close> is the contract of the zoo as a multiset of
    process ids; its interpretation on the byte-level operations is what the driver's proofs use.
  \<^item> \<open>Symbol\<close>, \<open>Symbol_Spec\<close>: \<open>symbol.c\<close>.  Nested tables are partial maps from paths to data (locale
    \<open>path_store\<close>): return codes, round trip, enumeration, and what is freed.
  \<^item> \<open>Pan_Collection\<close>, \<open>Pan_State\<close>, \<open>Pan_Driver\<close>, \<open>Pan_Main\<close>: \<open>ltp-pan.c\<close> in the order of the code: the command
    file, the state, starting and collecting children, the scheduling loop, the options and \<open>main\<close>.
    A loop takes the list of the answers for its turns and has no result when the list is too short.
  \<^item> \<open>Pan_Spec\<close>, \<open>Pan_Run\<close>, \<open>Pan_Props\<close>: the invariant that ties slots, orphans and the zoo file together, kept
    by every operation; a finished run leaves the zoo as it was; the sequential order; the
    wait for orphans ends; the verdict on an exit status.

  \<^bold>\<open>The test library\<close>, \<open>lib/\<close> and \<open>include/\<close>.
  \<^item> \<open>Tst_Flags\<close>, \<open>Tst_Names\<close>: the result types, the names of errors, signals and statuses.
  \<^item> \<open>Tst_Res\<close>: \<open>tst_res.c\<close>, the old library: reporting with condensing, the exit status as the exact
    union of the results, \<open>tst_brkm\<close> outside and inside a cleanup.
  \<^item> \<open>Tst_Message\<close>: counting and printing of \<open>tst_test.c\<close> (\<open>print_result\<close> with its buffer), parsing of numbers.
  \<^item> \<open>Tst_Test\<close>: the test process (\<open>testrun\<close>).  A test function is the list of the calls it makes.  The
    abstract view (\<open>proc_spec\<close>) is the list of the results that a process adds and the way it ends;
    \<open>testrun_impl\<close> shows that the process implements it.  The locale \<open>brk_contract\<close> states what a handler of
    \<open>tst_brk\<close> promises; it is interpreted on both handlers of the code.
  \<^item> \<open>Tst_Conf\<close>: \<open>tst_sys_conf.c\<close>, saving and restoring settings.
  \<^item> \<open>Tst_Setup\<close>: \<open>do_setup\<close>, \<open>do_cleanup\<close>, \<open>do_exit\<close>.  The resources given out by the system are a multiset; an
    invariant relates it to the flags of the code at every point where the setup can break off,
    so the exit releases all of it.
  \<^item> \<open>Tst_Run\<close>: \<open>fork_testrun\<close>, the loops over file systems and variants, \<open>tst_run_tcases\<close> and the signal
    handlers.  The exit status of a whole test is given by the abstract view of its processes.
  \<^item> \<open>Tst_Tmpdir\<close>: \<open>tst_tmpdir.c\<close> on trees of files.  \<open>rmobj\<close> leaves exactly what cannot be removed and the directories
    above it; a failing \<open>chdir\<close> is reported as a pass, by composition with \<open>Tst_Res\<close>.
  \<^item> \<open>Tst_Buffers\<close>: \<open>tst_buffers.c\<close> on a byte memory: an invariant over sequences of allocations and writes, and the
    detection of a changed byte.
  \<^item> \<open>Tst_Caps\<close>: \<open>tst_capability.c\<close> and \<open>tst_taint.c\<close>, sets of capabilities as bits of words.
  \<^item> \<open>Timer_Test\<close>: \<open>tst_timer_test.c\<close>: the samples are sorted, and the verdict is that of their truncated sum.
  \<^item> \<open>Tst_Timer\<close>, \<open>Kvercmp\<close>, \<open>Checksum\<close>, \<open>Kconfig\<close>, \<open>Random_Range\<close>: \<open>tst_timer.h\<close>, \<open>tst_timer.c\<close> and \<open>tst_wallclock.c\<close>,
    \<open>tst_kvercmp.c\<close>, \<open>tst_checksum.c\<close>, \<open>tst_kconfig.c\<close>, \<open>random_range.c\<close>: exact arithmetic without overflow, the
    restored clock, CRC32C against its bitwise definition, the verdict on options of
    the kernel, multiples in a range (locale \<open>signed_width\<close> for the widths).

  \<^bold>\<open>Data helpers\<close>, \<open>testcases/\<close>.
  \<^item> \<open>Bitmask\<close>, \<open>Bitmask_Text\<close>: \<open>libbitmask.c\<close>.  The locale \<open>bit_array\<close> is the contract of reading and writing
    one bit; all operations refine set operations for every aliasing of their
    operands, and both text formats are read back.
  \<^item> \<open>Doio_Pattern\<close>, \<open>Doio_Text\<close>, \<open>Write_Log\<close>: \<open>kernel/fs/doio\<close>.  Filled buffers are accepted and a changed byte is
    found (locale \<open>data_pair\<close>); names of open flags are read back; records of writes are
    found by the backward scan in reverse order.

  \<^bold>\<open>Bounds.\<close>  Loops over data are total functions.  The loops that may run forever are partial functions, and both
  sides are proved: \<open>set_stride\<close> (a stride of 0), \<open>fill_loop\<close> and \<open>check_loop\<close> (an empty pattern), \<open>print_result\<close>
  (a file name that leaves no room), \<open>do_exit\<close> (a cleanup that restarts), \<open>scan_loop\<close> and \<open>shift_until\<close>.  The only fuel is
  that of \<open>seq_entries\<close>, which calls \<open>sym_seq\<close> as often as the table has nodes.  Buffer sizes are those
  of the code.  Constants are those of Linux on x86-64.

  \<^bold>\<open>Assumptions that appear in the theorems.\<close>  The zoo file is well formed when the driver starts; its lock can
  be taken, a start gets a positive process id, and \<open>wait\<close> answers with a
  recorded group that has exited or was killed (\<open>main_ok\<close>, \<open>kernel_ok\<close>); \<open>mmap\<close> returns unused pages; reports have file names that fit the buffer
  (\<open>good\<close>); fewer than \<open>2 ^ 32\<close> results are reported; \<open>umount\<close> is busy fewer than 50 times; the clock read at the
  start can be set back (\<open>clock_fine\<close>).  Each has a witness.

  \<^bold>\<open>Not modelled.\<close>  In the modelled files: messages on stderr where they are not the subject, debugging
  output, threads other than the first of \<open>tst_res.c\<close>, floating point (\<open>tst_parse_float\<close>,
  \<open>tst_multiply_timeout\<close>), the frequency plot of the timer tests, huge pages, the options of
  \<open>tst_test.c\<close> (their outcome is an argument), \<open>tst_reinit\<close> and checkpoints, for which the code needs shared memory between unrelated programs.  Other files:
  \<open>tag_report.c\<close>, \<open>reporter.c\<close> and \<open>scan.l\<close> (a lexer that flex generates), \<open>ltp-bump.c\<close>, the wrappers of system
  calls (\<open>safe_macros.c\<close> and relatives, one call and one report each), \<open>tlibio.c\<close> and
  \<open>tst_fuzzy_sync.h\<close> (asynchronous calls and relaxed memory), the headers of \<open>include/lapi\<close>, the build
  tools, the shell libraries, and the test programs, which are sequences of system calls whose
  answers the kernel under test gives.  \<open>src/testsuite\<close> has shell scripts that drive hardware.
\<close>

end
